(* ===== verification/Arena_Prelude.thy ===== *)
theory Arena_Prelude
  imports Main "HOL-Library.Word" "HOL-Library.Monad_Syntax"
begin

text \<open>
  Shared ground of the development: the Rust integer types, the integer operations of the Rust
  standard library that the sources call (\<open>checked_*\<close>, \<open>saturating_*\<close>, \<open>div_ceil\<close>, \<open>clamp\<close>,
  little-endian bytes), the result monad of the Anchor handlers, and generic lemmas on words and
  lists.

  Integer widths are kept: \<open>u8\<close>, \<open>u16\<close>, \<open>u32\<close>, \<open>u64\<close> and \<open>i64\<close> are words, so that \<open>+\<close>, \<open>-\<close>
  and \<open>*\<close> wrap around. The workspace manifest sets no \<open>overflow-checks\<close>, so this is what a release
  build of the sources does; lemmas about ranges show where no wrap-around can happen, and there a
  build with overflow checks behaves the same. \<open>usize\<close> values (lengths, indices, the program
  counter of the interpreter) are natural numbers. An \<open>i64\<close> is read through \<open>sint\<close>.
\<close>

unbundle bit_operations_syntax

type_synonym u8 = "8 word"
type_synonym u16 = "16 word"
type_synonym u32 = "32 word"
type_synonym u64 = "64 word"
type_synonym i64 = "64 word"

named_theorems word_nat "transport of word operations to natural numbers"

section \<open>Integer operations of the Rust standard library\<close>

definition checked_add :: "'a::len word \<Rightarrow> 'a word \<Rightarrow> 'a word option" where
  "checked_add a b = (if unat a + unat b < 2 ^ LENGTH('a) then Some (a + b) else None)"

definition checked_sub :: "'a::len word \<Rightarrow> 'a word \<Rightarrow> 'a word option" where
  "checked_sub a b = (if b \<le> a then Some (a - b) else None)"

definition checked_mul :: "'a::len word \<Rightarrow> 'a word \<Rightarrow> 'a word option" where
  "checked_mul a b = (if unat a * unat b < 2 ^ LENGTH('a) then Some (a * b) else None)"

definition checked_div :: "'a::len word \<Rightarrow> 'a word \<Rightarrow> 'a word option" where
  "checked_div a b = (if b = 0 then None else Some (a div b))"

definition saturating_add :: "'a::len word \<Rightarrow> 'a word \<Rightarrow> 'a word" where
  "saturating_add a b = (case checked_add a b of Some c \<Rightarrow> c | None \<Rightarrow> - 1)"

definition saturating_sub :: "'a::len word \<Rightarrow> 'a word \<Rightarrow> 'a word" where
  "saturating_sub a b = (if b \<le> a then a - b else 0)"

definition saturating_mul :: "'a::len word \<Rightarrow> 'a word \<Rightarrow> 'a word" where
  "saturating_mul a b = (case checked_mul a b of Some c \<Rightarrow> c | None \<Rightarrow> - 1)"

text \<open>\<open>a.div_ceil(b)\<close>: the quotient, plus one when there is a remainder.\<close>

definition div_ceil :: "'a::len word \<Rightarrow> 'a word \<Rightarrow> 'a word" where
  "div_ceil a b = (let d = a div b; r = a mod b in if 0 < r then d + 1 else d)"

definition clamp :: "'a::linorder \<Rightarrow> 'a \<Rightarrow> 'a \<Rightarrow> 'a" where
  "clamp x lo hi = (if x < lo then lo else if hi < x then hi else x)"

definition u8_from_bool :: "bool \<Rightarrow> u8" where
  "u8_from_bool b = (if b then 1 else 0)"

fun from_le_bytes :: "u8 list \<Rightarrow> 'a::len word" where
  "from_le_bytes [] = 0"
| "from_le_bytes (b # bs) = ucast b + 256 * from_le_bytes bs"

definition u32_to_le_bytes :: "u32 \<Rightarrow> u8 list" where
  "u32_to_le_bytes x = map (\<lambda>i. ucast (drop_bit (8 * i) x)) [0, 1, 2, 3]"

section \<open>Results of fallible handlers\<close>

text \<open>\<open>require!(c, e)\<close> and the \<open>?\<close> operator, over \<open>Result\<close> as a sum (\<open>Inl\<close> is \<open>Err\<close>).\<close>

definition require :: "bool \<Rightarrow> 'e \<Rightarrow> 'e + unit" where
  "require c e = (if c then Inr () else Inl e)"

definition ok_or :: "'a option \<Rightarrow> 'e \<Rightarrow> 'e + 'a" where
  "ok_or x e = (case x of Some v \<Rightarrow> Inr v | None \<Rightarrow> Inl e)"

definition and_then :: "'e + 'a \<Rightarrow> ('a \<Rightarrow> 'e + 'b) \<Rightarrow> 'e + 'b" where
  "and_then r f = (case r of Inl e \<Rightarrow> Inl e | Inr v \<Rightarrow> f v)"

lemma require_simps [simp]:
  "require True e = Inr ()" "require False e = Inl e"
  by (simp_all add: require_def)

lemma ok_or_simps [simp]:
  "ok_or (Some v) e = Inr v" "ok_or None e = Inl e"
  by (simp_all add: ok_or_def)

lemma and_then_simps [simp]:
  "and_then (Inl e) f = Inl e" "and_then (Inr v) f = f v"
  by (simp_all add: and_then_def)

lemma and_then_Inr_iff: "and_then r f = Inr y \<longleftrightarrow> (\<exists>x. r = Inr x \<and> f x = Inr y)"
  by (cases r) simp_all

lemma require_Inr_iff: "require c e = Inr u \<longleftrightarrow> c"
  by (simp add: require_def)

lemma ok_or_Inr_iff: "ok_or x e = Inr v \<longleftrightarrow> x = Some v"
  by (cases x) simp_all

lemmas result_Inr_iffs = and_then_Inr_iff require_Inr_iff ok_or_Inr_iff

section \<open>Words as natural numbers\<close>

lemma unat_less_length: "unat (a :: 'a::len word) < 2 ^ LENGTH('a)"
  by (rule unsigned_less)

lemma unat_ucast_id:
  fixes a :: "'a::len word"
  assumes "unat a < 2 ^ LENGTH('b::len)"
  shows "unat (ucast a :: 'b word) = unat a"
  using assms by (simp add: unsigned_ucast_eq take_bit_nat_eq_self)

lemma unat_ucast_up [simp]:
  fixes a :: "'a::len word"
  assumes "LENGTH('a) \<le> LENGTH('b::len)"
  shows "unat (ucast a :: 'b word) = unat a"
proof (rule unat_ucast_id)
  have "unat a < 2 ^ LENGTH('a)" by (rule unat_less_length)
  also have "\<dots> \<le> 2 ^ LENGTH('b)" using assms by simp
  finally show "unat a < 2 ^ LENGTH('b)" .
qed

lemma xor_eq_0_iff: "x XOR y = 0 \<longleftrightarrow> x = (y :: 'a::len word)"
proof
  assume "x XOR y = 0"
  then have "x XOR (y XOR y) = y" by (simp only: xor.assoc [symmetric] xor.left_neutral)
  then show "x = y" by simp
qed simp

lemma unat_add_no_wrap [word_nat]:
  fixes a b :: "'a::len word"
  shows "unat a + unat b < 2 ^ LENGTH('a) \<Longrightarrow> unat (a + b) = unat a + unat b"
  by (simp add: unat_word_ariths)

lemma unat_mult_no_wrap [word_nat]:
  fixes a b :: "'a::len word"
  shows "unat a * unat b < 2 ^ LENGTH('a) \<Longrightarrow> unat (a * b) = unat a * unat b"
  by (simp add: unat_word_ariths)

lemma unat_sub_no_wrap [word_nat]:
  fixes a b :: "'a::len word"
  shows "b \<le> a \<Longrightarrow> unat (a - b) = unat a - unat b"
  by (rule unat_sub)

lemma unat_div_word [word_nat]:
  fixes a b :: "'a::len word"
  shows "unat (a div b) = unat a div unat b"
  by (rule unat_div)

lemma unat_mod_word [word_nat]:
  fixes a b :: "'a::len word"
  shows "unat (a mod b) = unat a mod unat b"
  by (rule unat_mod)

lemma checked_add_SomeD:
  fixes a b c :: "'a::len word"
  assumes "checked_add a b = Some c"
  shows "c = a + b" "unat c = unat a + unat b"
  using assms by (auto simp: checked_add_def word_nat split: if_splits)

lemma checked_sub_SomeD:
  fixes a b c :: "'a::len word"
  assumes "checked_sub a b = Some c"
  shows "b \<le> a" "c = a - b" "unat c = unat a - unat b"
  using assms by (auto simp: checked_sub_def word_nat split: if_splits)

lemma checked_mul_SomeD:
  fixes a b c :: "'a::len word"
  assumes "checked_mul a b = Some c"
  shows "c = a * b" "unat c = unat a * unat b"
  using assms by (auto simp: checked_mul_def word_nat split: if_splits)

lemma unat_saturating_add:
  fixes a b :: "'a::len word"
  shows "unat (saturating_add a b) = min (2 ^ LENGTH('a) - 1) (unat a + unat b)"
  by (auto simp: saturating_add_def checked_add_def word_nat unsigned_minus_1_eq_mask mask_eq_exp_minus_1)

lemma unat_saturating_sub:
  fixes a b :: "'a::len word"
  shows "unat (saturating_sub a b) = unat a - unat b"
  by (auto simp: saturating_sub_def word_nat word_le_nat_alt)

lemma unat_saturating_mul:
  fixes a b :: "'a::len word"
  shows "unat (saturating_mul a b) = min (2 ^ LENGTH('a) - 1) (unat a * unat b)"
  by (auto simp: saturating_mul_def checked_mul_def word_nat unsigned_minus_1_eq_mask mask_eq_exp_minus_1)

lemma unat_min_word: "unat (min a b) = min (unat a) (unat (b :: 'a::len word))"
  by (simp add: min_def word_le_nat_alt)

lemma ceil_div_nat:
  assumes "0 < (b::nat)"
  shows "(a + b - 1) div b = a div b + (if 0 < a mod b then 1 else 0)"
proof -
  define q r where "q = a div b" and "r = a mod b"
  have a: "a = q * b + r" and r: "r < b"
    using assms by (simp_all add: q_def r_def)
  have "(a + b - 1) div b = (r + b - 1 + q * b) div b"
    using assms by (simp add: a algebra_simps)
  also have "\<dots> = (r + b - 1) div b + q"
    using assms div_mult_self1 [of b "r + b - 1" q] by (simp add: mult.commute)
  also have "(r + b - 1) div b = (if 0 < r then 1 else 0)"
  proof (cases "0 < r")
    case True
    have "r + b - 1 = (r - 1) + b" using True by simp
    then have "(r + b - 1) div b = (r - 1) div b + 1"
      using assms by (metis div_add_self2 not_gr_zero)
    then show ?thesis using True r by simp
  qed (use assms in simp)
  finally show ?thesis by (simp add: q_def r_def)
qed

lemma unat_div_ceil:
  fixes a b :: "'a::len word"
  assumes "b \<noteq> 0"
  shows "unat (div_ceil a b) = (unat a + unat b - 1) div unat b"
proof -
  have b: "0 < unat b" using assms by (simp add: unat_gt_0)
  show ?thesis
  proof (cases "0 < a mod b")
    case True
    then have r: "0 < unat a mod unat b"
      by (simp add: word_less_nat_alt word_nat)
    then have "0 < unat a"
      by (auto intro: ccontr)
    moreover from r have "1 < unat b"
      by (cases "unat b = 1") (use b in auto)
    ultimately have "unat a div unat b + 1 \<le> unat a"
      by (simp add: Suc_le_eq)
    then have "unat (a div b) + unat (1 :: 'a word) < 2 ^ LENGTH('a)"
      using le_less_trans [OF _ unat_less_length [of a]] by (simp add: word_nat)
    then have "unat (a div b + 1) = unat a div unat b + 1"
      by (simp add: word_nat)
    then show ?thesis
      using True r ceil_div_nat [OF b] by (simp add: div_ceil_def Let_def)
  next
    case False
    then have "unat a mod unat b = 0"
      by (simp add: word_less_nat_alt word_nat)
    then show ?thesis
      using False ceil_div_nat [OF b] by (simp add: div_ceil_def Let_def word_nat)
  qed
qed

end
