(* ===== verification/Match_Types.thy ===== *)
theory Match_Types
  imports Arena_Prelude
begin

text \<open>
  The moves of the game (\<^verbatim>\<open>Move\<close> of \<^verbatim>\<open>strategy.rs\<close>) and the payoff matrix (\<^verbatim>\<open>payoff\<close> of
  \<^verbatim>\<open>lib.rs\<close> of the \<^verbatim>\<open>match-logic\<close> crate), with the facts that make the matrix a Prisoner's Dilemma.
\<close>

datatype Move = Cooperate | Defect

text \<open>\<open>payoff(a, b)\<close> is the pair of the scores of the two players.\<close>

fun payoff :: "Move \<Rightarrow> Move \<Rightarrow> u8 \<times> u8" where
  "payoff Cooperate Cooperate = (3, 3)"
| "payoff Cooperate Defect = (0, 5)"
| "payoff Defect Cooperate = (5, 0)"
| "payoff Defect Defect = (1, 1)"

text \<open>The two scores of a round swap with the players, so no seat is favoured.\<close>

lemma payoff_symmetric: "payoff b a = prod.swap (payoff a b)"
  by (cases a; cases b) simp_all

lemma payoff_le_5: "unat (fst (payoff a b)) \<le> 5" "unat (snd (payoff a b)) \<le> 5"
  by (cases a; cases b; simp)+

lemma payoff_sum_bounds:
  "2 \<le> unat (fst (payoff a b)) + unat (snd (payoff a b))"
  "unat (fst (payoff a b)) + unat (snd (payoff a b)) \<le> 6"
  by (cases a; cases b; simp)+

lemma payoff_ge_3_iff: "3 \<le> fst (payoff a b) \<longleftrightarrow> b = Cooperate"
  by (cases a; cases b) (simp_all add: word_le_nat_alt)

text \<open>Defecting dominates round by round, and mutual cooperation beats mutual defection.\<close>

lemma payoff_dilemma:
  "fst (payoff Cooperate b) < fst (payoff Defect b)"
  "fst (payoff Defect Defect) < fst (payoff Cooperate Cooperate)"
  by (cases b; simp)+

lemma not_Cooperate_iff [simp]: "m \<noteq> Cooperate \<longleftrightarrow> m = Defect"
  by (cases m) simp_all

lemma not_Defect_iff [simp]: "m \<noteq> Defect \<longleftrightarrow> m = Cooperate"
  by (cases m) simp_all

end
