(* ===== verification/Vm_Machine.thy ===== *)
theory Vm_Machine
  imports Vm
begin

text \<open>
  An abstract machine for the bytecode of \<^verbatim>\<open>vm.rs\<close>: decoded instructions, the rest of the program
  instead of a program counter, a list as the stack and no fuel. The interpreter of theory
  \<open>Vm\<close> is shown to simulate it, and the validator is characterised by disassembly.
\<close>

section \<open>Bounded stacks\<close>

text \<open>What the interpreter relies on: a stack that fails on overflow and on underflow.\<close>

locale bounded_stack =
  fixes cap :: nat
    and psh :: "'s \<Rightarrow> 'v \<Rightarrow> 's option"
    and pp :: "'s \<Rightarrow> ('v \<times> 's) option"
    and elems :: "'s \<Rightarrow> 'v list"
    and invar :: "'s \<Rightarrow> bool"
  assumes elems_cap: "invar s \<Longrightarrow> length (elems s) \<le> cap"
    and psh_full: "invar s \<Longrightarrow> psh s v = None \<longleftrightarrow> length (elems s) = cap"
    and psh_Some: "invar s \<Longrightarrow> psh s v = Some s' \<Longrightarrow> invar s' \<and> elems s' = v # elems s"
    and pp_empty: "invar s \<Longrightarrow> pp s = None \<longleftrightarrow> elems s = []"
    and pp_Some: "invar s \<Longrightarrow> pp s = Some (v, s') \<Longrightarrow> invar s' \<and> elems s = v # elems s'"
begin

lemma psh_room:
  assumes "invar s" "length (elems s) < cap"
  obtains s' where "psh s v = Some s'" "invar s'" "elems s' = v # elems s"
proof (cases "psh s v")
  case None
  with assms psh_full [of s v] show ?thesis by simp
next
  case (Some s')
  with psh_Some [OF assms(1) Some] show ?thesis by (intro that [of s']) simp_all
qed

lemma psh_no_room: "invar s \<Longrightarrow> \<not> length (elems s) < cap \<Longrightarrow> psh s v = None"
  using elems_cap [of s] psh_full [of s v] by simp

lemma pp_Cons:
  assumes "invar s" "elems s = v # vs"
  obtains s' where "pp s = Some (v, s')" "invar s'" "elems s' = vs"
proof (cases "pp s")
  case None
  with assms pp_empty [of s] show ?thesis by simp
next
  case (Some r)
  then obtain w s' where r: "pp s = Some (w, s')" by (cases r) simp
  with pp_Some [OF assms(1) r] assms(2) show ?thesis by (intro that [of s']) simp_all
qed

lemma pp_Nil: "invar s \<Longrightarrow> elems s = [] \<Longrightarrow> pp s = None"
  by (simp add: pp_empty)

text \<open>Replacing the top, and replacing the two topmost values by one, never overflow.\<close>

lemma pp_psh:
  assumes "invar s" "elems s = a # vs"
  obtains s' where "do { (a, s) \<leftarrow> pp s; psh s (f a) } = Some s'" "invar s'" "elems s' = f a # vs"
proof -
  from assms obtain s1 where s1: "pp s = Some (a, s1)" "invar s1" "elems s1 = vs"
    by (rule pp_Cons)
  with assms elems_cap [of s] have "length (elems s1) < cap" by simp
  with s1(2) obtain s2 where "psh s1 (f a) = Some s2" "invar s2" "elems s2 = f a # elems s1"
    by (rule psh_room)
  with s1 show ?thesis by (intro that [of s2]) simp_all
qed

lemma pp_pp_psh:
  assumes "invar s" "elems s = b # a # vs"
  obtains s' where "do { (b, s) \<leftarrow> pp s; (a, s) \<leftarrow> pp s; psh s (f a b) } = Some s'"
    "invar s'" "elems s' = f a b # vs"
proof -
  from assms obtain s1 where s1: "pp s = Some (b, s1)" "invar s1" "elems s1 = a # vs"
    by (rule pp_Cons)
  from s1(2,3) obtain s2 where "do { (a, s) \<leftarrow> pp s1; psh s (f a b) } = Some s2"
    "invar s2" "elems s2 = f a b # vs"
    using pp_psh [of s1 a vs "\<lambda>a. f a b"] by blast
  with s1(1) show ?thesis by (intro that [of s2]) simp_all
qed

end

text \<open>The array and the stack pointer: the live slots, topmost first.\<close>

fun stack_elems :: "vm_stack \<Rightarrow> u8 list" where
  "stack_elems (stack, sp) = rev (take sp stack)"

fun stack_invar :: "vm_stack \<Rightarrow> bool" where
  "stack_invar (stack, sp) \<longleftrightarrow> length stack = STACK_SIZE \<and> sp \<le> STACK_SIZE"

interpretation array_stack: bounded_stack STACK_SIZE push pop stack_elems stack_invar
proof (unfold_locales, goal_cases)
  case (1 s) then show ?case by (cases s) auto
next
  case (2 s v) then show ?case by (cases s) auto
next
  case (3 s v s') then show ?case
    by (cases s) (auto simp: take_Suc_conv_app_nth split: if_splits)
next
  case (4 s) then show ?case by (cases s) (auto simp: STACK_SIZE_def)
next
  case (5 s v s') then show ?case
  proof (cases s)
    case (Pair a sp)
    with 5 show ?thesis
      by (cases sp) (auto simp: take_Suc_conv_app_nth split: if_splits)
  qed
qed

lemma empty_stack_invar [simp]: "stack_invar empty_stack" "stack_elems empty_stack = []"
  by (simp_all add: empty_stack_def)

section \<open>Instructions\<close>

datatype source = Opp_Last | My_Last | Opp_Defects | My_Defects | Round | Score_Last
datatype unop = Opp_N | My_N | Not
datatype binop = Add | Sub | Mul | Gt | Lt | Eq | And | Or

datatype instr =
    Terminal Move
  | Return
  | Push u8
  | Load source
  | Rand
  | Unary unop
  | Binary binop
  | Dup
  | Jump u8
  | Jump_If u8

definition plain_ops :: "(u8 \<times> instr) list" where
  "plain_ops =
     [(op_COOP, Terminal Cooperate), (op_DEFECT, Terminal Defect), (op_RETURN, Return),
      (op_OPP_LAST, Load Opp_Last), (op_MY_LAST, Load My_Last),
      (op_OPP_N, Unary Opp_N), (op_MY_N, Unary My_N),
      (op_OPP_DEFECTS, Load Opp_Defects), (op_MY_DEFECTS, Load My_Defects),
      (op_ROUND, Load Round), (op_RAND, Rand),
      (op_ADD, Binary Add), (op_SUB, Binary Sub), (op_MUL, Binary Mul),
      (op_GT, Binary Gt), (op_LT, Binary Lt), (op_EQ, Binary Eq),
      (op_NOT, Unary Not), (op_AND, Binary And), (op_OR, Binary Or),
      (op_DUP, Dup), (op_SCORE_LAST, Load Score_Last)]"

definition imm_ops :: "(u8 \<times> (u8 \<Rightarrow> instr)) list" where
  "imm_ops = [(op_PUSH, Push), (op_JMP_FWD, Jump), (op_JMP_FWD_IF, Jump_If)]"

text \<open>The first instruction of a byte sequence and the bytes after it.\<close>

fun decode :: "u8 list \<Rightarrow> (instr \<times> u8 list) option" where
  "decode [] = None"
| "decode (c # cs) =
     (case map_of plain_ops c of
        Some i \<Rightarrow> Some (i, cs)
      | None \<Rightarrow>
          (case map_of imm_ops c of
             None \<Rightarrow> None
           | Some f \<Rightarrow> (case cs of [] \<Rightarrow> None | imm # cs' \<Rightarrow> Some (f imm, cs'))))"

lemma decode_shorter: "decode cs = Some (i, rest) \<Longrightarrow> length rest < length cs"
  by (cases cs) (auto split: option.splits list.splits)

fun source_value :: "Move list \<Rightarrow> Move list \<Rightarrow> u8 \<Rightarrow> source \<Rightarrow> u8" where
  "source_value opp my round Opp_Last = move_to_u8 (last_opt opp)"
| "source_value opp my round My_Last = move_to_u8 (last_opt my)"
| "source_value opp my round Opp_Defects = count_defects opp"
| "source_value opp my round My_Defects = count_defects my"
| "source_value opp my round Round = round"
| "source_value opp my round Score_Last = score_last opp my"

fun unop_value :: "Move list \<Rightarrow> Move list \<Rightarrow> unop \<Rightarrow> u8 \<Rightarrow> u8" where
  "unop_value opp my Opp_N n = history_n_ago opp (unat n)"
| "unop_value opp my My_N n = history_n_ago my (unat n)"
| "unop_value opp my Not a = u8_from_bool (a = 0)"

fun binop_value :: "binop \<Rightarrow> u8 \<Rightarrow> u8 \<Rightarrow> u8" where
  "binop_value Add a b = saturating_add a b"
| "binop_value Sub a b = saturating_sub a b"
| "binop_value Mul a b = saturating_mul a b"
| "binop_value Gt a b = u8_from_bool (a > b)"
| "binop_value Lt a b = u8_from_bool (a < b)"
| "binop_value Eq a b = u8_from_bool (a = b)"
| "binop_value And a b = u8_from_bool (a \<noteq> 0 \<and> b \<noteq> 0)"
| "binop_value Or a b = u8_from_bool (a \<noteq> 0 \<or> b \<noteq> 0)"

section \<open>The abstract machine\<close>

text \<open>One instruction: halt with a result, or go on with the rest of the program.\<close>

datatype step_result = Halt "Move option" SeededRng | Go "u8 list" "u8 list" SeededRng

definition go_push :: "u8 list \<Rightarrow> u8 \<Rightarrow> u8 list \<Rightarrow> SeededRng \<Rightarrow> step_result" where
  "go_push rest v stk rng = (if length stk < STACK_SIZE then Go rest (v # stk) rng else Halt None rng)"

fun abs_step ::
  "Move list \<Rightarrow> Move list \<Rightarrow> u8 \<Rightarrow> instr \<Rightarrow> u8 list \<Rightarrow> u8 list \<Rightarrow> SeededRng \<Rightarrow> step_result" where
  "abs_step opp my round (Terminal m) rest stk rng = Halt (Some m) rng"
| "abs_step opp my round Return rest stk rng =
     (case stk of [] \<Rightarrow> Halt None rng | v # _ \<Rightarrow> Halt (Some (if v = 0 then Cooperate else Defect)) rng)"
| "abs_step opp my round (Push v) rest stk rng = go_push rest v stk rng"
| "abs_step opp my round (Load s) rest stk rng = go_push rest (source_value opp my round s) stk rng"
| "abs_step opp my round Rand rest stk rng = (let (v, rng') = next_percent rng in go_push rest v stk rng')"
| "abs_step opp my round (Unary f) rest stk rng =
     (case stk of a # vs \<Rightarrow> Go rest (unop_value opp my f a # vs) rng | _ \<Rightarrow> Halt None rng)"
| "abs_step opp my round (Binary f) rest stk rng =
     (case stk of b # a # vs \<Rightarrow> Go rest (binop_value f a b # vs) rng | _ \<Rightarrow> Halt None rng)"
| "abs_step opp my round Dup rest stk rng =
     (case stk of a # vs \<Rightarrow> go_push rest a stk rng | _ \<Rightarrow> Halt None rng)"
| "abs_step opp my round (Jump off) rest stk rng = Go (drop (unat off) rest) stk rng"
| "abs_step opp my round (Jump_If off) rest stk rng =
     (case stk of
        c # vs \<Rightarrow> Go (if c \<noteq> 0 then drop (unat off) rest else rest) vs rng
      | _ \<Rightarrow> Halt None rng)"

lemma abs_step_shorter:
  "abs_step opp my round i rest stk rng = Go rest' stk' rng' \<Longrightarrow> length rest' \<le> length rest"
  by (cases i) (auto simp: go_push_def split: list.splits if_splits prod.splits)

text \<open>
  Execution without fuel: jumps only go forward, so the rest of the program shrinks with every
  instruction.
\<close>

function run_code ::
  "Move list \<Rightarrow> Move list \<Rightarrow> u8 \<Rightarrow> u8 list \<Rightarrow> u8 list \<Rightarrow> SeededRng \<Rightarrow> Move option \<times> SeededRng" where
  "run_code opp my round code stk rng =
     (case decode code of
        None \<Rightarrow> (None, rng)
      | Some (i, rest) \<Rightarrow>
          (case abs_step opp my round i rest stk rng of
             Halt m rng' \<Rightarrow> (m, rng')
           | Go rest' stk' rng' \<Rightarrow> run_code opp my round rest' stk' rng'))"
  by pat_completeness auto
termination
  by (relation "measure (\<lambda>(_, _, _, code, _, _). length code)")
    (auto dest!: decode_shorter abs_step_shorter)

declare run_code.simps [simp del]

end
