(* ===== verification/Vm_Refine.thy ===== *)
theory Vm_Refine
  imports Vm_Machine
begin

text \<open>
  The interpreter of \<^verbatim>\<open>vm.rs\<close> refines the abstract machine: step by step (\<open>vm_dispatch_sim\<close>), and
  for whole runs as long as the program has at most \<open>MAX_FUEL\<close> bytes.
\<close>

section \<open>One instruction\<close>

fun sim_result :: "u8 list \<Rightarrow> vm_outcome \<Rightarrow> step_result \<Rightarrow> bool" where
  "sim_result code (Done m rng) r \<longleftrightarrow> r = Halt m rng"
| "sim_result code (Continue st) r \<longleftrightarrow>
     stack_invar (vm_stack st) \<and>
     r = Go (drop (vm_pc st) code) (stack_elems (vm_stack st)) (vm_rng st)"

named_theorems vm_sims "simulation of one group of instructions"

lemma push_next_sim [vm_sims]:
  assumes "stack_invar (vm_stack st)" "rng = vm_rng st"
  shows "sim_result code (or_fail rng (push_next st v n))
           (go_push (drop (vm_pc st + n) code) v (stack_elems (vm_stack st)) rng)"
proof (cases "length (stack_elems (vm_stack st)) < STACK_SIZE")
  case True
  with assms(1) obtain s where "push (vm_stack st) v = Some s" "stack_invar s"
    "stack_elems s = v # stack_elems (vm_stack st)"
    by (rule array_stack.psh_room)
  with True assms(2) show ?thesis
    by (simp add: push_next_def or_fail_def go_push_def)
next
  case False
  with assms show ?thesis
    by (simp add: push_next_def or_fail_def go_push_def array_stack.psh_no_room)
qed

lemma unary_next_sim [vm_sims]:
  assumes "stack_invar (vm_stack st)" "rng = vm_rng st"
  shows "sim_result code (or_fail rng (unary_next st f))
           (case stack_elems (vm_stack st) of
              a # vs \<Rightarrow> Go (drop (Suc (vm_pc st)) code) (f a # vs) rng
            | _ \<Rightarrow> Halt None rng)"
proof (cases "stack_elems (vm_stack st)")
  case Nil
  with assms show ?thesis by (simp add: unary_next_def or_fail_def array_stack.pp_Nil)
next
  case (Cons a vs)
  from assms(1) Cons obtain s where
    "do { (a, s) \<leftarrow> pop (vm_stack st); push s (f a) } = Some s" "stack_invar s" "stack_elems s = f a # vs"
    by (rule array_stack.pp_psh)
  with Cons assms(2) show ?thesis
    by (auto simp: unary_next_def or_fail_def bind_eq_Some_conv split: bind_splits)
qed

lemma binary_next_sim [vm_sims]:
  assumes "stack_invar (vm_stack st)" "rng = vm_rng st"
  shows "sim_result code (or_fail rng (binary_next st f))
           (case stack_elems (vm_stack st) of
              b # a # vs \<Rightarrow> Go (drop (Suc (vm_pc st)) code) (f a b # vs) rng
            | _ \<Rightarrow> Halt None rng)"
proof (cases "stack_elems (vm_stack st)")
  case Nil
  with assms show ?thesis by (simp add: binary_next_def or_fail_def array_stack.pp_Nil)
next
  case b: (Cons b us)
  from assms(1) b obtain s1 where s1: "pop (vm_stack st) = Some (b, s1)" "stack_invar s1" "stack_elems s1 = us"
    by (rule array_stack.pp_Cons)
  show ?thesis
  proof (cases us)
    case Nil
    with s1 b assms(2) show ?thesis by (simp add: binary_next_def or_fail_def array_stack.pp_Nil)
  next
    case (Cons a vs)
    with b have "stack_elems (vm_stack st) = b # a # vs" by simp
    with assms(1) obtain s where
      "do { (b, s) \<leftarrow> pop (vm_stack st); (a, s) \<leftarrow> pop s; push s (f a b) } = Some s"
      "stack_invar s" "stack_elems s = f a b # vs"
      by (rule array_stack.pp_pp_psh)
    with Cons b assms(2) show ?thesis
      by (auto simp: binary_next_def or_fail_def bind_eq_Some_conv split: bind_splits)
  qed
qed

lemma dup_sim [vm_sims]:
  assumes "stack_invar (vm_stack st)" "rng = vm_rng st"
  shows "sim_result code
           (or_fail rng
              (do { (a, stk) \<leftarrow> pop (vm_stack st);
                    stk \<leftarrow> push stk a;
                    stk \<leftarrow> push stk a;
                    Some (st\<lparr>vm_stack := stk, vm_pc := vm_pc st + 1\<rparr>) }))
           (case stack_elems (vm_stack st) of
              a # vs \<Rightarrow> go_push (drop (Suc (vm_pc st)) code) a (stack_elems (vm_stack st)) rng
            | _ \<Rightarrow> Halt None rng)"
proof (cases "stack_elems (vm_stack st)")
  case Nil
  with assms show ?thesis by (simp add: or_fail_def array_stack.pp_Nil)
next
  case (Cons a vs)
  from assms(1) Cons obtain s1 where s1: "pop (vm_stack st) = Some (a, s1)" "stack_invar s1" "stack_elems s1 = vs"
    by (rule array_stack.pp_Cons)
  with Cons array_stack.elems_cap [OF assms(1)] have "length (stack_elems s1) < STACK_SIZE" by simp
  with s1(2) obtain s2 where s2: "push s1 a = Some s2" "stack_invar s2" "stack_elems s2 = a # stack_elems s1"
    by (rule array_stack.psh_room)
  with push_next_sim [of "st\<lparr>vm_stack := s2\<rparr>" rng code a 1] Cons s1 assms(2) show ?thesis
    by (simp add: push_next_def)
qed

lemma jump_if_sim [vm_sims]:
  assumes "stack_invar (vm_stack st)" "rng = vm_rng st"
  shows "sim_result code
           (or_fail rng
              (do { (cond, stk) \<leftarrow> pop (vm_stack st);
                    Some (st\<lparr>vm_stack := stk,
                             vm_pc := (if cond \<noteq> 0 then vm_pc st + 2 + off else vm_pc st + 2)\<rparr>) }))
           (case stack_elems (vm_stack st) of
              c # vs \<Rightarrow> Go (if c \<noteq> 0 then drop off (drop (Suc (Suc (vm_pc st))) code) else drop (Suc (Suc (vm_pc st))) code) vs rng
            | _ \<Rightarrow> Halt None rng)"
proof (cases "stack_elems (vm_stack st)")
  case Nil
  with assms show ?thesis by (simp add: or_fail_def array_stack.pp_Nil)
next
  case (Cons c vs)
  from assms(1) Cons obtain s1 where "pop (vm_stack st) = Some (c, s1)" "stack_invar s1" "stack_elems s1 = vs"
    by (rule array_stack.pp_Cons)
  with Cons assms(2) show ?thesis by (simp add: or_fail_def add.commute)
qed

lemma return_sim [vm_sims]:
  assumes "stack_invar (vm_stack st)" "rng = vm_rng st"
  shows "sim_result code
           (case pop (vm_stack st) of
              None \<Rightarrow> Done None rng
            | Some (v, _) \<Rightarrow> Done (Some (if v = 0 then Cooperate else Defect)) rng)
           (case stack_elems (vm_stack st) of
              [] \<Rightarrow> Halt None rng
            | v # _ \<Rightarrow> Halt (Some (if v = 0 then Cooperate else Defect)) rng)"
proof (cases "stack_elems (vm_stack st)")
  case Nil
  with assms show ?thesis by (simp add: array_stack.pp_Nil)
next
  case (Cons c vs)
  from assms(1) Cons obtain s1 where "pop (vm_stack st) = Some (c, s1)"
    by (rule array_stack.pp_Cons)
  with Cons show ?thesis by simp
qed

text \<open>Without a following byte, the instructions with an immediate operand fail.\<close>

lemma vm_dispatch_truncated:
  assumes "map_of imm_ops (code ! vm_pc st) = Some f" "\<not> vm_pc st + 1 < length code"
  shows "vm_dispatch code opp my round st = Done None (vm_rng st)"
  using assms
  by (auto simp: imm_ops_def vm_dispatch_def Let_def nth_opt_def or_fail_def
      split: if_splits bind_splits)

lemma vm_dispatch_unknown:
  assumes "map_of plain_ops (code ! vm_pc st) = None" "map_of imm_ops (code ! vm_pc st) = None"
  shows "vm_dispatch code opp my round st = Done None (vm_rng st)"
proof -
  have "code ! vm_pc st \<notin> fst ` set plain_ops" "code ! vm_pc st \<notin> fst ` set imm_ops"
    using assms by (simp_all add: map_of_eq_None_iff)
  then show ?thesis
    by (simp add: vm_dispatch_def Let_def plain_ops_def imm_ops_def)
qed

lemma rand_sim [vm_sims]:
  assumes "stack_invar (vm_stack st)"
  shows "sim_result code
           (let (v, rng') = next_percent rng in or_fail rng' (push_next (st\<lparr>vm_rng := rng'\<rparr>) v 1))
           (let (v, rng') = next_percent rng
            in go_push (drop (Suc (vm_pc st)) code) v (stack_elems (vm_stack st)) rng')"
proof (cases "next_percent rng")
  case (Pair v rng')
  with assms push_next_sim [of "st\<lparr>vm_rng := rng'\<rparr>" rng' code v 1] show ?thesis by simp
qed

text \<open>The value functions of the abstract machine, in the form the dispatch writes them.\<close>

lemma unop_value_eta:
  "unop_value opp my Opp_N = (\<lambda>n. history_n_ago opp (unat n))"
  "unop_value opp my My_N = (\<lambda>n. history_n_ago my (unat n))"
  "unop_value opp my Not = (\<lambda>a. u8_from_bool (a = 0))"
  by (simp_all add: fun_eq_iff)

lemma binop_value_eta:
  "binop_value Add = saturating_add"
  "binop_value Sub = saturating_sub"
  "binop_value Mul = saturating_mul"
  "binop_value Gt = (\<lambda>a b. u8_from_bool (a > b))"
  "binop_value Lt = (\<lambda>a b. u8_from_bool (a < b))"
  "binop_value Eq = (\<lambda>a b. u8_from_bool (a = b))"
  "binop_value And = (\<lambda>a b. u8_from_bool (a \<noteq> 0 \<and> b \<noteq> 0))"
  "binop_value Or = (\<lambda>a b. u8_from_bool (a \<noteq> 0 \<or> b \<noteq> 0))"
  by (simp_all add: fun_eq_iff)

lemma vm_dispatch_plain:
  assumes inv: "stack_invar (vm_stack st)" and op: "map_of plain_ops (code ! vm_pc st) = Some i"
  shows "sim_result code (vm_dispatch code opp my round st)
           (abs_step opp my round i (drop (vm_pc st + 1) code) (stack_elems (vm_stack st)) (vm_rng st))"
proof -
  from op have mem: "(code ! vm_pc st, i) \<in> set plain_ops" by (rule map_of_SomeD)
  note defs = plain_ops_def vm_dispatch_def Let_def
  show ?thesis
  proof (cases i)
    case (Terminal m)
    with mem show ?thesis by (auto simp: defs)
  next
    case Return
    with mem return_sim [OF inv refl, of code] show ?thesis by (auto simp: defs)
  next
    case (Load s)
    with mem push_next_sim [OF inv refl, of code "source_value opp my round s" 1]
    show ?thesis by (auto simp: defs)
  next
    case Rand
    with mem rand_sim [OF inv, of code "vm_rng st"] show ?thesis by (auto simp: defs)
  next
    case (Unary f)
    with mem unary_next_sim [OF inv refl, of code "unop_value opp my f"]
    show ?thesis by (auto simp: defs unop_value_eta)
  next
    case (Binary f)
    with mem binary_next_sim [OF inv refl, of code "binop_value f"]
    show ?thesis by (auto simp: defs binop_value_eta)
  next
    case Dup
    with mem dup_sim [OF inv refl, of code] show ?thesis by (auto simp: defs)
  qed (use mem in \<open>auto simp: plain_ops_def\<close>)
qed

lemma vm_dispatch_imm:
  assumes inv: "stack_invar (vm_stack st)" and op: "map_of imm_ops (code ! vm_pc st) = Some f"
    and len: "vm_pc st + 1 < length code"
  shows "sim_result code (vm_dispatch code opp my round st)
           (abs_step opp my round (f (code ! (vm_pc st + 1))) (drop (vm_pc st + 2) code)
              (stack_elems (vm_stack st)) (vm_rng st))"
proof -
  let ?imm = "code ! Suc (vm_pc st)"
  from op have "(code ! vm_pc st, f) \<in> set imm_ops" by (rule map_of_SomeD)
  then consider (push) "code ! vm_pc st = op_PUSH" "f = Push"
    | (jump) "code ! vm_pc st = op_JMP_FWD" "f = Jump"
    | (jump_if) "code ! vm_pc st = op_JMP_FWD_IF" "f = Jump_If"
    by (auto simp: imm_ops_def)
  then show ?thesis
  proof cases
    case push
    with len push_next_sim [OF inv refl, of code ?imm 2] show ?thesis
      by (simp add: vm_dispatch_def Let_def nth_opt_def)
  next
    case jump
    with len have "vm_dispatch code opp my round st = Continue (st\<lparr>vm_pc := vm_pc st + 2 + unat ?imm\<rparr>)"
      by (simp add: vm_dispatch_def Let_def nth_opt_def or_fail_def)
    with jump inv show ?thesis by (simp add: add.commute)
  next
    case jump_if
    with len jump_if_sim [OF inv refl, of code "unat ?imm"] show ?thesis
      by (simp add: vm_dispatch_def Let_def nth_opt_def)
  qed
qed

definition abs_next ::
  "Move list \<Rightarrow> Move list \<Rightarrow> u8 \<Rightarrow> u8 list \<Rightarrow> u8 list \<Rightarrow> SeededRng \<Rightarrow> step_result" where
  "abs_next opp my round code stk rng =
     (case decode code of
        None \<Rightarrow> Halt None rng
      | Some (i, rest) \<Rightarrow> abs_step opp my round i rest stk rng)"

lemma vm_dispatch_sim:
  assumes "stack_invar (vm_stack st)" "vm_pc st < length code"
  shows "sim_result code (vm_dispatch code opp my round st)
           (abs_next opp my round (drop (vm_pc st) code) (stack_elems (vm_stack st)) (vm_rng st))"
proof -
  have d: "drop (vm_pc st) code = code ! vm_pc st # drop (vm_pc st + 1) code"
    using assms(2) by (simp add: Cons_nth_drop_Suc)
  show ?thesis
  proof (cases "map_of plain_ops (code ! vm_pc st)")
    case (Some i)
    with d vm_dispatch_plain [OF assms(1) Some] show ?thesis by (simp add: abs_next_def)
  next
    case plain: None
    show ?thesis
    proof (cases "map_of imm_ops (code ! vm_pc st)")
      case None
      with plain d show ?thesis by (simp add: abs_next_def vm_dispatch_unknown)
    next
      case (Some f)
      show ?thesis
      proof (cases "vm_pc st + 1 < length code")
        case True
        then have "drop (vm_pc st + 1) code = code ! (vm_pc st + 1) # drop (vm_pc st + 2) code"
          by (simp add: Cons_nth_drop_Suc)
        with plain Some d vm_dispatch_imm [OF assms(1) Some True] show ?thesis
          by (simp add: abs_next_def)
      next
        case False
        with plain Some d vm_dispatch_truncated [OF Some False] show ?thesis
          by (simp add: abs_next_def)
      qed
    qed
  qed
qed

section \<open>Whole runs\<close>

lemma run_code_abs_next:
  "run_code opp my round code stk rng =
     (case abs_next opp my round code stk rng of
        Halt m rng' \<Rightarrow> (m, rng')
      | Go rest' stk' rng' \<Rightarrow> run_code opp my round rest' stk' rng')"
  by (simp add: run_code.simps [of opp my round code] abs_next_def split: option.split prod.split)

lemma abs_next_shorter:
  "abs_next opp my round code stk rng = Go rest' stk' rng' \<Longrightarrow> length rest' < length code"
  by (auto simp: abs_next_def split: option.splits dest!: decode_shorter abs_step_shorter)

text \<open>
  Every instruction consumes at least one byte, so the fuel is enough whenever it covers the
  bytes that are left; then the interpreter computes what the abstract machine does.
\<close>

lemma vm_loop_run_code:
  assumes "stack_invar (vm_stack st)" "fuel + length (drop (vm_pc st) code) \<le> MAX_FUEL"
  shows "vm_loop code opp my round fuel st =
           run_code opp my round (drop (vm_pc st) code) (stack_elems (vm_stack st)) (vm_rng st)"
  using assms
proof (induction "length (drop (vm_pc st) code)" arbitrary: fuel st rule: less_induct)
  case less
  let ?abs = "abs_next opp my round (drop (vm_pc st) code) (stack_elems (vm_stack st)) (vm_rng st)"
  show ?case
  proof (cases "vm_pc st < length code")
    case False
    then show ?thesis
      by (simp add: vm_loop.simps [of code] run_code.simps [of opp my round "[]"])
  next
    case True
    then have fuel: "\<not> MAX_FUEL < fuel + 1" using less.prems(2) by simp
    have sim: "sim_result code (vm_dispatch code opp my round st) ?abs"
      using less.prems(1) True by (rule vm_dispatch_sim)
    show ?thesis
    proof (cases "vm_dispatch code opp my round st")
      case (Done m rng)
      with sim True fuel show ?thesis
        by (simp add: vm_loop.simps [of code opp my round fuel st] run_code_abs_next [of opp my round "drop (vm_pc st) code"])
    next
      case (Continue st')
      with sim have st': "stack_invar (vm_stack st')"
        and abs: "?abs = Go (drop (vm_pc st') code) (stack_elems (vm_stack st')) (vm_rng st')"
        by simp_all
      from abs have shorter: "length (drop (vm_pc st') code) < length (drop (vm_pc st) code)"
        by (rule abs_next_shorter)
      with less.prems(2) have "fuel + 1 + length (drop (vm_pc st') code) \<le> MAX_FUEL" by linarith
      then have "vm_loop code opp my round (fuel + 1) st' =
          run_code opp my round (drop (vm_pc st') code) (stack_elems (vm_stack st')) (vm_rng st')"
        by (rule less.hyps [OF shorter st'])
      with Continue abs True fuel show ?thesis
        by (simp add: vm_loop.simps [of code opp my round fuel st] run_code_abs_next [of opp my round "drop (vm_pc st) code"])
    qed
  qed
qed

lemma execute_inner_run_code:
  "length code \<le> MAX_FUEL \<Longrightarrow>
   execute_inner code opp my round rng = run_code opp my round code [] rng"
  by (simp add: execute_inner_def vm_loop_run_code)

end
