(* ===== verification/Vm_Validate.thy ===== *)
theory Vm_Validate
  imports Vm_Refine
begin

text \<open>
  \<open>validate_bytecode\<close> of \<^verbatim>\<open>vm.rs\<close> against disassembly: a linear scan of the program into
  instructions with their offsets.
\<close>

section \<open>Disassembly\<close>

function disassemble :: "nat \<Rightarrow> u8 list \<Rightarrow> (nat \<times> instr) list option" where
  "disassemble pc [] = Some []"
| "disassemble pc (c # cs) =
     (case decode (c # cs) of
        None \<Rightarrow> None
      | Some (i, rest) \<Rightarrow>
          map_option ((#) (pc, i)) (disassemble (pc + (length (c # cs) - length rest)) rest))"
  by pat_completeness auto
termination
  by (relation "measure (\<lambda>(_, cs). length cs)") (auto dest: decode_shorter simp del: decode.simps)

fun instr_bytes :: "instr \<Rightarrow> u8 list" where
  "instr_bytes (Push v) = [op_PUSH, v]"
| "instr_bytes (Jump off) = [op_JMP_FWD, off]"
| "instr_bytes (Jump_If off) = [op_JMP_FWD_IF, off]"
| "instr_bytes i = [fst (hd (filter (\<lambda>(_, j). j = i) plain_ops))]"

fun jump_ok :: "nat \<Rightarrow> nat \<times> instr \<Rightarrow> bool" where
  "jump_ok n (pc, Jump off) \<longleftrightarrow> pc + 2 + unat off \<le> n"
| "jump_ok n (pc, Jump_If off) \<longleftrightarrow> pc + 2 + unat off \<le> n"
| "jump_ok n (pc, _) \<longleftrightarrow> True"

fun is_terminal :: "instr \<Rightarrow> bool" where
  "is_terminal (Terminal m) \<longleftrightarrow> True"
| "is_terminal Return \<longleftrightarrow> True"
| "is_terminal _ \<longleftrightarrow> False"

lemma decode_instr_bytes: "decode (instr_bytes i @ rest) = Some (i, rest)"
proof (cases i)
  case (Terminal m) then show ?thesis by (cases m) (simp_all add: plain_ops_def)
next
  case (Load s) then show ?thesis by (cases s) (simp_all add: plain_ops_def)
next
  case (Unary f) then show ?thesis by (cases f) (simp_all add: plain_ops_def)
next
  case (Binary f) then show ?thesis by (cases f) (simp_all add: plain_ops_def)
qed (simp_all add: plain_ops_def imm_ops_def)

lemma decode_Some_bytes:
  assumes "decode cs = Some (i, rest)"
  shows "cs = instr_bytes i @ rest"
proof (cases cs)
  case Nil
  with assms show ?thesis by simp
next
  case (Cons c cs')
  show ?thesis
  proof (cases "map_of plain_ops c")
    case (Some j)
    then have "(c, j) \<in> set plain_ops" by (rule map_of_SomeD)
    moreover from Some Cons assms have "j = i" "rest = cs'" by simp_all
    ultimately show ?thesis using Cons by (auto simp: plain_ops_def)
  next
    case None
    with Cons assms obtain f imm where f: "map_of imm_ops c = Some f" "cs' = imm # rest" "i = f imm"
      by (auto split: option.splits list.splits)
    from f(1) have "(c, f) \<in> set imm_ops" by (rule map_of_SomeD)
    with f Cons show ?thesis by (auto simp: imm_ops_def)
  qed
qed

section \<open>The validator scans instruction by instruction\<close>

definition bad_instr :: "nat \<Rightarrow> u8 \<Rightarrow> BytecodeError" where
  "bad_instr pc c =
     (if c \<in> fst ` set imm_ops then TruncatedImmediate pc else UnknownOpcode pc c)"

lemma validate_loop_step:
  assumes "pc < length code"
  shows "validate_loop code pc ht =
     (case decode (drop pc code) of
        None \<Rightarrow> Inl (bad_instr pc (code ! pc))
      | Some (i, rest) \<Rightarrow>
          if jump_ok (length code) (pc, i)
          then validate_loop code (pc + length (instr_bytes i)) (ht \<or> is_terminal i)
          else Inl (JumpOutOfBounds pc))"
proof -
  have d: "drop pc code = code ! pc # drop (Suc pc) code"
    using assms by (simp add: Cons_nth_drop_Suc)
  note unfold = validate_loop.simps [of code pc ht] Let_def
  show ?thesis
  proof (cases "map_of plain_ops (code ! pc)")
    case (Some i)
    then have "(code ! pc, i) \<in> set plain_ops" by (rule map_of_SomeD)
    with assms d show ?thesis
      by (auto simp: unfold plain_ops_def one_byte_ops_def)
  next
    case plain: None
    show ?thesis
    proof (cases "map_of imm_ops (code ! pc)")
      case None
      with plain have "code ! pc \<notin> fst ` set plain_ops" "code ! pc \<notin> fst ` set imm_ops"
        by (simp_all add: map_of_eq_None_iff)
      with assms d plain None show ?thesis
        by (simp add: unfold plain_ops_def imm_ops_def one_byte_ops_def bad_instr_def)
    next
      case (Some f)
      then have f: "(code ! pc, f) \<in> set imm_ops" by (rule map_of_SomeD)
      show ?thesis
      proof (cases "Suc pc < length code")
        case True
        then have d2: "drop (Suc pc) code = code ! Suc pc # drop (Suc (Suc pc)) code"
          by (simp add: Cons_nth_drop_Suc)
        with assms d True plain Some f show ?thesis
          by (auto simp: unfold imm_ops_def)
      next
        case False
        with assms d plain Some f show ?thesis
          by (auto simp: unfold imm_ops_def bad_instr_def)
      qed
    qed
  qed
qed

lemma disassemble_step:
  assumes "pc < length code"
  shows "disassemble pc (drop pc code) =
     (case decode (drop pc code) of
        None \<Rightarrow> None
      | Some (i, rest) \<Rightarrow>
          map_option ((#) (pc, i))
            (disassemble (pc + length (instr_bytes i)) (drop (pc + length (instr_bytes i)) code)))"
proof (cases "decode (drop pc code)")
  case None
  with assms show ?thesis by (cases "drop pc code") (auto simp del: decode.simps)
next
  case (Some r)
  obtain i rest where r: "decode (drop pc code) = Some (i, rest)" using Some by (cases r) auto
  then have bytes: "drop pc code = instr_bytes i @ rest" by (rule decode_Some_bytes)
  then have "rest = drop (pc + length (instr_bytes i)) code"
    by (metis add.commute append_eq_conv_conj drop_drop)
  moreover have "length (drop pc code) - length rest = length (instr_bytes i)"
    by (simp add: bytes)
  ultimately show ?thesis
    using assms r by (cases "drop pc code") (auto simp del: decode.simps)
qed

lemma instr_bytes_pos: "0 < length (instr_bytes i)"
  by (cases i) simp_all

lemma validate_loop_Inr_iff:
  "validate_loop code pc ht = Inr () \<longleftrightarrow>
     (\<exists>is. disassemble pc (drop pc code) = Some is \<and>
        list_all (jump_ok (length code)) is \<and> (ht \<or> list_ex (\<lambda>x. is_terminal (snd x)) is))"
proof (induction "length code - pc" arbitrary: pc ht rule: less_induct)
  case less
  show ?case
  proof (cases "pc < length code")
    case False
    then show ?thesis by (simp add: validate_loop.simps [of code])
  next
    case True
    show ?thesis
    proof (cases "decode (drop pc code)")
      case None
      with True show ?thesis by (simp add: validate_loop_step disassemble_step)
    next
      case (Some r)
      obtain i rest where r: "decode (drop pc code) = Some (i, rest)" using Some by (cases r) auto
      have "length code - (pc + length (instr_bytes i)) < length code - pc"
        using True instr_bytes_pos [of i] by linarith
      from less [OF this, of "ht \<or> is_terminal i"] True r show ?thesis
        by (auto simp: validate_loop_step disassemble_step)
    qed
  qed
qed

definition well_formed :: "u8 list \<Rightarrow> bool" where
  "well_formed code \<longleftrightarrow>
     (case disassemble 0 code of
        None \<Rightarrow> False
      | Some is \<Rightarrow> list_all (jump_ok (length code)) is \<and> list_ex (\<lambda>x. is_terminal (snd x)) is)"

lemma validate_bytecode_iff:
  "validate_bytecode code = Inr () \<longleftrightarrow>
     code \<noteq> [] \<and> length code \<le> MAX_BYTECODE_LEN \<and> well_formed code"
  using validate_loop_Inr_iff [of code 0 False]
  by (auto simp: validate_bytecode_def well_formed_def split: option.splits)

end
