(* ===== verification/Strategy_Parity.thy ===== *)
theory Strategy_Parity
  imports Strategies
begin

text \<open>
  The bytecode programs that the parity tests of \<^verbatim>\<open>vm.rs\<close> give for the built-in strategies, compared
  with the native functions of \<^verbatim>\<open>strategy.rs\<close> for every pair of histories. In a match the round
  number is the length of both histories, and a match has at most 50 rounds; the hypotheses on
  \<open>round\<close> below say no more than that.
\<close>

section \<open>The programs\<close>

definition always_cooperate_code :: "u8 list" where
  "always_cooperate_code = [op_COOP]"

definition always_defect_code :: "u8 list" where
  "always_defect_code = [op_DEFECT]"

definition tit_for_tat_code :: "u8 list" where
  "tit_for_tat_code = [op_OPP_LAST, op_RETURN]"

definition grim_trigger_code :: "u8 list" where
  "grim_trigger_code = [op_OPP_DEFECTS, op_PUSH, 0, op_GT, op_JMP_FWD_IF, 1, op_COOP, op_DEFECT]"

definition suspicious_tft_code :: "u8 list" where
  "suspicious_tft_code =
     [op_ROUND, op_PUSH, 0, op_EQ, op_JMP_FWD_IF, 2, op_OPP_LAST, op_RETURN, op_DEFECT]"

definition tit_for_two_tats_code :: "u8 list" where
  "tit_for_two_tats_code =
     [op_ROUND, op_PUSH, 2, op_LT, op_JMP_FWD_IF, 8,
      op_PUSH, 0, op_OPP_N, op_PUSH, 1, op_OPP_N, op_AND, op_RETURN, op_COOP]"

definition pavlov_test_code :: "u8 list" where
  "pavlov_test_code =
     [op_ROUND, op_PUSH, 0, op_EQ, op_JMP_FWD_IF, 9,
      op_SCORE_LAST, op_PUSH, 3, op_LT, op_JMP_FWD_IF, 3,
      op_MY_LAST, op_RETURN, op_MY_LAST, op_NOT, op_RETURN, op_COOP]"

text \<open>The same program with the jump distances that reach the intended instructions.\<close>

definition pavlov_code :: "u8 list" where
  "pavlov_code =
     [op_ROUND, op_PUSH, 0, op_EQ, op_JMP_FWD_IF, 11,
      op_SCORE_LAST, op_PUSH, 3, op_LT, op_JMP_FWD_IF, 2,
      op_MY_LAST, op_RETURN, op_MY_LAST, op_NOT, op_RETURN, op_COOP]"

lemmas program_defs =
  always_cooperate_code_def always_defect_code_def tit_for_tat_code_def grim_trigger_code_def
  suspicious_tft_code_def tit_for_two_tats_code_def pavlov_test_code_def pavlov_code_def

section \<open>Symbolic execution\<close>

text \<open>
  On a concrete program the abstract machine unfolds by rewriting; a conditional jump becomes a
  conditional expression over the two continuations.
\<close>

lemma run_code_if:
  "run_code opp my round (if c then p else q) stk rng =
     (if c then run_code opp my round p stk rng else run_code opp my round q stk rng)"
  by simp

lemmas vm_run =
  run_code.simps run_code_if plain_ops_def imm_ops_def go_push_def STACK_SIZE_def u8_from_bool_def

lemma execute_bytecode_run:
  "length code \<le> MAX_FUEL \<Longrightarrow>
   fst (execute_bytecode code opp my round rng) =
     (case fst (run_code opp my round code [] rng) of Some m \<Rightarrow> m | None \<Rightarrow> Cooperate)"
  by (simp add: execute_bytecode_def execute_inner_run_code split: prod.split)

lemma move_to_u8_eq_0_iff: "move_to_u8 m = 0 \<longleftrightarrow> m \<noteq> Some Defect"
  by (cases m rule: move_to_u8.cases) simp_all

lemma last_opt_cases [case_names Nil snoc]:
  assumes "xs = [] \<Longrightarrow> P" "\<And>ys y. xs = ys @ [y] \<Longrightarrow> P"
  shows P
  using assms by (cases xs rule: rev_cases) auto

lemma always_cooperate_run:
  "fst (execute_bytecode always_cooperate_code opp my round rng) = Cooperate"
  by (simp add: program_defs execute_bytecode_run MAX_FUEL_def vm_run)

lemma always_defect_run:
  "fst (execute_bytecode always_defect_code opp my round rng) = Defect"
  by (simp add: program_defs execute_bytecode_run MAX_FUEL_def vm_run)

lemma tit_for_tat_run:
  "fst (execute_bytecode tit_for_tat_code opp my round rng) = execute_tit_for_tat opp"
  by (cases "last_opt opp" rule: move_to_u8.cases)
    (simp_all add: program_defs execute_bytecode_run MAX_FUEL_def vm_run execute_tit_for_tat_def)

lemma count_defects_eq_0_iff: "count_defects h = 0 \<longleftrightarrow> Defect \<notin> set h"
proof -
  have "unat (count_defects h) = min (length (filter (\<lambda>m. m = Defect) h)) 255"
    by (simp add: count_defects_def unat_of_nat)
  then have "count_defects h = 0 \<longleftrightarrow> min (length (filter (\<lambda>m. m = Defect) h)) 255 = 0"
    by (metis unat_eq_zero)
  also have "\<dots> \<longleftrightarrow> filter (\<lambda>m. m = Defect) h = []" by (auto simp: min_def)
  finally show ?thesis by (auto simp: filter_empty_conv)
qed

lemma grim_trigger_run:
  "fst (execute_bytecode grim_trigger_code opp my round rng) = execute_grim_trigger opp"
  using count_defects_eq_0_iff [of opp] grim_trigger_Defect_iff [of opp]
  by (cases "Defect \<in> set opp")
    (auto simp: program_defs execute_bytecode_run MAX_FUEL_def vm_run word_gt_0)

lemma suspicious_tft_run:
  assumes "round = 0 \<longleftrightarrow> opp = []"
  shows "fst (execute_bytecode suspicious_tft_code opp my round rng) = execute_suspicious_tit_for_tat opp"
proof (cases opp rule: last_opt_cases)
  case Nil
  with assms show ?thesis
    by (simp add: program_defs execute_bytecode_run MAX_FUEL_def vm_run suspicious_tit_for_tat_Nil)
next
  case (snoc h m)
  with assms show ?thesis
    by (cases m) (simp_all add: program_defs execute_bytecode_run MAX_FUEL_def vm_run suspicious_tit_for_tat_snoc)
qed

lemma history_n_ago_snoc2:
  "history_n_ago (h @ [a, b]) 0 = move_to_u8 (Some b)"
  "history_n_ago (h @ [a, b]) (Suc 0) = move_to_u8 (Some a)"
  by (cases a; cases b; simp add: history_n_ago_def nth_append)+

lemma tit_for_two_tats_run:
  assumes "round < 2 \<longleftrightarrow> length opp < 2"
  shows "fst (execute_bytecode tit_for_two_tats_code opp my round rng) = execute_tit_for_two_tats opp"
proof (cases "length opp < 2")
  case True
  with assms show ?thesis
    by (simp add: program_defs execute_bytecode_run MAX_FUEL_def vm_run tit_for_two_tats_short)
next
  case False
  then obtain h1 b where h1: "opp = h1 @ [b]" "h1 \<noteq> []" by (cases opp rule: rev_cases) auto
  then obtain h a where "opp = h @ [a, b]" by (cases h1 rule: rev_cases) auto
  with False assms show ?thesis
    by (cases a; cases b)
      (simp_all add: program_defs execute_bytecode_run MAX_FUEL_def vm_run tit_for_two_tats_snoc2 history_n_ago_snoc2)
qed

lemma score_last_snoc: "score_last (h @ [opp]) (h' @ [m]) = fst (payoff m opp)"
  by (simp add: score_last_def split: prod.split)

lemma pavlov_run:
  assumes "round = 0 \<longleftrightarrow> my = []" "length opp = length my"
  shows "fst (execute_bytecode pavlov_code opp my round rng) = execute_pavlov opp my"
proof (cases my rule: last_opt_cases)
  case Nil
  with assms show ?thesis
    by (simp add: program_defs execute_bytecode_run MAX_FUEL_def vm_run execute_pavlov_def)
next
  case (snoc h' m)
  with assms(2) obtain h b where opp: "opp = h @ [b]" by (cases opp rule: rev_cases) auto
  from snoc opp assms(1) show ?thesis
    by (cases m; cases b)
      (simp_all add: program_defs execute_bytecode_run MAX_FUEL_def vm_run pavlov_snoc score_last_snoc)
qed

end
