(* ===== verification/Game.thy ===== *)
theory Game
  imports Strategy_Parity
begin

text \<open>
  Match execution (\<^verbatim>\<open>game.rs\<close>): the random length of a match and the rounds of \<open>run_match\<close>. The
  analytical estimate \<open>expected_rounds\<close> is in \<open>Expected_Rounds\<close>.

  Shown: the number of rounds is in the range of its configuration; histories, round results and
  totals stay in step and the totals are the exact sums of the round scores; a match depends on the
  two strategies only through the moves they choose; matches of strategies that draw no random
  numbers are symmetric in the players.
\<close>

section \<open>Data\<close>

record RoundResult =
  rr_round :: u8
  move_a :: Move
  move_b :: Move
  score_a :: u8
  score_b :: u8
  cumulative_a :: u32
  cumulative_b :: u32

record MatchResult =
  rounds :: "RoundResult list"
  total_score_a :: u32
  total_score_b :: u32
  round_count :: u8

record RoundConfig =
  min_rounds :: u8
  max_rounds :: u8
  end_probability :: u8

definition standard :: RoundConfig where
  "standard = \<lparr>min_rounds = 20, max_rounds = 50, end_probability = 5\<rparr>"

definition compressed :: RoundConfig where
  "compressed = \<lparr>min_rounds = 10, max_rounds = 30, end_probability = 7\<rparr>"

section \<open>Operations\<close>

text \<open>The \<open>while\<close> loop of \<open>determine_round_count\<close>.\<close>

function round_count_loop :: "RoundConfig \<Rightarrow> u8 \<Rightarrow> SeededRng \<Rightarrow> u8 \<times> SeededRng" where
  "round_count_loop config rs rng =
     (if rs < max_rounds config then
        let (p, rng') = next_percent rng in
        if p < end_probability config then (rs, rng')
        else round_count_loop config (rs + 1) rng'
      else (rs, rng))"
  by pat_completeness auto
termination
proof (relation "measure (\<lambda>(config, rs, _). unat (max_rounds config) - unat rs)", goal_cases)
  case (2 config rs rng)
  then have "unat rs < unat (max_rounds config)" by (simp add: word_less_nat_alt)
  moreover have "unat (max_rounds config) < 2 ^ 8"
    using unat_less_length [of "max_rounds config"] by simp
  ultimately show ?case by (simp add: word_nat)
qed simp

declare round_count_loop.simps [simp del]

definition determine_round_count :: "SeededRng \<Rightarrow> RoundConfig \<Rightarrow> u8 \<times> SeededRng" where
  "determine_round_count rng config = round_count_loop config (min_rounds config) rng"

definition round_config :: "u32 \<Rightarrow> RoundConfig" where
  "round_config participant_count = (if participant_count \<le> 1000 then standard else compressed)"

text \<open>The local variables of \<open>run_match\<close> that its loop updates.\<close>

record match_state =
  history_a :: "Move list"
  history_b :: "Move list"
  results :: "RoundResult list"
  total_a :: u32
  total_b :: u32

definition match_init :: match_state where
  "match_init = \<lparr>history_a = [], history_b = [], results = [], total_a = 0, total_b = 0\<rparr>"

text \<open>The body of the loop over the rounds.\<close>

definition match_round ::
  "PlayerStrategy \<Rightarrow> PlayerStrategy \<Rightarrow> SeededRng \<Rightarrow> u8 \<Rightarrow> match_state \<Rightarrow> match_state" where
  "match_round strategy_a strategy_b rng round st =
     (let rng_a = for_round rng (round * 2);
          rng_b = for_round rng (round * 2 + 1);
          ma = fst (execute_player_strategy strategy_a (history_b st) (history_a st) round rng_a);
          mb = fst (execute_player_strategy strategy_b (history_a st) (history_b st) round rng_b);
          (sa, sb) = payoff ma mb;
          ta = total_a st + ucast sa;
          tb = total_b st + ucast sb
      in \<lparr>history_a = history_a st @ [ma], history_b = history_b st @ [mb],
          results = results st @
            [\<lparr>rr_round = round, move_a = ma, move_b = mb, score_a = sa, score_b = sb,
              cumulative_a = ta, cumulative_b = tb\<rparr>],
          total_a = ta, total_b = tb\<rparr>)"

definition play_rounds ::
  "PlayerStrategy \<Rightarrow> PlayerStrategy \<Rightarrow> SeededRng \<Rightarrow> nat \<Rightarrow> match_state" where
  "play_rounds strategy_a strategy_b rng n =
     fold (\<lambda>i. match_round strategy_a strategy_b rng (of_nat i)) [0..<n] match_init"

definition run_match ::
  "PlayerStrategy \<Rightarrow> PlayerStrategy \<Rightarrow> u8 list \<Rightarrow> u32 \<Rightarrow> u32 \<Rightarrow> MatchResult" where
  "run_match strategy_a strategy_b seed match_index participant_count =
     (let (n, rng) = determine_round_count (rng_new seed match_index) (round_config participant_count);
          st = play_rounds strategy_a strategy_b rng (unat n)
      in \<lparr>rounds = results st, total_score_a = total_a st, total_score_b = total_b st,
          round_count = n\<rparr>)"

section \<open>The number of rounds\<close>

lemma round_count_loop_bounds:
  assumes "rs \<le> max_rounds config"
  shows "rs \<le> fst (round_count_loop config rs rng) \<and>
         fst (round_count_loop config rs rng) \<le> max_rounds config"
  using assms
proof (induction config rs rng rule: round_count_loop.induct)
  case (1 config rs rng)
  show ?case
  proof (cases "rs < max_rounds config")
    case False
    with 1(2) show ?thesis by (simp add: round_count_loop.simps [of config _ rng])
  next
    case True
    obtain p rng' where p: "next_percent rng = (p, rng')" by fastforce
    from True have le: "rs + 1 \<le> max_rounds config" "rs \<le> rs + 1"
      using unat_add_no_wrap [of rs 1] unat_less_length [of "max_rounds config"]
      by (simp_all add: word_le_nat_alt word_less_nat_alt)
    from "1.IH" [OF True p [symmetric] refl] le True p show ?thesis
      by (auto simp: round_count_loop.simps [of config rs])
  qed
qed

lemma determine_round_count_bounds:
  assumes "min_rounds config \<le> max_rounds config"
  shows "min_rounds config \<le> fst (determine_round_count rng config)"
    and "fst (determine_round_count rng config) \<le> max_rounds config"
  using round_count_loop_bounds [OF assms, of rng] by (simp_all add: determine_round_count_def)

lemma round_config_ordered: "min_rounds (round_config n) \<le> max_rounds (round_config n)"
  by (simp add: round_config_def standard_def compressed_def word_le_nat_alt)

text \<open>The generator after the length of the match has been drawn, and that length.\<close>

definition match_rng :: "u8 list \<Rightarrow> u32 \<Rightarrow> u32 \<Rightarrow> SeededRng" where
  "match_rng seed i n = snd (determine_round_count (rng_new seed i) (round_config n))"

definition match_length :: "u8 list \<Rightarrow> u32 \<Rightarrow> u32 \<Rightarrow> nat" where
  "match_length seed i n = unat (fst (determine_round_count (rng_new seed i) (round_config n)))"

lemma run_match_fields:
  "rounds (run_match sa sb seed i n) = results (play_rounds sa sb (match_rng seed i n) (match_length seed i n))"
  "total_score_a (run_match sa sb seed i n) = total_a (play_rounds sa sb (match_rng seed i n) (match_length seed i n))"
  "total_score_b (run_match sa sb seed i n) = total_b (play_rounds sa sb (match_rng seed i n) (match_length seed i n))"
  "round_count (run_match sa sb seed i n) = fst (determine_round_count (rng_new seed i) (round_config n))"
  "unat (round_count (run_match sa sb seed i n)) = match_length seed i n"
  by (simp_all add: run_match_def Let_def match_rng_def match_length_def split: prod.split)

lemma run_match_round_count:
  "min_rounds (round_config n) \<le> round_count (run_match sa sb seed i n)"
  "round_count (run_match sa sb seed i n) \<le> max_rounds (round_config n)"
  using determine_round_count_bounds [OF round_config_ordered [of n], of "rng_new seed i"]
  by (simp_all add: run_match_fields)

lemma max_rounds_le_50: "unat (max_rounds (round_config n)) \<le> 50"
  by (simp add: round_config_def standard_def compressed_def)

lemma match_length_le_50: "match_length seed i n \<le> 50"
  using determine_round_count_bounds(2) [OF round_config_ordered [of n], of "rng_new seed i"]
    max_rounds_le_50 [of n]
  by (simp add: match_length_def word_le_nat_alt)

section \<open>The rounds of a match\<close>

lemma play_rounds_0 [simp]: "play_rounds sa sb rng 0 = match_init"
  by (simp add: play_rounds_def)

lemma play_rounds_Suc:
  "play_rounds sa sb rng (Suc n) = match_round sa sb rng (of_nat n) (play_rounds sa sb rng n)"
  by (simp add: play_rounds_def)

text \<open>The fields of the state after one more round.\<close>

lemma match_round_simps:
  fixes sa sb rng r st
  defines "ma \<equiv> fst (execute_player_strategy sa (history_b st) (history_a st) r (for_round rng (r * 2)))"
    and "mb \<equiv> fst (execute_player_strategy sb (history_a st) (history_b st) r (for_round rng (r * 2 + 1)))"
  shows "history_a (match_round sa sb rng r st) = history_a st @ [ma]"
    and "history_b (match_round sa sb rng r st) = history_b st @ [mb]"
    and "total_a (match_round sa sb rng r st) = total_a st + ucast (fst (payoff ma mb))"
    and "total_b (match_round sa sb rng r st) = total_b st + ucast (snd (payoff ma mb))"
    and "results (match_round sa sb rng r st) = results st @
      [\<lparr>rr_round = r, move_a = ma, move_b = mb, score_a = fst (payoff ma mb), score_b = snd (payoff ma mb),
        cumulative_a = total_a st + ucast (fst (payoff ma mb)),
        cumulative_b = total_b st + ucast (snd (payoff ma mb))\<rparr>]"
  by (simp_all add: match_round_def ma_def mb_def Let_def split: prod.split)

lemma length_histories [simp]:
  "length (history_a (play_rounds sa sb rng n)) = n"
  "length (history_b (play_rounds sa sb rng n)) = n"
  "length (results (play_rounds sa sb rng n)) = n"
  by (induction n) (simp_all add: play_rounds_Suc match_round_simps match_init_def)

text \<open>The moves recorded in the results are the histories.\<close>

lemma histories_of_results:
  "map move_a (results (play_rounds sa sb rng n)) = history_a (play_rounds sa sb rng n)"
  "map move_b (results (play_rounds sa sb rng n)) = history_b (play_rounds sa sb rng n)"
  by (induction n) (simp_all add: play_rounds_Suc match_round_simps match_init_def)

lemma results_scores:
  "r \<in> set (results (play_rounds sa sb rng n)) \<Longrightarrow> (score_a r, score_b r) = payoff (move_a r) (move_b r)"
  by (induction n) (auto simp: play_rounds_Suc match_round_simps match_init_def)

lemma results_round:
  "i < n \<Longrightarrow> rr_round (results (play_rounds sa sb rng n) ! i) = of_nat i"
  by (induction n) (auto simp: play_rounds_Suc match_round_simps nth_append less_Suc_eq)

text \<open>Each player scores at most five points a round, so the totals cannot wrap.\<close>

definition score_sum_a :: "RoundResult list \<Rightarrow> nat" where
  "score_sum_a rs = sum_list (map (\<lambda>r. unat (score_a r)) rs)"

definition score_sum_b :: "RoundResult list \<Rightarrow> nat" where
  "score_sum_b rs = sum_list (map (\<lambda>r. unat (score_b r)) rs)"

lemma score_sums:
  assumes "n \<le> 255"
  shows "unat (total_a (play_rounds sa sb rng n)) = score_sum_a (results (play_rounds sa sb rng n)) \<and>
         unat (total_b (play_rounds sa sb rng n)) = score_sum_b (results (play_rounds sa sb rng n)) \<and>
         score_sum_a (results (play_rounds sa sb rng n)) \<le> 5 * n \<and>
         score_sum_b (results (play_rounds sa sb rng n)) \<le> 5 * n"
  using assms
proof (induction n)
  case 0
  show ?case by (simp add: match_init_def score_sum_a_def score_sum_b_def)
next
  case (Suc n)
  let ?st = "play_rounds sa sb rng n"
  have "unat (total_a ?st + ucast (fst (payoff a b))) = unat (total_a ?st) + unat (fst (payoff a b))"
    "unat (total_b ?st + ucast (snd (payoff a b))) = unat (total_b ?st) + unat (snd (payoff a b))" for a b
    using Suc payoff_le_5 [of a b] by (simp_all add: word_nat)
  moreover have "x + unat (fst (payoff a b)) \<le> 5 + 5 * n" "x + unat (snd (payoff a b)) \<le> 5 + 5 * n"
    if "x \<le> 5 * n" for x a b
    using that payoff_le_5 [of a b] by linarith+
  ultimately show ?case
    using Suc by (simp add: play_rounds_Suc match_round_simps score_sum_a_def score_sum_b_def)
qed

section \<open>A match depends on the moves only\<close>

definition same_moves :: "PlayerStrategy \<Rightarrow> PlayerStrategy \<Rightarrow> bool" where
  "same_moves s s' \<longleftrightarrow>
     (\<forall>opp my rng. length opp = length my \<longrightarrow> length my < 256 \<longrightarrow>
        fst (execute_player_strategy s opp my (of_nat (length my)) rng) =
        fst (execute_player_strategy s' opp my (of_nat (length my)) rng))"

lemma same_movesD:
  assumes "same_moves s s'" "length opp = n" "length my = n" "n < 256"
  shows "fst (execute_player_strategy s opp my (of_nat n) rng) =
         fst (execute_player_strategy s' opp my (of_nat n) rng)"
  using assms(1) [unfolded same_moves_def, rule_format, of opp my rng] assms(2-4) by simp

lemma same_moves_refl [simp]: "same_moves s s"
  by (simp add: same_moves_def)

lemma play_rounds_cong:
  assumes "same_moves sa sa'" "same_moves sb sb'" "n \<le> 256"
  shows "play_rounds sa sb rng n = play_rounds sa' sb' rng n"
  using assms(3)
proof (induction n)
  case (Suc n)
  then have IH: "play_rounds sa sb rng n = play_rounds sa' sb' rng n" and n: "n < 256" by simp_all
  note moves = same_movesD [OF assms(1) _ _ n] same_movesD [OF assms(2) _ _ n]
  show ?case
    by (rule match_state.equality)
      (simp_all add: play_rounds_Suc IH match_round_simps moves)
qed simp

lemma run_match_cong:
  assumes "same_moves sa sa'" "same_moves sb sb'"
  shows "run_match sa sb seed i n = run_match sa' sb' seed i n"
proof -
  have "play_rounds sa sb (match_rng seed i n) (match_length seed i n) =
        play_rounds sa' sb' (match_rng seed i n) (match_length seed i n)"
    using match_length_le_50 [of seed i n] by (intro play_rounds_cong assms) simp
  then show ?thesis by (intro MatchResult.equality) (simp_all add: run_match_fields)
qed

text \<open>The bytecode twins of the built-in strategies, as the parity tests pair them.\<close>

fun bytecode_twin :: "StrategyBase \<Rightarrow> u8 list option" where
  "bytecode_twin AlwaysCooperate = Some always_cooperate_code"
| "bytecode_twin AlwaysDefect = Some always_defect_code"
| "bytecode_twin TitForTat = Some tit_for_tat_code"
| "bytecode_twin GrimTrigger = Some grim_trigger_code"
| "bytecode_twin SuspiciousTitForTat = Some suspicious_tft_code"
| "bytecode_twin TitForTwoTats = Some tit_for_two_tats_code"
| "bytecode_twin Pavlov = Some pavlov_code"
| "bytecode_twin _ = None"

lemma of_nat_u8_small:
  assumes "n < 256"
  shows "(of_nat n :: u8) = 0 \<longleftrightarrow> n = 0" "(of_nat n :: u8) < 2 \<longleftrightarrow> n < 2"
proof -
  have "unat (of_nat n :: u8) = n" using assms by (simp add: unat_of_nat)
  then show "(of_nat n :: u8) = 0 \<longleftrightarrow> n = 0" "(of_nat n :: u8) < 2 \<longleftrightarrow> n < 2"
    by (auto simp: word_less_nat_alt unat_eq_0)
qed

lemma same_moves_twin:
  assumes "bytecode_twin b = Some code"
  shows "same_moves (Custom code) (Builtin (strategy_new b))"
  unfolding same_moves_def
proof (intro allI impI)
  fix opp my :: "Move list" and rng
  assume len: "length opp = length my" "length my < 256"
  let ?r = "of_nat (length my) :: u8"
  have "?r = 0 \<longleftrightarrow> my = []" "?r = 0 \<longleftrightarrow> opp = []" "?r < 2 \<longleftrightarrow> length opp < 2"
    using len of_nat_u8_small [OF len(2)] by auto
  with assms len show "fst (execute_player_strategy (Custom code) opp my ?r rng) =
      fst (execute_player_strategy (Builtin (strategy_new b)) opp my ?r rng)"
    by (cases b)
      (auto simp: execute_player_strategy_def execute_strategy_def strategy_new_def
        always_cooperate_run always_defect_run tit_for_tat_run grim_trigger_run
        suspicious_tft_run tit_for_two_tats_run pavlov_run)
qed

section \<open>Symmetry\<close>

definition draws_nothing :: "PlayerStrategy \<Rightarrow> bool" where
  "draws_nothing s \<longleftrightarrow>
     (\<forall>opp my r rng rng'. fst (execute_player_strategy s opp my r rng) =
                          fst (execute_player_strategy s opp my r rng'))"

lemma builtin_draws_nothing: "b \<noteq> Random \<Longrightarrow> draws_nothing (Builtin (strategy_new b))"
  by (cases b) (auto simp: draws_nothing_def execute_player_strategy_def execute_strategy_def strategy_new_def)

definition swap_round :: "RoundResult \<Rightarrow> RoundResult" where
  "swap_round r =
     \<lparr>rr_round = rr_round r, move_a = move_b r, move_b = move_a r,
      score_a = score_b r, score_b = score_a r,
      cumulative_a = cumulative_b r, cumulative_b = cumulative_a r\<rparr>"

lemma play_rounds_swap:
  assumes "draws_nothing sa" "draws_nothing sb"
  shows "history_a (play_rounds sb sa rng n) = history_b (play_rounds sa sb rng n) \<and>
         history_b (play_rounds sb sa rng n) = history_a (play_rounds sa sb rng n) \<and>
         total_a (play_rounds sb sa rng n) = total_b (play_rounds sa sb rng n) \<and>
         total_b (play_rounds sb sa rng n) = total_a (play_rounds sa sb rng n) \<and>
         results (play_rounds sb sa rng n) = map swap_round (results (play_rounds sa sb rng n))"
proof (induction n)
  case 0
  show ?case by (simp add: match_init_def)
next
  case (Suc n)
  have any: "fst (execute_player_strategy s opp my r rng1) = fst (execute_player_strategy s opp my r rng2)"
    if "s \<in> {sa, sb}" for s opp my r rng1 rng2
    using that assms unfolding draws_nothing_def by blast
  have sa: "fst (execute_player_strategy sa opp my r (for_round rng (r * 2 + 1))) =
            fst (execute_player_strategy sa opp my r (for_round rng (r * 2)))" for opp my r
    by (rule any) simp
  have sb: "fst (execute_player_strategy sb opp my r (for_round rng (r * 2))) =
            fst (execute_player_strategy sb opp my r (for_round rng (r * 2 + 1)))" for opp my r
    by (rule any) simp
  let ?st = "play_rounds sa sb rng n" and ?r = "of_nat n :: u8"
  define ma mb where "ma = fst (execute_player_strategy sa (history_b ?st) (history_a ?st) ?r (for_round rng (?r * 2)))"
    and "mb = fst (execute_player_strategy sb (history_a ?st) (history_b ?st) ?r (for_round rng (?r * 2 + 1)))"
  have "fst (payoff mb ma) = snd (payoff ma mb)" "snd (payoff mb ma) = fst (payoff ma mb)"
    by (simp_all add: payoff_symmetric [of mb ma])
  with Suc show ?case
    by (simp add: play_rounds_Suc match_round_simps sa sb swap_round_def flip: ma_def mb_def)
qed

section \<open>Tit for tat is never exploited\<close>

text \<open>Behind by at most one betrayal, and only while the last move of the opponent was one.\<close>

lemma tit_for_tat_balance:
  fixes sb rng
  assumes "n \<le> 255"
  defines "st \<equiv> \<lambda>n. play_rounds (Builtin (strategy_new TitForTat)) sb rng n"
  shows "unat (total_b (st n)) \<le>
           unat (total_a (st n)) + (if last_opt (history_b (st n)) = Some Defect then 5 else 0)"
  using assms(1)
proof (induction n)
  case 0
  show ?case by (simp add: st_def match_init_def)
next
  case (Suc n)
  have a: "fst (execute_player_strategy (Builtin (strategy_new TitForTat)) opp my r rng') =
      (if last_opt opp = Some Defect then Defect else Cooperate)" for opp my r rng'
    by (auto simp: execute_player_strategy_def execute_strategy_def strategy_new_def
        execute_tit_for_tat_def split: option.split Move.split)
  have small: "unat (total_a (st n)) \<le> 5 * n" "unat (total_b (st n)) \<le> 5 * n"
    using score_sums [of n "Builtin (strategy_new TitForTat)" sb rng] Suc.prems
    by (simp_all add: st_def)
  have add: "unat (t + ucast s) = unat t + unat s" if "unat t \<le> 5 * n" for t :: u32 and s :: u8
  proof -
    have "unat s < 256" using unat_less_length [of s] by simp
    with that Suc.prems show ?thesis by (simp add: word_nat)
  qed
  define B where "B \<longleftrightarrow> last_opt (history_b (st n)) = Some Defect"
  define mb where "mb = fst (execute_player_strategy sb (history_a (st n)) (history_b (st n)) (of_nat n)
    (for_round rng (of_nat n * 2 + 1)))"
  have step: "unat (total_a (st (Suc n))) = unat (total_a (st n)) + unat (fst (payoff (if B then Defect else Cooperate) mb))"
    "unat (total_b (st (Suc n))) = unat (total_b (st n)) + unat (snd (payoff (if B then Defect else Cooperate) mb))"
    "last_opt (history_b (st (Suc n))) = Some mb"
    using add [OF small(1)] add [OF small(2)]
    by (simp_all add: st_def play_rounds_Suc match_round_simps a B_def mb_def)
  have "unat (total_b (st n)) \<le> unat (total_a (st n)) + (if B then 5 else 0)"
    using Suc by (simp add: B_def)
  then show ?case
    unfolding step by (cases B; cases mb) simp_all
qed

text \<open>The same in the other seat.\<close>

lemma tit_for_tat_balance_b:
  fixes sa rng
  assumes "n \<le> 255"
  defines "st \<equiv> \<lambda>n. play_rounds sa (Builtin (strategy_new TitForTat)) rng n"
  shows "unat (total_a (st n)) \<le>
           unat (total_b (st n)) + (if last_opt (history_a (st n)) = Some Defect then 5 else 0)"
  using assms(1)
proof (induction n)
  case 0
  show ?case by (simp add: st_def match_init_def)
next
  case (Suc n)
  have b: "fst (execute_player_strategy (Builtin (strategy_new TitForTat)) opp my r rng') =
      (if last_opt opp = Some Defect then Defect else Cooperate)" for opp my r rng'
    by (auto simp: execute_player_strategy_def execute_strategy_def strategy_new_def
        execute_tit_for_tat_def split: option.split Move.split)
  have small: "unat (total_a (st n)) \<le> 5 * n" "unat (total_b (st n)) \<le> 5 * n"
    using score_sums [of n sa "Builtin (strategy_new TitForTat)" rng] Suc.prems
    by (simp_all add: st_def)
  have add: "unat (t + ucast s) = unat t + unat s" if "unat t \<le> 5 * n" for t :: u32 and s :: u8
  proof -
    have "unat s < 256" using unat_less_length [of s] by simp
    with that Suc.prems show ?thesis by (simp add: word_nat)
  qed
  define A where "A \<longleftrightarrow> last_opt (history_a (st n)) = Some Defect"
  define ma where "ma = fst (execute_player_strategy sa (history_b (st n)) (history_a (st n)) (of_nat n)
    (for_round rng (of_nat n * 2)))"
  have step: "unat (total_a (st (Suc n))) = unat (total_a (st n)) + unat (fst (payoff ma (if A then Defect else Cooperate)))"
    "unat (total_b (st (Suc n))) = unat (total_b (st n)) + unat (snd (payoff ma (if A then Defect else Cooperate)))"
    "last_opt (history_a (st (Suc n))) = Some ma"
    using add [OF small(1)] add [OF small(2)]
    by (simp_all add: st_def play_rounds_Suc match_round_simps b A_def ma_def)
  have "unat (total_a (st n)) \<le> unat (total_b (st n)) + (if A then 5 else 0)"
    using Suc by (simp add: A_def)
  then show ?case
    unfolding step by (cases A; cases ma) simp_all
qed

section \<open>Gradual\<close>

text \<open>
  Gradual owes one defection for the first defection of the opponent, two for the second, and so on. A
  strategy settles its debts if it never defects more often than it owes and cooperates exactly when
  nothing is owed.
\<close>

definition defections :: "Move list \<Rightarrow> nat" where
  "defections moves = length (filter (\<lambda>m. m = Defect) moves)"

definition retaliation :: "nat \<Rightarrow> nat" where
  "retaliation d = d * (d + 1) div 2"

definition settles_debts :: "Move list \<Rightarrow> Move list \<Rightarrow> bool" where
  "settles_debts mine theirs \<longleftrightarrow> length mine = length theirs \<and>
     (\<forall>j \<le> length mine. defections (take j mine) \<le> retaliation (defections (take j theirs))) \<and>
     (\<forall>j < length mine. mine ! j = Cooperate \<longleftrightarrow> defections (take j mine) = retaliation (defections (take j theirs)))"

lemma retaliation_mono: "d \<le> d' \<Longrightarrow> retaliation d \<le> retaliation d'"
  unfolding retaliation_def by (intro div_le_mono mult_le_mono) simp_all

lemma defections_take_Suc:
  "j < length moves \<Longrightarrow> defections (take (Suc j) moves) = defections (take j moves) + (if moves ! j = Defect then 1 else 0)"
  by (simp add: defections_def take_Suc_conv_app_nth)

lemma settles_debtsI:
  assumes len: "length mine = length theirs"
    and moves: "\<And>j. j < length mine \<Longrightarrow>
      mine ! j = (if defections (take j mine) < retaliation (defections (take j theirs)) then Defect else Cooperate)"
  shows "settles_debts mine theirs"
proof -
  have le: "defections (take j mine) \<le> retaliation (defections (take j theirs))" if "j \<le> length mine" for j
    using that
  proof (induction j)
    case 0
    show ?case by (simp add: defections_def)
  next
    case (Suc j)
    then have j: "j < length mine" "j < length theirs" using len by simp_all
    have "retaliation (defections (take j theirs)) \<le> retaliation (defections (take (Suc j) theirs))"
      by (intro retaliation_mono) (simp add: defections_take_Suc [OF j(2)])
    moreover have "defections (take (Suc j) mine) \<le> retaliation (defections (take j theirs))"
      using Suc j moves [OF j(1)] by (simp add: defections_take_Suc split: if_splits)
    ultimately show ?case by linarith
  qed
  have "mine ! j = Cooperate \<longleftrightarrow> defections (take j mine) = retaliation (defections (take j theirs))" if "j < length mine" for j
    using moves [OF that] le [of j] that by auto
  with le len show ?thesis by (simp add: settles_debts_def)
qed

text \<open>Every move of a match is the answer of the strategy to the rounds before it.\<close>

lemma history_move:
  assumes "j < n"
  shows "history_a (play_rounds sa sb rng n) ! j = fst (execute_player_strategy sa
      (take j (history_b (play_rounds sa sb rng n))) (take j (history_a (play_rounds sa sb rng n)))
      (of_nat j) (for_round rng (of_nat j * 2)))"
    and "history_b (play_rounds sa sb rng n) ! j = fst (execute_player_strategy sb
      (take j (history_a (play_rounds sa sb rng n))) (take j (history_b (play_rounds sa sb rng n)))
      (of_nat j) (for_round rng (of_nat j * 2 + 1)))"
  using assms
  by (induction n) (auto simp: play_rounds_Suc match_round_simps nth_append less_Suc_eq)

lemma gradual_move:
  "fst (execute_player_strategy (Builtin (strategy_new Gradual)) opp my r rng) =
     (if defections my < retaliation (defections opp) then Defect else Cooperate)"
  by (simp add: execute_player_strategy_def execute_strategy_def strategy_new_def execute_gradual_def Let_def
      defections_def retaliation_def)

end
