(* ===== verification/Rng_Seeds.thy ===== *)
theory Rng_Seeds
  imports Game
begin

text \<open>
  Seeds and the generators made of them. The output of a generator determines its state, and with one
  seed different match indices give different generators. A seed of four equal chunks that start
  with an even byte mixes to zero, and then the generator of match 0 is stuck: this is so for the
  seed \<open>[42; 32]\<close> that nearly all unit tests use.
\<close>

section \<open>States and outputs\<close>

text \<open>The output of the generator determines its state: the factor is odd.\<close>

lemma next_u64_inj:
  assumes "fst (next_u64 r) = fst (next_u64 r')"
  shows "rng_state r = rng_state r'"
proof -
  let ?c = "0x2545f4914f6cdd1d :: u64" and ?d = "0x59071d96d81ecd35 :: u64"
  have "xorshift (rng_state r) * (?c * ?d) = xorshift (rng_state r') * (?c * ?d)"
    using assms unfolding next_u64_def Let_def fst_conv mult.assoc [symmetric] by (rule arg_cong)
  moreover have "?c * ?d = 1" by simp
  ultimately show ?thesis using injD [OF xorshift_inj, of "rng_state r" "rng_state r'"] by (simp only: mult_1_right)
qed

lemma rng_state_new: "rng_state (rng_new seed i) = (xorshift ^^ 8) (seed_mix seed XOR (ucast i * 0x517cc1b727220a95))"
  by (simp add: rng_new_def rng_state_warm_up)

lemma xorshift_funpow_inj: "(xorshift ^^ n) a = (xorshift ^^ n) b \<longleftrightarrow> a = b"
  using inj_fn [OF xorshift_inj, of n] by (auto dest: injD)

section \<open>Seeds that mix to zero\<close>

text \<open>
  A seed of four equal chunks that start with an even byte mixes to zero, since an even number and
  its successor differ in the last bit only.
\<close>

lemma even_add_1_word: "even (x :: 'a::len word) \<Longrightarrow> x + 1 = x XOR 1"
  by (simp add: xor_one_eq)

lemma even_ucast_u8: "even (ucast (b :: u8) :: u64) \<longleftrightarrow> even b"
  using bit_ucast_iff [of b 0, where ?'a = 64] by (simp add: bit_0)

lemma seed_mix_chunks:
  assumes "length c = 8"
  shows "seed_mix (c @ c @ c @ c) =
    (let x = from_le_bytes c in (x XOR (x + 1)) XOR ((x + 2) XOR (x + 3)))"
proof -
  obtain b bs where c: "c = b # bs" "length bs = 7" using assms by (cases c) auto
  have "chunks 8 (c @ c @ c @ c) = [c, c, c, c]"
    by (simp add: c)
  then show ?thesis
    using assms by (simp add: seed_mix_def Let_def ac_simps)
qed

lemma seed_mix_equal_chunks:
  assumes "length c = 8" "even (hd c)"
  shows "seed_mix (c @ c @ c @ c) = 0"
proof -
  let ?x = "from_le_bytes c :: u64"
  have "even ?x" using assms by (cases c) (simp_all add: even_ucast_u8)
  then have e: "even ?x" "even (?x + 2)" by simp_all
  have three: "?x + 3 = ?x + 2 + 1" by simp
  have "?x XOR (?x + 1) = 1" "(?x + 2) XOR (?x + 3) = 1"
    unfolding three even_add_1_word [OF e(1)] even_add_1_word [OF e(2)] by (simp_all flip: xor.assoc)
  then show ?thesis by (simp only: seed_mix_chunks [OF assms(1)] Let_def) simp
qed

lemma rng_zero: "next_u64 \<lparr>rng_state = 0\<rparr> = (0, \<lparr>rng_state = 0\<rparr>)"
  by (simp add: next_u64_def xorshift_def)

lemma rng_new_equal_chunks:
  assumes "length c = 8" "even (hd c)"
  shows "rng_new (c @ c @ c @ c) 0 = \<lparr>rng_state = 0\<rparr>"
proof -
  have "warm_up n \<lparr>rng_state = 0\<rparr> = \<lparr>rng_state = 0\<rparr>" for n by (induction n) (simp_all add: rng_zero)
  then show ?thesis by (simp add: rng_new_def seed_mix_equal_chunks [OF assms])
qed

lemma zero_draws:
  "next_percent \<lparr>rng_state = 0\<rparr> = (0, \<lparr>rng_state = 0\<rparr>)"
  "next_range \<lparr>rng_state = 0\<rparr> mx = (0, \<lparr>rng_state = 0\<rparr>)"
  by (simp_all add: next_percent_def next_range_def next_u32_def rng_zero)

lemma zero_round_count:
  assumes "0 < end_probability config"
  shows "determine_round_count \<lparr>rng_state = 0\<rparr> config = (min_rounds config, \<lparr>rng_state = 0\<rparr>)"
  using assms by (simp add: determine_round_count_def round_count_loop.simps zero_draws)

lemma replicate_chunks: "replicate 32 b = replicate 8 b @ replicate 8 b @ replicate 8 b @ replicate 8 b"
  by (simp flip: replicate_add)

text \<open>The seeds of the tests.\<close>

lemma test_seed_mix:
  "even b \<Longrightarrow> seed_mix (replicate 32 b) = 0" "seed_mix (replicate 32 1) = 4"
proof -
  show "seed_mix (replicate 32 b) = 0" if "even b"
    unfolding replicate_chunks by (rule seed_mix_equal_chunks) (use that in simp_all)
  show "seed_mix (replicate 32 1) = 4"
    unfolding replicate_chunks by (subst seed_mix_chunks) (simp_all add: eval_nat_numeral)
qed

text \<open>To evaluate the warm-up of a concrete generator.\<close>

lemma funpow_8: "(f ^^ 8) x = f (f (f (f (f (f (f (f x)))))))"
  by (simp add: eval_nat_numeral)

lemma ucast_max_u32: "ucast (- 1 :: u32) = (0xFFFFFFFF :: u64)"
proof -
  have m: "(- 1 :: u32) = 0xFFFFFFFF" by simp
  show ?thesis unfolding m by (simp only: unsigned_numeral) simp
qed

end
