(* ===== verification/Rng_Fixpoint.thy ===== *)
theory Rng_Fixpoint
  imports Seeded_Rng
begin

text \<open>
  The generator of \<^verbatim>\<open>random.rs\<close> has no absorbing state but zero: the step of its state is additive
  over exclusive or, and the difference between a state and its successor reaches every word.
\<close>

section \<open>Fixed points\<close>

text \<open>
  The difference of a state and its successor is additive, so that zero is the only fixed point if every
  word is such a difference. The preimages of the 64 single bits are listed.
\<close>

definition drift :: "u64 \<Rightarrow> u64" where
  "drift x = xorshift x XOR x"

definition drift_basis :: "u64 list" where
  "drift_basis = [
     0x24924924936da, 0x4924924926db4, 0x924924924db69, 0x10000000008009,
     0x20000000010012, 0x424924924b36fe, 0x84924924966dfc, 0x1092492492cdbf9,
     0x210000000108129, 0x420000000210252, 0x8424924920b327e, 0x10849249241664fc,
     0x210b6db6da65ff22, 0x421492492682c89f, 0x842924924d05913f, 0x21192412402cc9fd,
     0x423001001210a521, 0x84624b24b6687c98, 0x218db25b24be2468, 0x43192d92db357e0a,
     0x863012012423cacf, 0x25290010002948c6, 0x4a5200200052918d, 0x94a4004000a5231a,
     0x1249249249b6d, 0x1, 0x2, 0x24924924936de,
     0x4924924926dbc, 0x924924924db79, 0x10000000008029, 0x20000000010052,
     0x424924924b367e, 0x84924924966cfc, 0x1092492492cd9f9, 0x210000000108529,
     0x420000000210a52, 0x8400000004214a5, 0x108000000084294a, 0x210249249341644f,
     0x420492492682c89e, 0x840924924d05913d, 0x215b6d36d265ff23, 0x42b493493682c89d,
     0x856b6fb6ff4ca7e1, 0x239db25b24bea441, 0x47392d92db347e58, 0x8e725b25b668fcb1,
     0x35ad925924bf243a, 0x6b5b24b2497e4874, 0xd6b4004000b5a633, 0x842124924905913f,
     0x210b6d36da65ff27, 0x421493492682c895, 0x842b6fb6df4ca7f1, 0x211db25b64bea461,
     0x42392d925b347e18, 0x84725b24b668fc31, 0x21ad925b24bf253a, 0x435b24b6497e4a74,
     0x86b4004800b5a233, 0x242124824905993f, 0x48424904920b327f, 0x90849209241664fe]"

lemma drift_xor: "drift (a XOR b) = drift a XOR drift b"
  by (simp add: drift_def xorshift_xor ac_simps)

lemma drift_0 [simp]: "drift 0 = 0"
  by (simp add: drift_def xorshift_eq_0_iff)

lemma map_drift_basis: "map drift drift_basis = map (\<lambda>i. push_bit i 1) [0..<64]"
  by (simp add: drift_basis_def drift_def xorshift_def upt_rec)

lemma drift_bit: "i < 64 \<Longrightarrow> \<exists>b. drift b = push_bit i 1"
  using arg_cong [OF map_drift_basis, of "\<lambda>xs. xs ! i"] arg_cong [OF map_drift_basis, of length]
  by (intro exI [of _ "drift_basis ! i"]) simp

lemma drift_take_bit: "n \<le> 64 \<Longrightarrow> \<exists>b. drift b = take_bit n x"
proof (induction n)
  case 0
  show ?case by (intro exI [of _ 0]) simp
next
  case (Suc n)
  then obtain b where b: "drift b = take_bit n x" by auto
  show ?case
  proof (cases "bit x n")
    case True
    obtain c where c: "drift c = push_bit n 1" using drift_bit [of n] Suc.prems by auto
    have "take_bit (Suc n) x = take_bit n x XOR push_bit n 1"
      using True by (intro bit_eqI) (auto simp: bit_xor_iff bit_take_bit_iff bit_push_bit_iff bit_1_iff bit_exp_iff less_Suc_eq)
    then show ?thesis by (intro exI [of _ "b XOR c"]) (simp add: drift_xor b c)
  next
    case False
    then have "take_bit (Suc n) x = take_bit n x"
      by (intro bit_eqI) (auto simp: bit_take_bit_iff less_Suc_eq)
    with b show ?thesis by auto
  qed
qed

lemma drift_eq_0_iff: "drift x = 0 \<longleftrightarrow> x = 0"
proof -
  have full: "take_bit 64 y = y" for y :: u64
    by (rule bit_eqI) (simp add: bit_take_bit_iff)
  have "\<exists>b. y = drift b" for y
    using drift_take_bit [of 64 y] full [of y] by auto
  then have "surj drift" by (simp add: surj_def)
  then have "inj drift" by (simp add: finite_UNIV_surj_inj)
  then show ?thesis by (metis drift_0 injD)
qed

lemma xorshift_fixed_iff: "xorshift x = x \<longleftrightarrow> x = 0"
  using drift_eq_0_iff [of x] by (simp add: drift_def xor_eq_0_iff)

end
