(* ===== verification/Pairing.thy ===== *)
theory Pairing
  imports Seeded_Rng
begin

text \<open>
  Deterministic pairing of players (\<^verbatim>\<open>pairing.rs\<close>): the number of matches, a permutation of the match
  indices by a Feistel network with cycle walking, and the two ways to turn an index into a pair
  (unranking for a full round robin, cyclic offsets sampled by Floyd's algorithm otherwise).

  Functions that can panic (a division by zero, an index out of range) or fail to return have an
  option result, \<open>None\<close> standing for that; where the source itself returns an \<open>Option\<close>, it is
  the inner option. This theory holds the definitions only.
\<close>

section \<open>Number of matches\<close>

definition effective_k :: "u32 \<Rightarrow> u16 \<Rightarrow> u16" where
  "effective_k participant_count config_k =
     (if participant_count < 2 then 0
      else if participant_count \<le> 200 then ucast (participant_count - 1)
      else clamp config_k 49 99)"

definition available_offsets :: "u32 \<Rightarrow> u32" where
  "available_offsets n = (if n mod 2 = 0 then n div 2 - 1 else n div 2)"

definition calculate_match_count_inner :: "u32 \<Rightarrow> u32 \<Rightarrow> u32" where
  "calculate_match_count_inner n k =
     (if n < 2 \<or> k = 0 then 0
      else if n \<le> k + 1 then
        let c_n_2 = n * (n - 1) div 2;
            cycles = div_ceil k (n - 1)
        in c_n_2 * cycles
      else
        let available = available_offsets n;
            offsets_to_use = min (div_ceil k 2) available
        in offsets_to_use * n)"

definition calculate_match_count :: "u32 \<Rightarrow> u16 \<Rightarrow> u8 list \<Rightarrow> u32" where
  "calculate_match_count participant_count matches_per_player seed =
     calculate_match_count_inner participant_count (ucast matches_per_player)"

section \<open>Integer square roots\<close>

text \<open>
  Newton's iteration; the same loop runs on \<open>u32\<close> in \<open>isqrt_ceil\<close> and on \<open>u64\<close> in
  \<open>unrank_pair\<close>. The division by \<open>y\<close> panics on zero.
\<close>

function newton_loop :: "'a::len word \<Rightarrow> 'a word \<Rightarrow> 'a word \<Rightarrow> 'a word option" where
  "newton_loop n x y =
     (if y < x then
        if y = 0 then None else newton_loop n y ((y + n div y) div 2)
      else Some x)"
  by pat_completeness auto
termination
  by (relation "measure (\<lambda>(_, x, _). unat x)") (auto simp: word_less_nat_alt)

declare newton_loop.simps [simp del]

definition isqrt_ceil :: "u32 \<Rightarrow> u32 option" where
  "isqrt_ceil n =
     (if n \<le> 1 then Some n
      else do {
        x \<leftarrow> newton_loop n n ((n + 1) div 2);
        Some (if (ucast x :: u64) * ucast x = ucast n then x else x + 1)
      })"

section \<open>The Feistel permutation\<close>

definition feistel_round_fn :: "u32 \<Rightarrow> u64 \<Rightarrow> u32 \<Rightarrow> u32" where
  "feistel_round_fn input key modulus =
     ucast (drop_bit 16 (ucast input * (key OR 1) + drop_bit 32 key)) mod modulus"

fun draw_keys :: "nat \<Rightarrow> SeededRng \<Rightarrow> u64 list" where
  "draw_keys 0 rng = []"
| "draw_keys (Suc n) rng = (let (k, rng') = next_u64 rng in k # draw_keys n rng')"

definition derive_feistel_keys :: "u8 list \<Rightarrow> u64 list" where
  "derive_feistel_keys seed = draw_keys 6 (rng_new seed (- 1))"

text \<open>One pass over the round keys, alternating between the two halves.\<close>

definition feistel_half_round :: "u32 \<Rightarrow> nat \<times> u64 \<Rightarrow> u32 \<times> u32 \<Rightarrow> u32 \<times> u32" where
  "feistel_half_round half = (\<lambda>(i, key) (left, right).
     if even i then (left, (right + feistel_round_fn left key half) mod half)
     else ((left + feistel_round_fn right key half) mod half, right))"

definition feistel_step :: "u64 list \<Rightarrow> u32 \<Rightarrow> u32 \<Rightarrow> u32" where
  "feistel_step round_keys half val =
     (let (left, right) =
        fold (feistel_half_round half) (enumerate 0 round_keys) (val div half, val mod half)
      in left * half + right)"

text \<open>The bounded loop: at most \<open>fuel\<close> passes, leaving as soon as the value is in the domain.\<close>

fun feistel_walk :: "nat \<Rightarrow> u64 list \<Rightarrow> u32 \<Rightarrow> u32 \<Rightarrow> u32 \<Rightarrow> u32 option" where
  "feistel_walk 0 round_keys half domain_size val = None"
| "feistel_walk (Suc fuel) round_keys half domain_size val =
     (let val' = feistel_step round_keys half val in
      if val' < domain_size then Some val'
      else feistel_walk fuel round_keys half domain_size val')"

definition feistel_permute :: "u32 \<Rightarrow> u32 \<Rightarrow> u64 list \<Rightarrow> u32 option option" where
  "feistel_permute idx domain_size round_keys =
     (if domain_size \<le> 1 then Some (Some 0)
      else do {
        half \<leftarrow> isqrt_ceil domain_size;
        Some (feistel_walk 1000 round_keys half domain_size idx)
      })"

section \<open>Offsets\<close>

text \<open>The loop of Floyd's algorithm; \<open>result\<close> is the fixed array, \<open>count\<close> its filled part.\<close>

fun floyd_loop :: "nat list \<Rightarrow> SeededRng \<Rightarrow> u32 list \<Rightarrow> nat \<Rightarrow> (u32 list \<times> nat) option" where
  "floyd_loop [] rng result count = Some (result, count)"
| "floyd_loop (j # js) rng result count =
     (let (v, rng') = next_range rng (of_nat j);
          t = v + 1;
          found = list_ex (\<lambda>i. result ! i = t) [0..<count]
      in if count < length result
         then floyd_loop js rng' (result[count := (if found then of_nat j else t)]) (count + 1)
         else None)"

definition select_offsets :: "u32 \<Rightarrow> u32 \<Rightarrow> u8 list \<Rightarrow> (u32 list \<times> nat) option" where
  "select_offsets n k seed =
     (let available = available_offsets n;
          m = unat (min (min (div_ceil k 2) available) 50);
          big_n = unat available
      in do {
        (result, count) \<leftarrow>
          floyd_loop [big_n - m + 1..<big_n + 1] (rng_new seed 0) (replicate 50 0) 0;
        Some (sort (take count result) @ drop count result, count)
      })"

section \<open>From indices to pairs\<close>

text \<open>The two correction loops of \<open>unrank_pair\<close>.\<close>

function rank_down :: "u32 \<Rightarrow> u32 \<Rightarrow> u32" where
  "rank_down rank b = (if 0 < b \<and> rank < b * (b - 1) div 2 then rank_down rank (b - 1) else b)"
  by pat_completeness auto
termination
  by (relation "measure (\<lambda>(_, b). unat b)") (auto simp: word_gt_0 unat_minus_one unat_gt_0)

partial_function (option) rank_up :: "u32 \<Rightarrow> u32 \<Rightarrow> u32 option" where
  "rank_up rank b = (if (b + 1) * b div 2 \<le> rank then rank_up rank (b + 1) else Some b)"

declare rank_down.simps [simp del]
declare rank_up.simps [code]

definition unrank_pair :: "u32 \<Rightarrow> (u32 \<times> u32) option" where
  "unrank_pair rank =
     (let val = 1 + 8 * (ucast rank :: u64) in
      do {
        s \<leftarrow> newton_loop val val ((val + 1) div 2);
        let b = rank_down rank (ucast ((1 + s) div 2));
        b \<leftarrow> rank_up rank b;
        Some (rank - b * (b - 1) div 2, b)
      })"

definition canonical_to_pair_round_robin :: "u32 \<Rightarrow> u32 \<Rightarrow> (u32 \<times> u32) option" where
  "canonical_to_pair_round_robin canonical_idx n =
     (let c_n_2 = n * (n - 1) div 2 in
      if c_n_2 = 0 then None else unrank_pair (canonical_idx mod c_n_2))"

definition canonical_to_pair_circular :: "u32 \<Rightarrow> u32 \<Rightarrow> u32 list \<Rightarrow> (u32 \<times> u32) option" where
  "canonical_to_pair_circular canonical_idx n offsets =
     (if n = 0 then None
      else
        let group = canonical_idx div n;
            i = canonical_idx mod n
        in if unat group < length offsets then
             let d = offsets ! unat group;
                 j = (i + d) mod n
             in Some (if i < j then (i, j) else (j, i))
           else None)"

section \<open>Pairings\<close>

definition get_pairing_for_match ::
  "u32 \<Rightarrow> u16 \<Rightarrow> u8 list \<Rightarrow> u32 \<Rightarrow> (u32 \<times> u32) option option" where
  "get_pairing_for_match participant_count matches_per_player seed match_index =
     (let n = participant_count;
          k = ucast matches_per_player;
          total = calculate_match_count_inner n k
      in if total \<le> match_index then Some None
         else
           let round_keys = derive_feistel_keys seed in
           do {
             c \<leftarrow> feistel_permute match_index total round_keys;
             case c of
               None \<Rightarrow> Some None
             | Some canonical_idx \<Rightarrow>
                 if n \<le> k + 1 then map_option Some (canonical_to_pair_round_robin canonical_idx n)
                 else do {
                   (offsets, count) \<leftarrow> select_offsets n k seed;
                   map_option Some (canonical_to_pair_circular canonical_idx n (take count offsets))
                 }
           })"

text \<open>\<open>Iterator::filter_map\<close> over a closure that may panic.\<close>

fun filter_map_panic :: "('a \<Rightarrow> 'b option option) \<Rightarrow> 'a list \<Rightarrow> 'b list option" where
  "filter_map_panic f [] = Some []"
| "filter_map_panic f (x # xs) =
     do {
       y \<leftarrow> f x;
       ys \<leftarrow> filter_map_panic f xs;
       Some (case y of None \<Rightarrow> ys | Some v \<Rightarrow> v # ys)
     }"

definition generate_all_pairings :: "u32 \<Rightarrow> u16 \<Rightarrow> u8 list \<Rightarrow> (u32 \<times> u32) list option" where
  "generate_all_pairings participant_count matches_per_player seed =
     (let n = participant_count; k = ucast matches_per_player in
      if n < 2 then Some []
      else
        let total = calculate_match_count_inner n k in
        if total = 0 then Some []
        else
          let round_keys = derive_feistel_keys seed;
              indices = map of_nat [0..<unat total]
          in if n \<le> k + 1 then
               filter_map_panic
                 (\<lambda>i. do {
                    c \<leftarrow> feistel_permute i total round_keys;
                    case c of
                      None \<Rightarrow> Some None
                    | Some canonical \<Rightarrow> map_option Some (canonical_to_pair_round_robin canonical n)
                  }) indices
             else do {
               (offsets, count) \<leftarrow> select_offsets n k seed;
               filter_map_panic
                 (\<lambda>i. do {
                    c \<leftarrow> feistel_permute i total round_keys;
                    case c of
                      None \<Rightarrow> Some None
                    | Some canonical \<Rightarrow>
                        map_option Some (canonical_to_pair_circular canonical n (take count offsets))
                  }) indices
             })"

end
