(* ===== verification/Isqrt.thy ===== *)
theory Isqrt
  imports Pairing
begin

text \<open>
  Newton's iteration of \<^verbatim>\<open>pairing.rs\<close> computes integer square roots at both widths, without dividing
  by zero and without wrap-around, and \<open>unrank_pair\<close> inverts the colexicographic rank of a pair.
\<close>

section \<open>Newton's iteration\<close>

lemma unat_2_word:
  assumes "1 < LENGTH('a::len)"
  shows "unat (2 :: 'a word) = 2"
proof -
  have "(2::nat) ^ 1 < 2 ^ LENGTH('a)" using assms by (intro power_strict_increasing) simp_all
  moreover have "unat (of_nat 2 :: 'a word) = 2 mod 2 ^ LENGTH('a)" by (simp only: unat_of_nat)
  ultimately show ?thesis by simp
qed

text \<open>The arithmetic mean bounds the geometric one: the next iterate is never below the root.\<close>

lemma newton_above:
  assumes "0 < (x::nat)"
  shows "n < ((x + n div x) div 2 + 1)\<^sup>2"
proof -
  define q y where "q = n div x" and "y = (x + q) div 2"
  have n: "n < x * (q + 1)"
    using assms dividend_less_div_times [of x n] by (simp add: q_def mult.commute)
  have "4 * (x * (q + 1)) \<le> (x + (q + 1))\<^sup>2"
  proof -
    have "0 \<le> (int x - int (q + 1))\<^sup>2" by simp
    then have "int (4 * (x * (q + 1))) \<le> int ((x + (q + 1))\<^sup>2)"
      by (simp add: power2_eq_square algebra_simps)
    then show ?thesis by (simp only: of_nat_le_iff)
  qed
  also have "\<dots> \<le> (2 * (y + 1))\<^sup>2"
    by (rule power_mono) (auto simp: y_def)
  also have "\<dots> = 4 * (y + 1)\<^sup>2" unfolding power_mult_distrib by simp
  finally have "x * (q + 1) \<le> (y + 1)\<^sup>2" by simp
  with n show ?thesis by (simp add: y_def q_def)
qed

lemma add_div_le:
  assumes "0 < x" "x \<le> (n::nat)"
  shows "x + n div x \<le> n + 1"
proof -
  have "0 < n div x" using assms by (simp add: div_greater_zero_iff)
  then have "(x - 1) * (n div x - 1) + (x + n div x) = x * (n div x) + 1"
    using assms(1) by (cases x; cases "n div x") simp_all
  moreover have "x * (n div x) \<le> n" by simp
  ultimately show ?thesis by linarith
qed

lemma newton_loop_correct:
  fixes n x y :: "'a::len word"
  assumes "1 < LENGTH('a)"
    and "0 < unat x" "unat x \<le> unat n" "unat n + 1 < 2 ^ LENGTH('a)"
    and "unat n < (unat x + 1)\<^sup>2" "unat y = (unat x + unat n div unat x) div 2"
  shows "\<exists>s. newton_loop n x y = Some s \<and> (unat s)\<^sup>2 \<le> unat n \<and> unat n < (unat s + 1)\<^sup>2"
  using assms
proof (induction n x y rule: newton_loop.induct)
  case (1 n x y)
  show ?case
  proof (cases "y < x")
    case True
    have "1 \<le> unat n div unat x" using "1.prems" by (simp add: div_greater_zero_iff Suc_le_eq)
    then have y: "0 < unat y" using "1.prems" by simp
    then have y0: "y \<noteq> 0" by (simp add: unat_gt_0)
    have yn: "unat y \<le> unat n" using True "1.prems" by (simp add: word_less_nat_alt)
    have two: "unat (2 :: 'a word) = 2" using "1.prems"(1) by (rule unat_2_word)
    have "unat y + unat n div unat y < 2 ^ LENGTH('a)"
      using add_div_le [OF y yn] "1.prems" by linarith
    then have z: "unat ((y + n div y) div 2) = (unat y + unat n div unat y) div 2"
      using "1.prems"(1) by (simp add: word_nat two)
    from "1.prems" have "unat n < (unat y + 1)\<^sup>2" using newton_above [of "unat x" "unat n"] by simp
    from "1.IH" [OF True y0 "1.prems"(1) y yn _ this z] "1.prems" True y0 show ?thesis
      by (simp add: newton_loop.simps [of n x y])
  next
    case False
    then have "unat x \<le> unat n div unat x"
      using "1.prems" by (simp add: word_less_nat_alt not_less)
    then have "unat x * unat x \<le> unat n"
      using "1.prems"(2) by (simp add: less_eq_div_iff_mult_less_eq)
    with False "1.prems" show ?thesis
      by (simp add: newton_loop.simps [of n x y] power2_eq_square)
  qed
qed

lemma newton_loop_start:
  fixes n :: "'a::len word"
  assumes "1 < LENGTH('a)" "0 < unat n" "unat n + 1 < 2 ^ LENGTH('a)"
  shows "\<exists>s. newton_loop n n ((n + 1) div 2) = Some s \<and> (unat s)\<^sup>2 \<le> unat n \<and> unat n < (unat s + 1)\<^sup>2"
proof (rule newton_loop_correct)
  show "unat ((n + 1) div 2) = (unat n + unat n div unat n) div 2"
    using assms unat_add_no_wrap [of n 1] by (simp add: word_nat unat_2_word)
  show "unat n < (unat n + 1)\<^sup>2" by (simp add: power2_eq_square)
qed (use assms in simp_all)

section \<open>The ceiling of the square root\<close>

lemma power2_less_imp: "(a::nat)\<^sup>2 < b\<^sup>2 \<Longrightarrow> a < b"
  by (rule power2_less_imp_less) simp_all

lemma isqrt_ceil_correct:
  assumes "1 < unat n" "unat n < 2 ^ 32 - 1"
  shows "\<exists>r. isqrt_ceil n = Some r \<and> 1 < unat r \<and> unat r \<le> 2 ^ 16 \<and>
             (unat r - 1)\<^sup>2 < unat n \<and> unat n \<le> (unat r)\<^sup>2"
proof -
  obtain x where x: "newton_loop n n ((n + 1) div 2) = Some x" "(unat x)\<^sup>2 \<le> unat n" "unat n < (unat x + 1)\<^sup>2"
    using newton_loop_start [of n] assms by auto
  have "(unat x)\<^sup>2 < (2 ^ 16)\<^sup>2" using x(2) assms(2) by simp
  then have x16: "unat x < 2 ^ 16" by (rule power2_less_imp)
  have x0: "0 < unat x" using x(3) assms(1) by (cases "unat x") simp_all
  have "unat x * unat x \<le> 2 ^ 16 * 2 ^ 16" using x16 by (intro mult_mono) simp_all
  then have sq: "unat ((ucast x :: u64) * ucast x) = (unat x)\<^sup>2"
    by (simp add: word_nat power2_eq_square)
  have eq: "(ucast x :: u64) * ucast x = ucast n \<longleftrightarrow> (unat x)\<^sup>2 = unat n"
    by (simp add: word_unat_eq_iff sq)
  have n1: "\<not> n \<le> 1" using assms(1) by (simp add: word_le_nat_alt)
  show ?thesis
  proof (cases "(unat x)\<^sup>2 = unat n")
    case True
    then have "unat x \<noteq> 1" using assms(1) by auto
    moreover have "(unat x - 1)\<^sup>2 < (unat x)\<^sup>2" using x0 by (intro power_strict_mono) simp_all
    ultimately show ?thesis
      using True x x0 x16 n1 eq by (simp add: isqrt_ceil_def)
  next
    case False
    have x1: "unat (x + 1) = unat x + 1" using x16 by (simp add: word_nat)
    show ?thesis
      using False x x0 x16 n1 eq by (simp add: isqrt_ceil_def x1)
  qed
qed

section \<open>Unranking pairs\<close>

definition triangle :: "nat \<Rightarrow> nat" where
  "triangle b = b * (b - 1) div 2"

lemma triangle_double: "2 * triangle b = b * (b - 1)"
proof -
  have "even (b * (b - 1))" by (cases b) auto
  then show ?thesis by (simp add: triangle_def)
qed

lemma triangle_Suc: "triangle (Suc b) = triangle b + b"
  using triangle_double [of b] triangle_double [of "Suc b"] by (cases b) (simp_all add: algebra_simps)

lemma triangle_mono: "a \<le> b \<Longrightarrow> triangle a \<le> triangle b"
  by (simp add: triangle_def div_le_mono mult_le_mono diff_le_mono)

lemma triangle_unique:
  assumes "triangle b \<le> r" "r < triangle (Suc b)" "triangle b' \<le> r" "r < triangle (Suc b')"
  shows "b = b'"
  using assms triangle_mono [of "Suc b" b'] triangle_mono [of "Suc b'" b]
  by (cases b b' rule: linorder_cases) auto

text \<open>The root of \<open>1 + 8 r\<close> determines the larger element of the pair of rank \<open>r\<close> exactly.\<close>

lemma triangle_root:
  assumes "s\<^sup>2 \<le> 1 + 8 * r" "1 + 8 * r < (s + 1)\<^sup>2"
  defines "b \<equiv> (1 + s) div 2"
  shows "triangle b \<le> r" "r < triangle (Suc b)" "0 < b"
proof -
  have s: "1 \<le> s" using assms(2) by (cases s) auto
  then show b: "0 < b" by (simp add: b_def)
  have "(2 * b - 1)\<^sup>2 \<le> s\<^sup>2" by (intro power_mono) (auto simp: b_def)
  moreover have "(2 * b - 1)\<^sup>2 = 4 * (b * (b - 1)) + 1"
    using b by (cases b) (simp_all add: power2_eq_square algebra_simps)
  ultimately have "b * (b - 1) \<le> 2 * r" using assms(1) by linarith
  then show "triangle b \<le> r" using triangle_double [of b] by linarith
  have "(s + 1)\<^sup>2 \<le> (2 * b + 1)\<^sup>2" by (intro power_mono) (auto simp: b_def)
  moreover have "(2 * b + 1)\<^sup>2 = 4 * (Suc b * b) + 1"
    by (simp add: power2_eq_square algebra_simps)
  ultimately have "2 * r < Suc b * b" using assms(2) by linarith
  then show "r < triangle (Suc b)" using triangle_double [of "Suc b"] by simp
qed

lemma unat_triangle_word:
  fixes b :: u32
  assumes "unat b \<le> 65536"
  shows "unat (b * (b - 1) div 2) = triangle (unat b)"
proof (cases "b = 0")
  case False
  then have "unat (b - 1) = unat b - 1" by (rule unat_minus_one)
  moreover have "unat b * (unat b - 1) \<le> 65536 * 65535" using assms by (intro mult_mono) simp_all
  ultimately show ?thesis by (simp add: word_nat triangle_def)
qed (simp add: triangle_def)

lemma unrank_pair_correct:
  assumes "unat rank < triangle 65536"
  obtains a b where "unrank_pair rank = Some (a, b)" "a < b" "unat rank = triangle (unat b) + unat a"
proof -
  define val where "val = 1 + 8 * (ucast rank :: u64)"
  have r: "unat rank < 2147450880" using assms by (simp add: triangle_def)
  then have val: "unat val = 1 + 8 * unat rank" by (simp add: val_def word_nat)
  obtain s where s: "newton_loop val val ((val + 1) div 2) = Some s"
    "(unat s)\<^sup>2 \<le> 1 + 8 * unat rank" "1 + 8 * unat rank < (unat s + 1)\<^sup>2"
    using newton_loop_start [of val] val r by auto
  define b where "b = (1 + unat s) div 2"
  note root = triangle_root [OF s(2,3), folded b_def]
  have b: "b \<le> 65535"
  proof (rule ccontr)
    assume "\<not> b \<le> 65535"
    then have "triangle 65536 \<le> triangle b" by (intro triangle_mono) simp
    with root(1) assms show False by simp
  qed
  define bw where "bw = (ucast ((1 + s) div 2) :: u32)"
  have "unat s < 2 ^ 64 - 1" using b by (simp add: b_def)
  then have "unat ((1 + s) div 2) = b" by (simp add: word_nat b_def)
  then have bw: "unat bw = b" using b by (simp add: bw_def unat_ucast_id)
  then have bw0: "bw \<noteq> 0" using root(3) by (auto simp: unat_eq_0)
  have tb: "unat (bw * (bw - 1) div 2) = triangle b"
    using unat_triangle_word [of bw] bw b by simp
  have bw1: "unat (bw + 1) = Suc b" using bw b by (simp add: word_nat)
  then have "unat ((bw + 1) * bw div 2) = triangle (Suc b)"
    using unat_triangle_word [of "bw + 1"] b by simp
  then have up: "rank_up rank bw = Some bw"
    using root(2) by (subst rank_up.simps) (simp add: word_le_nat_alt)
  have down: "rank_down rank bw = bw"
    using root(1) by (subst rank_down.simps) (simp add: word_less_nat_alt tb)
  have le: "bw * (bw - 1) div 2 \<le> rank" using root(1) tb by (simp add: word_le_nat_alt)
  then have a: "unat (rank - bw * (bw - 1) div 2) = unat rank - triangle b"
    using tb by (simp add: word_nat)
  show ?thesis
  proof (rule that)
    show "unrank_pair rank = Some (rank - bw * (bw - 1) div 2, bw)"
      by (simp add: unrank_pair_def Let_def up down s(1) flip: val_def bw_def)
    show "rank - bw * (bw - 1) div 2 < bw"
      using a root bw triangle_Suc [of b] by (simp add: word_less_nat_alt)
    show "unat rank = triangle (unat bw) + unat (rank - bw * (bw - 1) div 2)"
      using a root(1) bw by simp
  qed
qed

end
