(* ===== verification/Feistel.thy ===== *)
theory Feistel
  imports Isqrt
begin

text \<open>
  The permutation of match indices: a Feistel network over pairs of residues, walked along its
  cycles until the value falls into the domain. The cycle-walking argument is made once, in the
  locale \<open>cycle_walk\<close>, for any family of permutations of finite sets.
\<close>

section \<open>Cycle walking\<close>

fun walk :: "nat \<Rightarrow> ('a \<Rightarrow> 'a) \<Rightarrow> 'a set \<Rightarrow> 'a \<Rightarrow> 'a option" where
  "walk 0 f D v = None"
| "walk (Suc fuel) f D v = (if f v \<in> D then Some (f v) else walk fuel f D (f v))"

text \<open>The walk stops at the first iterate in the domain.\<close>

lemma walk_Some_iff:
  "walk fuel f D v = Some w \<longleftrightarrow>
     (\<exists>m. 0 < m \<and> m \<le> fuel \<and> w = (f ^^ m) v \<and> w \<in> D \<and> (\<forall>j. 0 < j \<and> j < m \<longrightarrow> (f ^^ j) v \<notin> D))"
  (is "_ \<longleftrightarrow> ?P fuel v")
proof (induction fuel arbitrary: v)
  case 0
  show ?case by simp
next
  case (Suc fuel)
  show ?case
  proof (cases "f v \<in> D")
    case True
    then show ?thesis
      by (auto intro: exI [of _ "1::nat"]) (metis One_nat_def funpow_0 funpow.simps(2) o_apply less_one nat_neq_iff zero_less_Suc)
  next
    case False
    have "?P fuel (f v) \<longleftrightarrow> ?P (Suc fuel) v"
    proof
      assume "?P fuel (f v)"
      then obtain m where m: "0 < m" "m \<le> fuel" "w = (f ^^ m) (f v)" "w \<in> D"
        "\<forall>j. 0 < j \<and> j < m \<longrightarrow> (f ^^ j) (f v) \<notin> D" by blast
      have "(f ^^ j) v \<notin> D" if "0 < j" "j < Suc m" for j
        using that m(5) False by (cases j; cases "j = 1") (auto simp: funpow_swap1)
      with m show "?P (Suc fuel) v" by (intro exI [of _ "Suc m"]) (simp add: funpow_swap1)
    next
      assume "?P (Suc fuel) v"
      then obtain m where m: "0 < m" "m \<le> Suc fuel" "w = (f ^^ m) v" "w \<in> D"
        "\<forall>j. 0 < j \<and> j < m \<longrightarrow> (f ^^ j) v \<notin> D" by blast
      from m(3,4) False have "m \<noteq> 1" by auto
      then obtain m' where m': "m = Suc m'" "0 < m'" using m(1) by (cases m) auto
      have "(f ^^ j) (f v) \<notin> D" if "0 < j" "j < m'" for j
        using m(5) [rule_format, of "Suc j"] that m' by (simp add: funpow_swap1)
      with m m' show "?P fuel (f v)" by (intro exI [of _ m']) (simp add: funpow_swap1)
    qed
    with Suc.IH [of "f v"] False show ?thesis by simp
  qed
qed

lemma walk_None_iff: "walk fuel f D v = None \<longleftrightarrow> (\<forall>j. 0 < j \<and> j \<le> fuel \<longrightarrow> (f ^^ j) v \<notin> D)"
proof (induction fuel arbitrary: v)
  case 0
  show ?case by simp
next
  case (Suc fuel)
  have "(\<forall>j. 0 < j \<and> j \<le> Suc fuel \<longrightarrow> (f ^^ j) v \<notin> D) \<longleftrightarrow>
        f v \<notin> D \<and> (\<forall>j. 0 < j \<and> j \<le> fuel \<longrightarrow> (f ^^ j) (f v) \<notin> D)" (is "?L \<longleftrightarrow> ?R")
  proof
    assume L: ?L
    show ?R
    proof (intro conjI allI impI)
      show "f v \<notin> D" using L [rule_format, of 1] by simp
      show "(f ^^ j) (f v) \<notin> D" if "0 < j \<and> j \<le> fuel" for j
        using L [rule_format, of "Suc j"] that by (simp add: funpow_swap1)
    qed
  next
    assume R: ?R
    show ?L
    proof (intro allI impI)
      fix j assume j: "0 < j \<and> j \<le> Suc fuel"
      then obtain i where i: "j = Suc i" by (cases j) auto
      show "(f ^^ j) v \<notin> D"
        using R j i by (cases "i = 0") (auto simp: funpow_swap1)
    qed
  qed
  with Suc.IH [of "f v"] show ?case by simp
qed

locale cycle_walk =
  fixes perm :: "'k \<Rightarrow> 'a \<Rightarrow> 'a"
    and carrier :: "'k \<Rightarrow> 'a set"
    and valid :: "'k \<Rightarrow> bool"
  assumes carrier_finite: "valid k \<Longrightarrow> finite (carrier k)"
    and perm_inj: "valid k \<Longrightarrow> inj_on (perm k) (carrier k)"
    and perm_closed: "valid k \<Longrightarrow> v \<in> carrier k \<Longrightarrow> perm k v \<in> carrier k"
begin

lemma funpow_closed: "valid k \<Longrightarrow> v \<in> carrier k \<Longrightarrow> (perm k ^^ n) v \<in> carrier k"
  by (induction n) (simp_all add: perm_closed)

lemma funpow_inj:
  assumes "valid k" "v \<in> carrier k" "w \<in> carrier k" "(perm k ^^ n) v = (perm k ^^ n) w"
  shows "v = w"
  using assms(4)
proof (induction n)
  case (Suc n)
  then have "perm k ((perm k ^^ n) v) = perm k ((perm k ^^ n) w)" by simp
  with perm_inj [OF assms(1)] have "(perm k ^^ n) v = (perm k ^^ n) w"
    by (rule inj_onD) (intro funpow_closed assms)+
  then show ?case by (rule Suc.IH)
qed simp

lemma funpow_cancel:
  assumes "valid k" "v \<in> carrier k" "w \<in> carrier k" "i \<le> j" "(perm k ^^ i) v = (perm k ^^ j) w"
  shows "v = (perm k ^^ (j - i)) w"
proof -
  have "(perm k ^^ i) v = (perm k ^^ i) ((perm k ^^ (j - i)) w)"
    using assms(4,5) by (simp flip: funpow_add comp_apply [of "perm k ^^ i"])
  then show ?thesis
    by (rule funpow_inj [OF assms(1,2) funpow_closed [OF assms(1,3)]])
qed

text \<open>Two starting points in the domain never walk to the same value.\<close>

lemma walk_inj:
  assumes k: "valid k" and D: "D \<subseteq> carrier k" and v: "v \<in> D" "v' \<in> D"
    and w: "walk fuel (perm k) D v = Some w" "walk fuel (perm k) D v' = Some w"
  shows "v = v'"
proof -
  have *: "x = y" if "x \<in> D" "y \<in> D" "i \<le> j" "(perm k ^^ i) x = (perm k ^^ j) y" "0 < i"
    "\<forall>l. 0 < l \<and> l < j \<longrightarrow> (perm k ^^ l) y \<notin> D" for x y i j
  proof -
    have "x = (perm k ^^ (j - i)) y" using that D k by (intro funpow_cancel) auto
    with that show ?thesis by (cases "i = j") auto
  qed
  from w obtain m m' where "0 < m" "w = (perm k ^^ m) v" "\<forall>l. 0 < l \<and> l < m \<longrightarrow> (perm k ^^ l) v \<notin> D"
    "0 < m'" "w = (perm k ^^ m') v'" "\<forall>l. 0 < l \<and> l < m' \<longrightarrow> (perm k ^^ l) v' \<notin> D"
    unfolding walk_Some_iff by blast
  then show ?thesis
    using * [of v v' m m'] * [of v' v m' m] v by (cases "m \<le> m'") auto
qed

text \<open>The walk cannot stay outside the domain longer than there are values outside.\<close>

lemma walk_total:
  assumes k: "valid k" and D: "D \<subseteq> carrier k" and v: "v \<in> D" and fuel: "card (carrier k - D) < fuel"
  shows "\<exists>w. walk fuel (perm k) D v = Some w"
proof (rule ccontr)
  assume "\<not> ?thesis"
  then have out: "(perm k ^^ j) v \<notin> D" if "0 < j" "j \<le> fuel" for j
    using that walk_None_iff [of fuel "perm k" D v] by (cases "walk fuel (perm k) D v") auto
  let ?orbit = "\<lambda>j. (perm k ^^ j) v"
  have "?orbit ` {1..fuel} \<subseteq> carrier k - D"
    using out funpow_closed [OF k] D v by auto
  then have "card (?orbit ` {1..fuel}) \<le> card (carrier k - D)"
    using carrier_finite [OF k] by (intro card_mono) simp_all
  with fuel have "card (?orbit ` {1..fuel}) < card {1..fuel}" by simp
  then have "\<not> inj_on ?orbit {1..fuel}" by (rule pigeonhole)
  then obtain i j where ij: "i \<in> {1..fuel}" "j \<in> {1..fuel}" "i \<noteq> j" "?orbit i = ?orbit j"
    unfolding inj_on_def by blast
  have return: False if "0 < a" "a < b" "b \<le> fuel" "?orbit a = ?orbit b" for a b
  proof -
    have "v = ?orbit (b - a)" using that D v k by (intro funpow_cancel) auto
    moreover have "0 < b - a" "b - a \<le> fuel" using that by simp_all
    ultimately show False using out v by metis
  qed
  show False
    using ij return [of i j] return [of j i] by (cases i j rule: linorder_cases) auto
qed

end

section \<open>The Feistel network\<close>

lemma feistel_round_fn_lt: "0 < unat half \<Longrightarrow> unat (feistel_round_fn x key half) < unat half"
  by (simp add: feistel_round_fn_def word_nat)

text \<open>Both halves stay residues, and a round can be undone by subtracting the same amount.\<close>

definition residues :: "u32 \<Rightarrow> (u32 \<times> u32) set" where
  "residues half = {(l, r). unat l < unat half \<and> unat r < unat half}"

definition feistel_valid :: "u32 \<Rightarrow> bool" where
  "feistel_valid half \<longleftrightarrow> 0 < unat half \<and> unat half \<le> 2 ^ 16"

lemma add_mod_cancel_nat:
  assumes "a < h" "b < h" "(a + c) mod h = (b + c) mod (h::nat)"
  shows "a = b"
proof -
  have le: "x = y" if "x \<le> y" "y < h" "(y + c) mod h = (x + c) mod h" for x y
  proof -
    have "h dvd y - x" using that mod_eq_dvd_iff_nat [of "x + c" "y + c" h] by simp
    with that show ?thesis by (cases "y - x = 0") (auto dest: dvd_imp_le)
  qed
  show ?thesis using assms le [of a b] le [of b a] by (cases "a \<le> b") simp_all
qed

lemma add_mod_cancel:
  fixes a b c :: u32
  assumes "feistel_valid h" "unat a < unat h" "unat b < unat h" "unat c < unat h"
    and "(a + c) mod h = (b + c) mod h"
  shows "a = b"
proof -
  have sums: "unat (a + c) = unat a + unat c" "unat (b + c) = unat b + unat c"
    using assms(1-4) by (simp_all add: feistel_valid_def word_nat)
  have "unat ((a + c) mod h) = unat ((b + c) mod h)" using assms(5) by simp
  then have "(unat a + unat c) mod unat h = (unat b + unat c) mod unat h"
    unfolding unat_mod_word sums .
  then have "unat a = unat b" by (rule add_mod_cancel_nat [OF assms(2,3)])
  then show ?thesis by (simp add: word_unat_eq_iff)
qed

lemma half_round_closed:
  assumes "feistel_valid half" "p \<in> residues half"
  shows "feistel_half_round half ik p \<in> residues half"
  using assms
  by (cases ik; cases p) (auto simp: feistel_half_round_def residues_def feistel_valid_def word_nat)

lemma half_round_inj:
  assumes h: "feistel_valid half"
  shows "inj_on (feistel_half_round half ik) (residues half)"
proof (rule inj_onI)
  fix p q assume pq: "p \<in> residues half" "q \<in> residues half"
    and eq: "feistel_half_round half ik p = feistel_half_round half ik q"
  obtain l r l' r' i key where [simp]: "p = (l, r)" "q = (l', r')" "ik = (i, key)"
    by (cases p; cases q; cases ik) auto
  have lt: "unat (feistel_round_fn x key half) < unat half" for x
    using h by (simp add: feistel_valid_def feistel_round_fn_lt)
  show "p = q"
    using pq eq add_mod_cancel [OF h _ _ lt, of r r' l] add_mod_cancel [OF h _ _ lt, of l l' r]
    by (cases "even i") (auto simp: feistel_half_round_def residues_def)
qed

lemma feistel_rounds_closed:
  "feistel_valid half \<Longrightarrow> p \<in> residues half \<Longrightarrow> fold (feistel_half_round half) ks p \<in> residues half"
  by (induction ks arbitrary: p) (simp_all add: half_round_closed)

lemma feistel_rounds_inj:
  assumes "feistel_valid half" "p \<in> residues half" "q \<in> residues half"
    and "fold (feistel_half_round half) ks p = fold (feistel_half_round half) ks q"
  shows "p = q"
  using assms(2-4)
proof (induction ks arbitrary: p q)
  case (Cons k ks)
  then have "feistel_half_round half k p = feistel_half_round half k q"
    using half_round_closed [OF assms(1)] by (metis fold_simps(2))
  then show ?case
    using half_round_inj [OF assms(1)] Cons.prems by (metis inj_onD)
qed simp

text \<open>Values below \<open>half\<^sup>2\<close> and pairs of residues correspond.\<close>

definition square :: "u32 \<Rightarrow> u32 set" where
  "square half = {v. unat v < (unat half)\<^sup>2}"

lemma split_residues:
  assumes "feistel_valid half" "v \<in> square half"
  shows "(v div half, v mod half) \<in> residues half"
  using assms
  by (simp add: residues_def square_def feistel_valid_def word_nat power2_eq_square less_mult_imp_div_less)

lemma unat_join:
  assumes h: "feistel_valid half" and p: "(l, r) \<in> residues half"
  shows "unat (l * half + r) = unat l * unat half + unat r"
    and "unat l * unat half + unat r < (unat half)\<^sup>2"
proof -
  have lr: "unat l < unat half" "unat r < unat half" using p by (auto simp: residues_def)
  then have "(unat l + 1) * unat half \<le> unat half * unat half" by (intro mult_le_mono) simp_all
  with lr show sq: "unat l * unat half + unat r < (unat half)\<^sup>2"
    by (simp add: power2_eq_square algebra_simps)
  have "unat half * unat half \<le> 2 ^ 16 * 2 ^ 16"
    using h unfolding feistel_valid_def by (intro mult_le_mono) simp_all
  with sq have lt: "unat l * unat half + unat r < 2 ^ 32" by (simp add: power2_eq_square)
  then have "unat (l * half) = unat l * unat half" by (intro unat_mult_no_wrap) simp
  with lt show "unat (l * half + r) = unat l * unat half + unat r"
    by (subst unat_add_no_wrap) simp_all
qed

lemma join_inj:
  assumes h: "feistel_valid half" and p: "(l, r) \<in> residues half" and q: "(l', r') \<in> residues half"
    and eq: "l * half + r = l' * half + r'"
  shows "(l, r) = (l', r')"
proof -
  have "unat l * unat half + unat r = unat l' * unat half + unat r'"
    using unat_join(1) [OF h p] unat_join(1) [OF h q] eq by simp
  moreover have "(unat l * unat half + unat r) div unat half = unat l"
    "(unat l * unat half + unat r) mod unat half = unat r"
    "(unat l' * unat half + unat r') div unat half = unat l'"
    "(unat l' * unat half + unat r') mod unat half = unat r'"
    using p q by (simp_all add: residues_def)
  ultimately show ?thesis by (metis word_unat_eq_iff)
qed

lemma split_inj:
  fixes v w :: u32
  assumes "v div half = w div half" "v mod half = w mod half"
  shows "v = w"
  using assms by (metis div_mult_mod_eq)

lemma feistel_step_closed:
  assumes "feistel_valid half" "v \<in> square half"
  shows "feistel_step keys half v \<in> square half"
  using feistel_rounds_closed [OF assms(1) split_residues [OF assms], of "enumerate 0 keys"]
    unat_join [OF assms(1)]
  by (auto simp: feistel_step_def square_def split: prod.split)

lemma feistel_step_inj:
  assumes h: "feistel_valid half" and v: "v \<in> square half" and w: "w \<in> square half"
    and eq: "feistel_step keys half v = feistel_step keys half w"
  shows "v = w"
proof -
  let ?F = "fold (feistel_half_round half) (enumerate 0 keys)"
  obtain l r l' r' where F: "?F (v div half, v mod half) = (l, r)" "?F (w div half, w mod half) = (l', r')"
    by fastforce
  have res: "(l, r) \<in> residues half" "(l', r') \<in> residues half"
    using feistel_rounds_closed [OF h split_residues [OF h v]] feistel_rounds_closed [OF h split_residues [OF h w]]
    by (metis F)+
  have "(l, r) = (l', r')"
    using eq F by (intro join_inj [OF h res]) (simp add: feistel_step_def)
  then have "(v div half, v mod half) = (w div half, w mod half)"
    using F by (intro feistel_rounds_inj [OF h split_residues [OF h v] split_residues [OF h w], of "enumerate 0 keys"]) simp
  then show ?thesis by (auto intro: split_inj)
qed

interpretation feistel: cycle_walk
  "\<lambda>(keys, half). feistel_step keys half" "\<lambda>(keys, half). square half" "\<lambda>(keys, half). feistel_valid half"
  by unfold_locales (auto simp: feistel_step_closed intro!: inj_onI dest: feistel_step_inj)

lemma feistel_walk_eq:
  "feistel_walk fuel keys half n v = walk fuel (feistel_step keys half) {..<n} v"
  by (induction fuel arbitrary: v) (simp_all add: Let_def)

section \<open>The permutation of the match indices\<close>

lemma card_lessThan_word: "card {..<(n :: 'a::len word)} = unat n"
proof -
  have "unat ` {..<n} = {..<unat n}"
  proof (intro set_eqI iffI)
    fix i assume "i \<in> {..<unat n}"
    then have "i < unat n" by simp
    moreover from this unat_less_length [of n] have "i < 2 ^ LENGTH('a)" by (rule less_trans)
    then have "unat (of_nat i :: 'a word) = i" by (simp add: unat_of_nat)
    ultimately show "i \<in> unat ` {..<n}"
      by (intro image_eqI [of _ _ "of_nat i"]) (simp_all add: word_less_nat_alt)
  qed (auto simp: word_less_nat_alt)
  moreover have "inj_on unat {..<n}" by (auto intro: inj_onI simp: word_unat_eq_iff)
  ultimately show ?thesis using card_image by (metis card_lessThan)
qed

lemma card_square:
  assumes "feistel_valid half" "unat half \<noteq> 2 ^ 16"
  shows "card (square half) = (unat half)\<^sup>2"
proof -
  have "unat half * unat half \<le> (2 ^ 16 - 1) * (2 ^ 16 - 1)"
    using assms unfolding feistel_valid_def by (intro mult_le_mono) linarith+
  then have "unat (half * half) = (unat half)\<^sup>2" by (simp add: word_nat power2_eq_square)
  then have "square half = {..<half * half}" by (auto simp: square_def word_less_nat_alt)
  then show ?thesis using \<open>unat (half * half) = _\<close> by (simp add: card_lessThan_word)
qed

text \<open>
  Up to 250000 indices the root is at most 500, so at most 998 values lie outside the domain and
  the 1000 passes of the source are enough.
\<close>

lemma feistel_permute_bij:
  assumes "0 < unat n" "unat n \<le> 250000"
  obtains p where "\<And>i. i < n \<Longrightarrow> feistel_permute i n keys = Some (Some (p i))"
    "bij_betw p {..<n} {..<n}"
proof (cases "unat n = 1")
  case True
  then have n: "n = 1" by (simp add: word_unat_eq_iff)
  then have "{..<n} = {0}" by (auto simp: word_less_nat_alt unat_eq_0)
  with n show ?thesis by (intro that [of "\<lambda>_. 0"]) (simp_all add: feistel_permute_def bij_betw_def)
next
  case False
  with assms have n: "1 < unat n" "\<not> n \<le> 1" by (simp_all add: word_le_nat_alt)
  obtain half where half: "isqrt_ceil n = Some half" "1 < unat half"
    "(unat half - 1)\<^sup>2 < unat n" "unat n \<le> (unat half)\<^sup>2"
    using isqrt_ceil_correct [of n] assms n by auto
  have "(unat half - 1)\<^sup>2 < 500\<^sup>2" using half(3) assms(2) by simp
  then have h500: "unat half \<le> 500" using power2_less_imp [of "unat half - 1" 500] by simp
  then have valid: "feistel_valid half" using half(2) by (simp add: feistel_valid_def)
  have D: "{..<n} \<subseteq> square half" using half(4) by (auto simp: square_def word_less_nat_alt)
  have "card (square half - {..<n}) = (unat half)\<^sup>2 - unat n"
    using card_Diff_subset [OF _ D] card_square [OF valid] h500 by (simp add: card_lessThan_word)
  moreover have "(unat half)\<^sup>2 = (unat half - 1)\<^sup>2 + (2 * unat half - 1)"
    using half(2) by (cases "unat half") (simp_all add: power2_eq_square)
  ultimately have out: "card (square half - {..<n}) < 1000" using half(3) h500 by linarith
  define p where "p i = the (walk 1000 (feistel_step keys half) {..<n} i)" for i
  have p: "walk 1000 (feistel_step keys half) {..<n} i = Some (p i)" if "i < n" for i
    using feistel.walk_total [of "(keys, half)" "{..<n}" i 1000] valid D out that by (auto simp: p_def)
  have inj: "inj_on p {..<n}"
  proof (rule inj_onI)
    fix i j assume ij: "i \<in> {..<n}" "j \<in> {..<n}" "p i = p j"
    with p [of i] p [of j] show "i = j"
      using feistel.walk_inj [of "(keys, half)" "{..<n}" i j 1000 "p i"] valid D by simp
  qed
  have "p ` {..<n} \<subseteq> {..<n}" using p by (auto simp: walk_Some_iff)
  then have "bij_betw p {..<n} {..<n}"
    unfolding bij_betw_def using inj endo_inj_surj [of "{..<n}" p] by simp
  moreover have "feistel_permute i n keys = Some (Some (p i))" if "i < n" for i
    using that n half(1) p by (simp add: feistel_permute_def feistel_walk_eq)
  ultimately show ?thesis by (rule that [rotated])
qed

end
