(* ===== verification/Offsets.thy ===== *)
theory Offsets
  imports Feistel
begin

text \<open>
  The cyclic offsets of the large tournaments: Floyd's algorithm (\<open>select_offsets\<close> of
  \<^verbatim>\<open>pairing.rs\<close>) samples distinct offsets in range and never leaves its array, and the offsets give
  every player the same number of pairwise different matches.
\<close>

section \<open>Floyd's sampling\<close>

lemma unat_of_nat_u32: "n < 2 ^ 32 \<Longrightarrow> unat (of_nat n :: u32) = n"
  by (simp add: unat_of_nat)

lemma floyd_loop_sample:
  assumes "count + k \<le> length result" "0 < j" "j + k \<le> 2 ^ 32 - 1"
    and "distinct (take count result)" "\<forall>x\<in>set (take count result). 0 < unat x \<and> unat x < j"
  shows "\<exists>res. floyd_loop [j..<j + k] rng result count = Some (res, count + k) \<and>
    length res = length result \<and> distinct (take (count + k) res) \<and>
    (\<forall>x\<in>set (take (count + k) res). 0 < unat x \<and> unat x < j + k)"
  using assms
proof (induction k arbitrary: j rng result count)
  case 0
  then show ?case by simp
next
  case (Suc k)
  obtain v rng' where v: "next_range rng (of_nat j) = (v, rng')" by fastforce
  have uj: "unat (of_nat j :: u32) = j" using Suc.prems by (simp add: unat_of_nat_u32)
  then have "(of_nat j :: u32) \<noteq> 0" using Suc.prems(2) by (metis unat_0 less_numeral_extra(3))
  with next_range_lt [of "of_nat j" rng] v have vj: "unat v < j"
    by (simp add: word_less_nat_alt uj)
  then have t: "unat (v + 1) = unat v + 1" using Suc.prems(3) by (simp add: word_nat)
  let ?S = "set (take count result)"
  have found: "list_ex (\<lambda>i. result ! i = v + 1) [0..<count] \<longleftrightarrow> v + 1 \<in> ?S"
    using Suc.prems(1) by (auto simp: list_ex_iff in_set_conv_nth)
  define x where "x = (if v + 1 \<in> ?S then of_nat j else v + 1)"
  have "of_nat j \<notin> ?S" using Suc.prems(5) uj by auto
  then have x: "x \<notin> ?S" "0 < unat x" "unat x < Suc j"
    using t vj uj Suc.prems(2) by (auto simp: x_def)
  define res where "res = result[count := x]"
  have take_res: "take (Suc count) res = take count result @ [x]"
    using Suc.prems(1) by (simp add: res_def take_Suc_conv_app_nth)
  have "\<exists>r. floyd_loop [Suc j..<Suc j + k] rng' res (Suc count) = Some (r, Suc count + k) \<and>
    length r = length res \<and> distinct (take (Suc count + k) r) \<and>
    (\<forall>x\<in>set (take (Suc count + k) r). 0 < unat x \<and> unat x < Suc j + k)"
  proof (rule Suc.IH)
    show "Suc count + k \<le> length res" using Suc.prems(1) by (simp add: res_def)
    show "distinct (take (Suc count) res)" using take_res x(1) Suc.prems(4) by simp
    show "\<forall>y\<in>set (take (Suc count) res). 0 < unat y \<and> unat y < Suc j"
      using take_res x Suc.prems(5) by auto
  qed (use Suc.prems in simp_all)
  moreover have "floyd_loop [j..<j + Suc k] rng result count = floyd_loop [Suc j..<Suc j + k] rng' res (Suc count)"
    using Suc.prems(1) by (simp add: upt_conv_Cons v found res_def x_def del: upt_Suc)
  ultimately show ?case by (simp add: res_def)
qed

lemma unat_available:
  assumes "0 < unat n"
  shows "unat (available_offsets n) = (unat n - 1) div 2"
proof (cases "n mod 2 = 0")
  case True
  then have "unat n mod 2 = 0" using unat_mod_word [of n 2] by simp
  moreover from this assms have "1 \<le> n div 2" by (simp add: word_le_nat_alt word_nat) presburger
  ultimately show ?thesis
    using True assms by (simp add: available_offsets_def word_nat) presburger
next
  case False
  then have "unat n mod 2 \<noteq> 0" by (simp add: word_unat_eq_iff word_nat)
  with False show ?thesis by (simp add: available_offsets_def word_nat) presburger
qed

text \<open>The number of offsets in use, as the match count has it.\<close>

definition offset_count :: "u32 \<Rightarrow> u32 \<Rightarrow> nat" where
  "offset_count n k = min ((unat k + 1) div 2) ((unat n - 1) div 2)"

lemma unat_div_ceil_2: "unat (div_ceil k 2) = (unat k + 1) div 2" for k :: u32
  by (simp add: unat_div_ceil)

lemma unat_offsets_to_use:
  "0 < unat n \<Longrightarrow> unat (min (div_ceil k 2) (available_offsets n)) = offset_count n k"
  by (simp add: offset_count_def unat_min_word unat_div_ceil_2 unat_available)

text \<open>The array of 50 bounds the sample, however many matches per player are asked for.\<close>

lemma select_offsets_any:
  assumes "0 < unat n"
  obtains ds rest where "select_offsets n k seed = Some (ds @ rest, length ds)"
    "length ds = min (offset_count n k) 50" "length (ds @ rest) = 50" "sorted ds" "distinct ds"
    "\<forall>d\<in>set ds. 0 < unat d \<and> 2 * unat d < unat n"
proof -
  define m where "m = min (offset_count n k) 50"
  define big_n where "big_n = (unat n - 1) div 2"
  have m: "m \<le> big_n" "m \<le> 50" by (simp_all add: m_def big_n_def offset_count_def)
  have big: "big_n + 1 \<le> 2 ^ 32 - 1" "2 * big_n < unat n"
    using assms unat_less_length [of n] by (simp_all add: big_n_def)
  obtain res where res: "floyd_loop [big_n - m + 1..<big_n + 1] (rng_new seed 0) (replicate 50 0) 0 = Some (res, m)"
    "length res = 50" "distinct (take m res)" "\<forall>x\<in>set (take m res). 0 < unat x \<and> unat x < big_n + 1"
    using floyd_loop_sample [of 0 m "replicate 50 0" "big_n - m + 1" "rng_new seed 0"] m big by auto
  have "unat (min (min (div_ceil k 2) (available_offsets n)) 50) = m"
    using assms by (simp add: unat_min_word [of _ "50 :: u32"] unat_offsets_to_use m_def)
  moreover have "unat (available_offsets n) = big_n" using assms by (simp add: unat_available big_n_def)
  ultimately have "select_offsets n k seed = Some (sort (take m res) @ drop m res, m)"
    using res(1) by (simp add: select_offsets_def Let_def del: upt_Suc)
  then show ?thesis
    using res m(2) big by (intro that [of "sort (take m res)" "drop m res"]) (auto simp: m_def)
qed

lemma select_offsets_sample:
  assumes "0 < unat n" "offset_count n k \<le> 50"
  obtains ds rest where "select_offsets n k seed = Some (ds @ rest, offset_count n k)"
    "length ds = offset_count n k" "sorted ds" "distinct ds"
    "\<forall>d\<in>set ds. 0 < unat d \<and> 2 * unat d < unat n"
proof (rule select_offsets_any [OF assms(1), of k seed])
  fix ds rest
  assume *: "select_offsets n k seed = Some (ds @ rest, length ds)" "length ds = min (offset_count n k) 50"
    "sorted ds" "distinct ds" "\<forall>d\<in>set ds. 0 < unat d \<and> 2 * unat d < unat n"
  from *(2) assms(2) have "length ds = offset_count n k" by simp
  with * show thesis by (intro that [of ds rest]) simp_all
qed

section \<open>The circular schedule on numbers\<close>

definition circ :: "nat \<Rightarrow> nat list \<Rightarrow> nat \<Rightarrow> nat \<times> nat" where
  "circ n ds c =
     (let i = c mod n; j = (i + ds ! (c div n)) mod n in if i < j then (i, j) else (j, i))"

text \<open>Offsets below half of the number of players, all different.\<close>

definition good_offsets :: "nat \<Rightarrow> nat list \<Rightarrow> bool" where
  "good_offsets n ds \<longleftrightarrow> distinct ds \<and> (\<forall>d\<in>set ds. 0 < d \<and> 2 * d < n)"

lemma group_lt: "c < m * n \<Longrightarrow> c div n < (m::nat)"
  by (simp add: less_mult_imp_div_less)

lemma circ_neq:
  assumes "good_offsets n ds" "c < length ds * n"
  shows "(c mod n + ds ! (c div n)) mod n \<noteq> c mod n"
proof
  let ?d = "ds ! (c div n)"
  have "?d \<in> set ds" using group_lt [OF assms(2)] by simp
  with assms(1) have d: "0 < ?d" "?d < n" by (auto simp: good_offsets_def)
  assume "(c mod n + ?d) mod n = c mod n"
  then have "(?d + c mod n) mod n = (0 + c mod n) mod n" by (simp add: add.commute)
  with d show False using add_mod_cancel_nat [of ?d n 0 "c mod n"] by simp
qed

lemma circ_range:
  assumes "good_offsets n ds" "c < length ds * n" "circ n ds c = (a, b)"
  shows "a < b" "b < n"
proof -
  have "0 < n" using assms(2) by (cases n) simp_all
  with circ_neq [OF assms(1,2)] assms(3) show "a < b" "b < n"
    by (auto simp: circ_def Let_def split: if_splits)
qed

lemma ordered_pair_eqD:
  fixes a b c d :: "'a::linorder"
  assumes "(if a < b then (a, b) else (b, a)) = (if c < d then (c, d) else (d, c))"
  shows "a = c \<and> b = d \<or> a = d \<and> b = c"
  using assms by (auto split: if_splits)

lemma circ_inj:
  assumes good: "good_offsets n ds" and c: "c < length ds * n" "c' < length ds * n"
    and eq: "circ n ds c = circ n ds c'"
  shows "c = c'"
proof -
  define g i d g' i' d' where gi: "g = c div n" "i = c mod n" "d = ds ! g" "g' = c' div n" "i' = c' mod n" "d' = ds ! g'"
  have n: "0 < n" using c(1) by (cases n) simp_all
  have g: "g < length ds" "g' < length ds" using c by (simp_all add: gi group_lt)
  have "d \<in> set ds" "d' \<in> set ds" using g by (simp_all add: gi)
  with good have d: "0 < d" "2 * d < n" "0 < d'" "2 * d' < n" by (auto simp: good_offsets_def)
  have i: "i < n" "i' < n" using n by (simp_all add: gi)
  have circ: "circ n ds c = (if i < (i + d) mod n then (i, (i + d) mod n) else ((i + d) mod n, i))"
    "circ n ds c' = (if i' < (i' + d') mod n then (i', (i' + d') mod n) else ((i' + d') mod n, i'))"
    by (simp_all add: circ_def Let_def gi)
  from eq consider (same) "i = i'" "(i + d) mod n = (i' + d') mod n"
    | (cross) "i = (i' + d') mod n" "i' = (i + d) mod n"
    unfolding circ using ordered_pair_eqD by metis
  then show ?thesis
  proof cases
    case same
    then have "(d + i) mod n = (d' + i) mod n" by (simp add: add.commute)
    then have "d = d'" using d by (intro add_mod_cancel_nat [of d n d' i]) simp_all
    then have "g = g'" using good g by (simp add: good_offsets_def gi nth_eq_iff_index_eq)
    have "c = g * n + i" "c' = g' * n + i'" by (simp_all add: gi)
    with same \<open>g = g'\<close> show ?thesis by simp
  next
    case cross
    have "i = ((i + d) mod n + d') mod n" using cross(1) unfolding cross(2) .
    also have "\<dots> = (i + d + d') mod n" by (rule mod_add_left_eq)
    also have "i + d + d' = d + d' + i" by simp
    finally have "(d + d' + i) mod n = i" by (rule sym)
    then have "(d + d' + i) mod n = (0 + i) mod n" using i(1) by (simp only: add_0 mod_less)
    then have "d + d' = 0" using d by (intro add_mod_cancel_nat [of "d + d'" n 0 i]) simp_all
    with d show ?thesis by simp
  qed
qed

text \<open>
  Every player is in two matches per offset: once as the first position and once as the second.
\<close>

definition plays :: "nat \<Rightarrow> nat \<times> nat \<Rightarrow> bool" where
  "plays p = (\<lambda>(a, b). p = a \<or> p = b)"

lemma plays_circ_iff:
  assumes "good_offsets n ds" "c < length ds * n" "p < n"
  shows "plays p (circ n ds c) \<longleftrightarrow> c mod n = p \<or> (c mod n + ds ! (c div n)) mod n = p"
  by (auto simp: plays_def circ_def Let_def)

lemma card_block:
  assumes "\<And>g. g < m \<Longrightarrow> f g < n"
  shows "card {c. c < m * n \<and> c mod n = f (c div n)} = (m::nat)"
proof -
  have "{c. c < m * n \<and> c mod n = f (c div n)} = (\<lambda>g. g * n + f g) ` {..<m}"
  proof (intro set_eqI iffI)
    fix c assume c: "c \<in> {c. c < m * n \<and> c mod n = f (c div n)}"
    then have "c = (c div n) * n + f (c div n)" "c div n < m"
      using group_lt [of c m n] div_mult_mod_eq [of c n] by simp_all
    then show "c \<in> (\<lambda>g. g * n + f g) ` {..<m}" by blast
  next
    fix c assume "c \<in> (\<lambda>g. g * n + f g) ` {..<m}"
    then obtain g where g: "g < m" "c = g * n + f g" by auto
    have "(g + 1) * n \<le> m * n" using g(1) by (intro mult_le_mono) simp_all
    with g assms [OF g(1)] show "c \<in> {c. c < m * n \<and> c mod n = f (c div n)}" by simp
  qed
  moreover have "inj_on (\<lambda>g. g * n + f g) {..<m}"
  proof (rule inj_onI)
    fix g h assume gh: "g \<in> {..<m}" "h \<in> {..<m}" "g * n + f g = h * n + f h"
    have "(g * n + f g) div n = g" "(h * n + f h) div n = h"
      using assms [of g] assms [of h] gh(1,2) by simp_all
    with gh(3) show "g = h" by metis
  qed
  ultimately show ?thesis by (simp add: card_image)
qed

lemma shift_mod_iff:
  fixes i d n p :: nat
  assumes "i < n" "d < n" "p < n"
  shows "(i + d) mod n = p \<longleftrightarrow> i = (p + (n - d)) mod n"
proof
  assume "(i + d) mod n = p"
  then have "(p + (n - d)) mod n = (i + d + (n - d)) mod n" by (simp add: mod_add_left_eq flip: \<open>_ = p\<close>)
  with assms show "i = (p + (n - d)) mod n" by simp
next
  assume "i = (p + (n - d)) mod n"
  then have "(i + d) mod n = (p + (n - d) + d) mod n" by (simp add: mod_add_left_eq)
  with assms show "(i + d) mod n = p" by simp
qed

lemma circ_degree:
  assumes good: "good_offsets n ds" and p: "p < n"
  shows "card {c. c < length ds * n \<and> plays p (circ n ds c)} = 2 * length ds"
proof -
  let ?m = "length ds" and ?f = "\<lambda>g. (p + (n - ds ! g)) mod n"
  let ?A = "{c. c < ?m * n \<and> c mod n = p}" and ?B = "{c. c < ?m * n \<and> c mod n = ?f (c div n)}"
  have second: "(c mod n + ds ! (c div n)) mod n = p \<longleftrightarrow> c mod n = ?f (c div n)" if "c < ?m * n" for c
  proof (rule shift_mod_iff [OF _ _ p])
    show "c mod n < n" using p by simp
    have "ds ! (c div n) \<in> set ds" using group_lt [OF that] by simp
    with good show "ds ! (c div n) < n" by (auto simp: good_offsets_def)
  qed
  have "{c. c < ?m * n \<and> plays p (circ n ds c)} = ?A \<union> ?B"
    using plays_circ_iff [OF good _ p] second by blast
  moreover have "?A \<inter> ?B = {}" using circ_neq [OF good] second by fastforce
  moreover have "card ?A = ?m" using card_block [of ?m "\<lambda>_. p" n] p by simp
  moreover have "card ?B = ?m" using card_block [of ?m ?f n] p by simp
  ultimately show ?thesis by (simp add: card_Un_disjoint)
qed

end
