(* ===== verification/Pairing_Correct.thy ===== *)
theory Pairing_Correct
  imports Offsets
begin

text \<open>
  Correctness of the whole schedule of \<^verbatim>\<open>pairing.rs\<close>. A regular table of matches (pairs in range,
  every player in the same number of matches: the locale \<open>regular_table\<close>) stays regular when its
  indices are permuted, and so does a fair one, which has no pair twice (the locale
  \<open>fair_table\<close>). The round robin repeated any number of times is regular, a single round robin and
  the circular table are fair, and \<open>get_pairing_for_match\<close> reads one of them through the Feistel
  permutation, whatever the numbers of players and of matches per player.
\<close>

section \<open>Fair tables\<close>

definition pairs_below :: "nat \<Rightarrow> (nat \<times> nat) set" where
  "pairs_below n = {(a, b). a < b \<and> b < n}"

text \<open>The opponents a player meets in the first \<open>m\<close> matches of a schedule.\<close>

definition opponents :: "(nat \<Rightarrow> nat \<times> nat) \<Rightarrow> nat \<Rightarrow> nat \<Rightarrow> nat set" where
  "opponents s m p = {q. \<exists>i<m. s i = (p, q) \<or> s i = (q, p)}"

text \<open>
  A regular table has its pairs in range and every player in the same number of matches; a fair
  table moreover has no pair twice. Both survive a permutation of the indices.
\<close>

locale regular_table =
  fixes valid :: "'c \<Rightarrow> bool"
    and players entries degree :: "'c \<Rightarrow> nat"
    and table :: "'c \<Rightarrow> nat \<Rightarrow> nat \<times> nat"
  assumes table_range: "valid c \<Longrightarrow> i < entries c \<Longrightarrow> table c i \<in> pairs_below (players c)"
    and table_degree:
      "valid c \<Longrightarrow> p < players c \<Longrightarrow> card {i. i < entries c \<and> plays p (table c i)} = degree c"
begin

definition shuffle_of :: "'c \<Rightarrow> (nat \<Rightarrow> nat \<times> nat) \<Rightarrow> bool" where
  "shuffle_of c s \<longleftrightarrow> (\<exists>\<pi>. bij_betw \<pi> {..<entries c} {..<entries c} \<and> (\<forall>i<entries c. s i = table c (\<pi> i)))"

lemma shuffle_range: "valid c \<Longrightarrow> shuffle_of c s \<Longrightarrow> i < entries c \<Longrightarrow> s i \<in> pairs_below (players c)"
  unfolding shuffle_of_def by (metis bij_betwE lessThan_iff table_range)

lemma shuffle_count:
  assumes "shuffle_of c s"
  shows "card {i. i < entries c \<and> P (s i)} = card {i. i < entries c \<and> P (table c i)}"
proof -
  obtain \<pi> where \<pi>: "bij_betw \<pi> {..<entries c} {..<entries c}" "\<And>i. i < entries c \<Longrightarrow> s i = table c (\<pi> i)"
    using assms by (auto simp: shuffle_of_def)
  let ?P = "\<lambda>f. {i. i < entries c \<and> P (f i)}"
  have "bij_betw \<pi> (?P s) (?P (table c))"
  proof (rule bij_betw_subset [OF \<pi>(1)])
    show "\<pi> ` ?P s = ?P (table c)"
    proof (intro set_eqI iffI)
      fix j assume j: "j \<in> ?P (table c)"
      then obtain i where "i < entries c" "\<pi> i = j"
        using bij_betw_imp_surj_on [OF \<pi>(1)] by (metis (no_types, lifting) imageE lessThan_iff mem_Collect_eq)
      with j \<pi>(2) show "j \<in> \<pi> ` ?P s" by auto
    qed (use \<pi> bij_betwE [OF \<pi>(1)] in auto)
  qed auto
  then show ?thesis by (rule bij_betw_same_card)
qed

lemma shuffle_degree:
  assumes "valid c" "shuffle_of c s" "p < players c"
  shows "card {i. i < entries c \<and> plays p (s i)} = degree c"
  using shuffle_count [OF assms(2), of "plays p"] table_degree [OF assms(1,3)] by simp

end

locale fair_table = regular_table +
  assumes table_inj: "valid c \<Longrightarrow> i < entries c \<Longrightarrow> j < entries c \<Longrightarrow> table c i = table c j \<Longrightarrow> i = j"
begin

lemma shuffle_inj: "valid c \<Longrightarrow> shuffle_of c s \<Longrightarrow> inj_on s {..<entries c}"
  unfolding shuffle_of_def
  by (rule inj_onI) (metis bij_betwE bij_betw_imp_inj_on inj_on_eq_iff lessThan_iff table_inj)

text \<open>No pair twice: a player meets as many different opponents as it plays matches.\<close>

lemma shuffle_opponents:
  assumes "valid c" "shuffle_of c s" "p < players c"
  shows "card (opponents s (entries c) p) = degree c" "p \<notin> opponents s (entries c) p"
proof -
  let ?I = "{i. i < entries c \<and> plays p (s i)}"
  define other where "other i = (if fst (s i) = p then snd (s i) else fst (s i))" for i
  have range: "fst (s i) < snd (s i)" if "i < entries c" for i
    using shuffle_range [OF assms(1,2) that] by (cases "s i") (simp add: pairs_below_def)
  have "inj_on other ?I"
  proof (rule inj_onI)
    fix i j assume ij: "i \<in> ?I" "j \<in> ?I" "other i = other j"
    then have "s i = s j"
      using range [of i] range [of j]
      by (cases "s i"; cases "s j") (auto simp: plays_def other_def split: if_splits)
    with ij show "i = j" using inj_onD [OF shuffle_inj [OF assms(1,2)], of i j] by simp
  qed
  moreover have "opponents s (entries c) p = other ` ?I"
  proof (intro set_eqI iffI)
    fix q assume "q \<in> opponents s (entries c) p"
    then obtain i where i: "i < entries c" "s i = (p, q) \<or> s i = (q, p)" by (auto simp: opponents_def)
    have "i \<in> ?I" using i by (auto simp: plays_def)
    moreover have "q = other i"
    proof (cases "s i = (p, q)")
      case False
      with i have "s i = (q, p)" by blast
      with range [OF i(1)] show ?thesis by (simp add: other_def)
    qed (simp add: other_def)
    ultimately show "q \<in> other ` ?I" by blast
  next
    fix q assume "q \<in> other ` ?I"
    then obtain i where i: "i < entries c" "plays p (s i)" "q = other i" by auto
    then have "s i = (p, q) \<or> s i = (q, p)" by (cases "s i") (auto simp: plays_def other_def split: if_splits)
    with i(1) show "q \<in> opponents s (entries c) p" by (auto simp: opponents_def)
  qed
  ultimately show "card (opponents s (entries c) p) = degree c"
    using shuffle_degree [OF assms] by (simp add: card_image)
  show "p \<notin> opponents s (entries c) p" using range by (fastforce simp: opponents_def)
qed

end

section \<open>The circular table is fair\<close>

lemma circ_pairs_below:
  assumes "good_offsets n ds" "i < length ds * n"
  shows "circ n ds i \<in> pairs_below n"
proof -
  obtain a b where ab: "circ n ds i = (a, b)" by fastforce
  with circ_range [OF assms ab] show ?thesis by (simp add: pairs_below_def)
qed

type_synonym circular_table = "nat \<times> nat list"

definition circular_valid :: "circular_table \<Rightarrow> bool" where
  "circular_valid = (\<lambda>(n, ds). good_offsets n ds)"

definition circular_entries :: "circular_table \<Rightarrow> nat" where
  "circular_entries = (\<lambda>(n, ds). length ds * n)"

lemmas circular_table_defs = circular_valid_def circular_entries_def split_beta

interpretation circular: fair_table
  circular_valid fst circular_entries "\<lambda>c. 2 * length (snd c)" "\<lambda>c. circ (fst c) (snd c)"
  by unfold_locales (simp_all add: circular_table_defs circ_pairs_below circ_degree circ_inj)

section \<open>The round robin table is fair\<close>

definition unrank_table :: "nat \<Rightarrow> nat \<times> nat" where
  "unrank_table r = (case unrank_pair (of_nat r) of Some (a, b) \<Rightarrow> (unat a, unat b) | None \<Rightarrow> (0, 0))"

definition rank_of :: "nat \<times> nat \<Rightarrow> nat" where
  "rank_of = (\<lambda>(a, b). triangle b + a)"

lemma rank_of_inj:
  assumes "a < b" "a' < b'" "rank_of (a, b) = rank_of (a', b')"
  shows "(a, b) = (a', b')"
proof -
  have "b = b'"
    using assms by (intro triangle_unique [of b "rank_of (a, b)" b']) (auto simp: rank_of_def triangle_Suc)
  with assms(3) show ?thesis by (simp add: rank_of_def)
qed

lemma rank_of_lt:
  assumes "a < b" "b < n"
  shows "rank_of (a, b) < triangle n"
  using assms triangle_mono [of "Suc b" n] by (simp add: rank_of_def triangle_Suc)

lemma unrank_table_rank:
  assumes "r < triangle n" "n \<le> 65536"
  shows "unrank_table r \<in> pairs_below n" "rank_of (unrank_table r) = r"
proof -
  have r: "r < triangle 65536" using assms triangle_mono [of n 65536] by simp
  then have ur: "unat (of_nat r :: u32) = r" by (intro unat_of_nat_u32) (simp add: triangle_def)
  with r obtain a b where ab: "unrank_pair (of_nat r) = Some (a, b)" "a < b" "r = triangle (unat b) + unat a"
    using unrank_pair_correct [of "of_nat r"] by metis
  then have t: "unrank_table r = (unat a, unat b)" by (simp add: unrank_table_def)
  show "rank_of (unrank_table r) = r" unfolding t rank_of_def prod.case by (rule ab(3) [symmetric])
  have "unat b < n"
    using assms(1) ab(3) triangle_mono [of n "unat b"] by (cases "unat b < n") simp_all
  with ab(2) show "unrank_table r \<in> pairs_below n"
    by (simp add: t pairs_below_def word_less_nat_alt)
qed

lemma unrank_table_bij:
  assumes "n \<le> 65536"
  shows "bij_betw unrank_table {..<triangle n} (pairs_below n)"
proof (rule bij_betw_byWitness [where f' = rank_of])
  show "rank_of ` pairs_below n \<subseteq> {..<triangle n}" by (auto simp: pairs_below_def rank_of_lt)
  show "unrank_table ` {..<triangle n} \<subseteq> pairs_below n" using unrank_table_rank(1) assms by auto
  show "\<forall>r\<in>{..<triangle n}. rank_of (unrank_table r) = r" using unrank_table_rank(2) assms by auto
  show "\<forall>ab\<in>pairs_below n. unrank_table (rank_of ab) = ab"
  proof
    fix ab assume "ab \<in> pairs_below n"
    then obtain a b where ab: "ab = (a, b)" "a < b" "b < n" by (auto simp: pairs_below_def)
    obtain a' b' where ab': "unrank_table (rank_of ab) = (a', b')" by fastforce
    note u = unrank_table_rank [of "rank_of ab" n] rank_of_lt [OF ab(2,3)]
    have "rank_of (a', b') = rank_of ab" "a' < b'"
      using u assms unfolding ab' ab(1) [symmetric] by (simp_all add: pairs_below_def)
    then show "unrank_table (rank_of ab) = ab" using rank_of_inj [of a' b' a b] ab unfolding ab' by simp
  qed
qed

lemma card_pairs_with:
  assumes "p < n"
  shows "card {ab \<in> pairs_below n. plays p ab} = n - 1"
proof -
  define f where "f q = (if q < p then (q, p) else (p, q))" for q
  have "{ab \<in> pairs_below n. plays p ab} = f ` ({..<n} - {p})"
    using assms by (auto simp: pairs_below_def plays_def f_def image_iff split: if_splits)
  moreover have "inj_on f ({..<n} - {p})"
    by (auto intro!: inj_onI simp: f_def split: if_splits)
  ultimately show ?thesis using assms by (simp add: card_image)
qed

lemma unrank_table_degree:
  assumes "n \<le> 65536" "p < n"
  shows "card {i. i < triangle n \<and> plays p (unrank_table i)} = n - 1"
proof -
  let ?P = "{i. i < triangle n \<and> plays p (unrank_table i)}"
  note bij = unrank_table_bij [OF assms(1)]
  have "unrank_table ` ?P = {ab \<in> pairs_below n. plays p ab}"
    using bij_betw_imp_surj_on [OF bij] by force
  then have "bij_betw unrank_table ?P {ab \<in> pairs_below n. plays p ab}"
    by (intro bij_betw_subset [OF bij]) auto
  then show ?thesis using assms card_pairs_with [of p n] by (simp add: bij_betw_same_card)
qed

interpretation round_robin: fair_table
  "\<lambda>n. n \<le> 65536" id triangle "\<lambda>n. n - 1" "\<lambda>n. unrank_table"
proof
  show "unrank_table i \<in> pairs_below (id n)" if "n \<le> 65536" "i < triangle n" for n i
    using that by (simp add: unrank_table_rank)
  show "i = j" if "n \<le> 65536" "i < triangle n" "j < triangle n" "unrank_table i = unrank_table j" for n i j
    using that unrank_table_rank(2) by metis
  show "card {i. i < triangle n \<and> plays p (unrank_table i)} = n - 1" if "n \<le> 65536" "p < id n" for n p
    using that by (simp add: unrank_table_degree)
qed

section \<open>The repeated round robin table is regular\<close>

lemma card_mod_block: "card {i. i < m * t \<and> P (i mod t)} = m * card {r. r < t \<and> P r}" for m t :: nat
proof (induction m)
  case (Suc m)
  let ?A = "{i. i < m * t \<and> P (i mod t)}" and ?B = "{r. r < t \<and> P r}"
  have "{i. i < Suc m * t \<and> P (i mod t)} = ?A \<union> (\<lambda>r. m * t + r) ` ?B"
  proof (intro set_eqI iffI)
    fix i assume i: "i \<in> {i. i < Suc m * t \<and> P (i mod t)}"
    show "i \<in> ?A \<union> (\<lambda>r. m * t + r) ` ?B"
    proof (cases "i < m * t")
      case False
      then obtain r where r: "i = m * t + r" by (metis le_Suc_ex not_less)
      with i have "r < t" by simp
      with i r have "P r" by simp
      with r \<open>r < t\<close> show ?thesis by blast
    qed (use i in blast)
  qed auto
  moreover have "?A \<inter> (\<lambda>r. m * t + r) ` ?B = {}" by auto
  moreover have "card ((\<lambda>r. m * t + r) ` ?B) = card ?B" by (rule card_image) (simp add: inj_on_def)
  ultimately show ?case using Suc by (simp add: card_Un_disjoint)
qed simp

type_synonym repeated_table = "nat \<times> nat"

definition repeated_entries :: "repeated_table \<Rightarrow> nat" where
  "repeated_entries = (\<lambda>(n, cycles). cycles * triangle n)"

definition repeated_pair :: "repeated_table \<Rightarrow> nat \<Rightarrow> nat \<times> nat" where
  "repeated_pair = (\<lambda>(n, cycles) i. unrank_table (i mod triangle n))"

lemma triangle_pos_of_less: "i < cycles * triangle n \<Longrightarrow> i mod triangle n < triangle n"
  by (cases "triangle n = 0") simp_all

lemma repeated_degree:
  assumes "n \<le> 65536" "p < n"
  shows "card {i. i < cycles * triangle n \<and> plays p (unrank_table (i mod triangle n))} = cycles * (n - 1)"
  using card_mod_block [of cycles "triangle n" "\<lambda>r. plays p (unrank_table r)"] unrank_table_degree [OF assms] by simp

lemma repeated_range:
  assumes "n \<le> 65536" "i < cycles * triangle n"
  shows "unrank_table (i mod triangle n) \<in> pairs_below n"
  by (rule unrank_table_rank(1) [OF triangle_pos_of_less [OF assms(2)] assms(1)])

lemmas repeated_table_defs = repeated_entries_def repeated_pair_def split_beta

interpretation repeated: regular_table
  "\<lambda>c. fst c \<le> 65536" fst repeated_entries "\<lambda>c. snd c * (fst c - 1)" repeated_pair
  by unfold_locales (simp_all only: repeated_table_defs repeated_range repeated_degree)

text \<open>Every pair is in it once per cycle.\<close>

lemma repeated_pair_count:
  assumes "n \<le> 65536" "ab \<in> pairs_below n"
  shows "card {i. i < repeated_entries (n, cycles) \<and> repeated_pair (n, cycles) i = ab} = cycles"
proof -
  note bij = unrank_table_bij [OF assms(1)]
  have "ab \<in> unrank_table ` {..<triangle n}"
    unfolding bij_betw_imp_surj_on [OF bij] by (rule assms(2))
  then obtain r where r: "r < triangle n" "unrank_table r = ab" by auto
  have "i = r" if "i < triangle n" "unrank_table i = ab" for i
    using inj_onD [OF bij_betw_imp_inj_on [OF bij], of i r] that r by simp
  with r have "{i. i < triangle n \<and> unrank_table i = ab} = {r}" by blast
  then show ?thesis
    using card_mod_block [of cycles "triangle n" "\<lambda>r. unrank_table r = ab"]
    by (simp add: repeated_entries_def repeated_pair_def)
qed

section \<open>The permutation on natural numbers\<close>

lemma word_of_unat_lt:
  fixes n :: "'a::len word"
  assumes "i < unat n"
  shows "unat (of_nat i :: 'a word) = i" "(of_nat i :: 'a word) < n"
proof -
  have "i < 2 ^ LENGTH('a)" using assms unat_less_length [of n] by (rule less_trans)
  then show "unat (of_nat i :: 'a word) = i" by (simp add: unat_of_nat)
  with assms show "(of_nat i :: 'a word) < n" by (simp add: word_less_nat_alt)
qed

lemma less_not_le_word: "(a :: 'a::len word) < b \<Longrightarrow> \<not> b \<le> a"
  by simp

lemma feistel_permute_nat:
  assumes "0 < unat n" "unat n \<le> 250000"
  obtains \<pi> where "bij_betw \<pi> {..<unat n} {..<unat n}"
    "\<And>i. i < unat n \<Longrightarrow> feistel_permute (of_nat i) n keys = Some (Some (of_nat (\<pi> i)))"
proof -
  obtain p where p: "\<And>i. i < n \<Longrightarrow> feistel_permute i n keys = Some (Some (p i))"
    "bij_betw p {..<n} {..<n}"
    using feistel_permute_bij [OF assms] by metis
  define \<pi> where "\<pi> i = unat (p (of_nat i))" for i
  have in_range: "p (of_nat i) < n" if "i < unat n" for i
    using bij_betwE [OF p(2)] word_of_unat_lt(2) [OF that] by simp
  have inj: "inj_on \<pi> {..<unat n}"
  proof (rule inj_onI)
    fix i j assume ij: "i \<in> {..<unat n}" "j \<in> {..<unat n}" "\<pi> i = \<pi> j"
    then have "p (of_nat i) = p (of_nat j)" by (simp add: \<pi>_def word_unat_eq_iff)
    then have "(of_nat i :: u32) = of_nat j"
      using inj_onD [OF bij_betw_imp_inj_on [OF p(2)]] ij word_of_unat_lt(2) [of _ n] by simp
    with ij show "i = j" using word_of_unat_lt(1) [of _ n] by (metis lessThan_iff)
  qed
  moreover have "\<pi> ` {..<unat n} \<subseteq> {..<unat n}"
    using in_range by (auto simp: \<pi>_def word_less_nat_alt)
  ultimately have "bij_betw \<pi> {..<unat n} {..<unat n}"
    unfolding bij_betw_def using endo_inj_surj [of "{..<unat n}" \<pi>] by simp
  moreover have "feistel_permute (of_nat i) n keys = Some (Some (of_nat (\<pi> i)))" if "i < unat n" for i
    using p(1) [OF word_of_unat_lt(2) [OF that]] by (simp add: \<pi>_def)
  ultimately show ?thesis by (rule that)
qed

section \<open>The schedule of the program\<close>

text \<open>The schedule read as a function on numbers.\<close>

definition pairing_at :: "u32 \<Rightarrow> u16 \<Rightarrow> u8 list \<Rightarrow> nat \<Rightarrow> nat \<times> nat" where
  "pairing_at n k seed i =
     (case get_pairing_for_match n k seed (of_nat i) of
        Some (Some (a, b)) \<Rightarrow> (unat a, unat b)
      | _ \<Rightarrow> (0, 0))"

lemma effective_k_round_robin:
  assumes "2 \<le> unat n" "unat n \<le> 200"
  shows "unat (effective_k n k) = unat n - 1"
proof -
  have "unat (n - 1) = unat n - 1" using assms by (simp add: word_nat word_le_nat_alt)
  moreover from this have "unat (ucast (n - 1) :: u16) = unat (n - 1)"
    using assms by (intro unat_ucast_id) simp
  ultimately show ?thesis using assms by (simp add: effective_k_def word_le_nat_alt word_less_nat_alt)
qed

lemma effective_k_circular:
  assumes "200 < unat n"
  shows "effective_k n k = clamp k 49 99" "49 \<le> unat (effective_k n k)" "unat (effective_k n k) \<le> 99"
  using assms by (auto simp: effective_k_def clamp_def word_le_nat_alt word_less_nat_alt)

text \<open>
  The numbers of players and of matches per player for which the schedule can be computed: at least
  two players and one match, no more than 250000 matches in all (so that the limit of the Feistel
  walk is enough) and, when it is circular, no more than fifty offsets.
\<close>

definition cycles :: "u32 \<Rightarrow> u16 \<Rightarrow> nat" where
  "cycles n k = (unat k + (unat n - 1) - 1) div (unat n - 1)"

definition schedulable :: "u32 \<Rightarrow> u16 \<Rightarrow> bool" where
  "schedulable n k \<longleftrightarrow> 2 \<le> unat n \<and> 1 \<le> unat k \<and>
     (if unat n \<le> unat k + 1 then cycles n k * triangle (unat n) \<le> 250000
      else unat k \<le> 100 \<and> (unat k + 1) div 2 * unat n \<le> 250000)"

lemma round_robin_iff: "n \<le> ucast k + 1 \<longleftrightarrow> unat n \<le> unat k + 1" for n :: u32 and k :: u16
  using unat_less_length [of k] by (simp add: word_le_nat_alt word_nat)

lemma cycles_ge:
  assumes "2 \<le> unat n"
  shows "unat k \<le> cycles n k * (unat n - 1)"
proof -
  define d where "d = unat n - 1"
  have "0 < d" using assms by (simp add: d_def)
  then have "unat k \<le> (unat k + d - 1) div d * d"
    using div_mult_mod_eq [of "unat k + d - 1" d] mod_less_divisor [of d "unat k + d - 1"] by linarith
  then show ?thesis by (simp add: cycles_def d_def)
qed

lemma match_count_repeated:
  assumes "schedulable n k" "unat n \<le> unat k + 1"
  shows "unat (calculate_match_count_inner n (ucast k)) = cycles n k * triangle (unat n)"
    "0 < cycles n k" "unat n \<le> 65536"
proof -
  have n: "2 \<le> unat n" "1 \<le> unat k" "cycles n k * triangle (unat n) \<le> 250000"
    using assms by (simp_all add: schedulable_def)
  show le: "unat n \<le> 65536" using assms(2) unat_less_length [of k] by simp
  show "0 < cycles n k" using n(1,2) by (simp add: cycles_def div_greater_zero_iff)
  have n1: "unat (n - 1) = unat n - 1" using n by (simp add: word_nat word_le_nat_alt)
  then have "n - 1 \<noteq> 0" using n by (auto simp: word_unat_eq_iff)
  then have c: "unat (div_ceil (ucast k) (n - 1)) = cycles n k"
    using n n1 by (simp add: unat_div_ceil cycles_def)
  have "\<not> n < 2" "(ucast k :: u32) \<noteq> 0" using n by (auto simp: word_less_nat_alt word_unat_eq_iff)
  moreover have "unat (n * (n - 1) div 2 * div_ceil (ucast k) (n - 1)) = cycles n k * triangle (unat n)"
    using n(3) le c unat_mult_no_wrap [of "n * (n - 1) div 2" "div_ceil (ucast k) (n - 1)"]
    by (simp add: unat_triangle_word mult.commute)
  ultimately show "unat (calculate_match_count_inner n (ucast k)) = cycles n k * triangle (unat n)"
    using assms(2) by (simp add: calculate_match_count_inner_def Let_def round_robin_iff)
qed

lemma match_count_cyclic:
  assumes "schedulable n k" "\<not> unat n \<le> unat k + 1"
  shows "unat (calculate_match_count_inner n (ucast k)) = (unat k + 1) div 2 * unat n"
    "offset_count n (ucast k) = (unat k + 1) div 2"
proof -
  have n: "2 \<le> unat n" "1 \<le> unat k" "(unat k + 1) div 2 * unat n \<le> 250000"
    using assms by (simp_all add: schedulable_def)
  show oc: "offset_count n (ucast k) = (unat k + 1) div 2"
    using assms(2) by (simp add: offset_count_def)
  have u: "unat (min (div_ceil (ucast k) 2) (available_offsets n)) = (unat k + 1) div 2"
    using unat_offsets_to_use [of n "ucast k"] oc n by simp
  have "\<not> n < 2" "(ucast k :: u32) \<noteq> 0" using n by (auto simp: word_less_nat_alt word_unat_eq_iff)
  moreover have "unat (min (div_ceil (ucast k) 2) (available_offsets n) * n) = (unat k + 1) div 2 * unat n"
    using u n(3) by (simp add: word_nat)
  ultimately show "unat (calculate_match_count_inner n (ucast k)) = (unat k + 1) div 2 * unat n"
    using assms(2) by (simp add: calculate_match_count_inner_def Let_def round_robin_iff)
qed

text \<open>
  Both regimes: the schedule is the table of the regime, shuffled by the Feistel permutation, and no
  index of it panics or is skipped.
\<close>

lemma schedule_repeated:
  assumes sch: "schedulable n k" "unat n \<le> unat k + 1"
  shows "repeated.shuffle_of (unat n, cycles n k) (pairing_at n k seed)"
    "i < cycles n k * triangle (unat n) \<Longrightarrow> \<exists>ab. get_pairing_for_match n k seed (of_nat i) = Some (Some ab)"
proof -
  define T where "T = calculate_match_count_inner n (ucast k)"
  note T = match_count_repeated [OF sch, folded T_def]
  define t where "t = triangle (unat n)"
  have "2 \<le> unat n" using sch by (simp add: schedulable_def)
  then have t: "0 < t" using triangle_mono [of 2 "unat n"] by (simp add: t_def triangle_def)
  then have bounds: "0 < unat T" "unat T \<le> 250000"
    using T sch by (simp_all add: t_def schedulable_def)
  obtain \<pi> where \<pi>: "bij_betw \<pi> {..<unat T} {..<unat T}"
    "\<And>i. i < unat T \<Longrightarrow> feistel_permute (of_nat i) T (derive_feistel_keys seed) = Some (Some (of_nat (\<pi> i)))"
    using feistel_permute_nat [OF bounds] by metis
  define cn2 where "cn2 = n * (n - 1) div 2"
  have cn2: "unat cn2 = t" using T(3) by (simp add: cn2_def t_def unat_triangle_word)
  have step: "\<exists>a b. get_pairing_for_match n k seed (of_nat i) = Some (Some (a, b)) \<and>
      unrank_table (\<pi> i mod t) = (unat a, unat b)" if i: "i < unat T" for i
  proof -
    have pi: "\<pi> i < unat T" using bij_betwE [OF \<pi>(1)] i by simp
    define r :: u32 where "r = of_nat (\<pi> i) mod cn2"
    have r: "unat r = \<pi> i mod t" by (simp add: r_def unat_mod_word cn2 word_of_unat_lt(1) [OF pi])
    moreover have "\<pi> i mod t \<le> \<pi> i" by simp
    ultimately have "unat r \<le> 250000" using pi bounds by linarith
    then have "unat r < triangle 65536" by (simp add: triangle_def)
    then obtain a b where ab: "unrank_pair r = Some (a, b)" by (rule unrank_pair_correct)
    have "cn2 \<noteq> 0" using cn2 t by (auto simp: word_unat_eq_iff)
    then have "canonical_to_pair_round_robin (of_nat (\<pi> i)) n = Some (a, b)"
      using ab by (simp add: canonical_to_pair_round_robin_def Let_def r_def flip: cn2_def)
    then have "get_pairing_for_match n k seed (of_nat i) = Some (Some (a, b))"
      using \<pi>(2) [OF i] sch(2) less_not_le_word [OF word_of_unat_lt(2) [OF i]]
      by (simp add: get_pairing_for_match_def Let_def round_robin_iff flip: T_def)
    moreover have "of_nat (\<pi> i mod t) = r" unfolding r [symmetric] by simp
    ultimately show ?thesis using ab by (simp add: unrank_table_def)
  qed
  show "\<exists>ab. get_pairing_for_match n k seed (of_nat i) = Some (Some ab)" if "i < cycles n k * triangle (unat n)"
    using step that unfolding T(1) by blast
  have "\<forall>i<unat T. pairing_at n k seed i = repeated_pair (unat n, cycles n k) (\<pi> i)"
    using step by (fastforce simp: pairing_at_def repeated_pair_def t_def)
  moreover have "repeated_entries (unat n, cycles n k) = unat T" using T(1) by (simp add: repeated_entries_def)
  ultimately show "repeated.shuffle_of (unat n, cycles n k) (pairing_at n k seed)"
    unfolding repeated.shuffle_of_def using \<pi>(1) by auto
qed

lemma schedule_cyclic:
  assumes sch: "schedulable n k" "\<not> unat n \<le> unat k + 1"
  obtains ds where "good_offsets (unat n) ds" "length ds = (unat k + 1) div 2"
    "circular.shuffle_of (unat n, ds) (pairing_at n k seed)"
    "\<And>i. i < (unat k + 1) div 2 * unat n \<Longrightarrow>
       \<exists>ab. get_pairing_for_match n k seed (of_nat i) = Some (Some ab)"
proof -
  define T where "T = calculate_match_count_inner n (ucast k)"
  define m where "m = (unat k + 1) div 2"
  note T = match_count_cyclic [OF sch, folded T_def m_def]
  have n: "2 \<le> unat n" and m: "0 < m" "m \<le> 50" "m * unat n \<le> 250000"
    using sch by (auto simp: m_def schedulable_def)
  then have n': "unat n \<le> 250000" using mult_le_mono1 [of 1 m "unat n"] by linarith
  have bounds: "0 < unat T" "unat T \<le> 250000" using T(1) m n by simp_all
  obtain \<pi> where \<pi>: "bij_betw \<pi> {..<unat T} {..<unat T}"
    "\<And>i. i < unat T \<Longrightarrow> feistel_permute (of_nat i) T (derive_feistel_keys seed) = Some (Some (of_nat (\<pi> i)))"
    using feistel_permute_nat [OF bounds] by metis
  have "0 < unat n" "offset_count n (ucast k) \<le> 50" using T(2) m n by simp_all
  from select_offsets_sample [OF this, of seed, unfolded T(2)]
  obtain ds rest where ds: "select_offsets n (ucast k) seed = Some (ds @ rest, m)" "length ds = m"
    "distinct ds" "\<forall>d\<in>set ds. 0 < unat d \<and> 2 * unat d < unat n"
    by blast
  define es where "es = map unat ds"
  have good: "good_offsets (unat n) es"
    using ds(3,4) by (auto simp: es_def good_offsets_def distinct_map inj_on_def word_unat_eq_iff)
  have step: "\<exists>a b. get_pairing_for_match n k seed (of_nat i) = Some (Some (a, b)) \<and>
      circ (unat n) es (\<pi> i) = (unat a, unat b)" if i: "i < unat T" for i
  proof -
    have pi: "\<pi> i < unat T" using bij_betwE [OF \<pi>(1)] i by simp
    define c :: u32 where "c = of_nat (\<pi> i)"
    have c: "unat c = \<pi> i" unfolding c_def by (rule word_of_unat_lt(1) [OF pi])
    have g: "unat (c div n) < m" using pi T(1) by (simp add: c unat_div_word group_lt)
    define d where "d = ds ! unat (c div n)"
    have "d \<in> set ds" using g ds(2) by (simp add: d_def)
    then have "2 * unat d < unat n" using ds(4) by blast
    moreover have "unat (c mod n) < unat n" using n by (simp add: unat_mod_word)
    ultimately have "unat (c mod n) + unat d < 2 ^ 32" using n' by simp
    then have uj: "unat ((c mod n + d) mod n) = (unat c mod unat n + unat d) mod unat n"
      using n by (simp add: unat_mod_word unat_add_no_wrap)
    have d': "es ! (unat c div unat n) = unat d" using g ds(2) by (simp add: es_def d_def unat_div_word)
    define j where "j = (c mod n + d) mod n"
    define ab where "ab = (if c mod n < j then (c mod n, j) else (j, c mod n))"
    have "n \<noteq> 0" using n by (auto simp: word_unat_eq_iff)
    then have "canonical_to_pair_circular c n ds = Some ab"
      using g ds(2) by (simp add: canonical_to_pair_circular_def Let_def ab_def j_def d_def)
    then have "get_pairing_for_match n k seed (of_nat i) = Some (Some ab)"
      using \<pi>(2) [OF i] sch(2) less_not_le_word [OF word_of_unat_lt(2) [OF i]] ds(1,2)
      by (simp add: get_pairing_for_match_def Let_def round_robin_iff flip: T_def c_def)
    moreover have "circ (unat n) es (\<pi> i) = (unat (fst ab), unat (snd ab))"
      using uj d' by (simp add: circ_def Let_def ab_def j_def word_less_nat_alt unat_mod_word flip: c)
    ultimately show ?thesis by (cases ab) simp
  qed
  show ?thesis
  proof (rule that [OF good])
    show "length es = (unat k + 1) div 2" using ds(2) by (simp add: es_def m_def)
    have "\<forall>i<unat T. pairing_at n k seed i = circ (unat n) es (\<pi> i)"
      using step by (fastforce simp: pairing_at_def)
    moreover have "circular_entries (unat n, es) = unat T"
      using T(1) ds(2) by (simp add: circular_entries_def es_def)
    ultimately show "circular.shuffle_of (unat n, es) (pairing_at n k seed)"
      unfolding circular.shuffle_of_def using \<pi>(1) by auto
    show "\<exists>ab. get_pairing_for_match n k seed (of_nat i) = Some (Some ab)"
      if "i < (unat k + 1) div 2 * unat n" for i
      using step [of i] that T(1) by (auto simp: m_def)
  qed
qed

section \<open>The whole list of pairings\<close>

lemma filter_map_panic_cong:
  "(\<And>x. x \<in> set xs \<Longrightarrow> f x = g x) \<Longrightarrow> filter_map_panic f xs = filter_map_panic g xs"
  by (induction xs) simp_all

lemma filter_map_panic_total:
  "(\<And>x. x \<in> set xs \<Longrightarrow> f x = Some (Some (h x))) \<Longrightarrow> filter_map_panic f xs = Some (map h xs)"
  by (induction xs) simp_all

lemma generate_all_pairings_unfold:
  assumes "2 \<le> n" "tot = calculate_match_count_inner n (ucast k)" "tot \<noteq> 0"
    and "\<not> n \<le> ucast k + 1 \<Longrightarrow> select_offsets n (ucast k) seed \<noteq> None"
  shows "generate_all_pairings n k seed =
    filter_map_panic (get_pairing_for_match n k seed) (map of_nat [0..<unat tot])"
proof -
  have lt: "\<not> tot \<le> i" if "i \<in> set (map of_nat [0..<unat tot])" for i
    using that less_not_le_word [OF word_of_unat_lt(2) [of _ tot]] by auto
  have "\<not> n < 2" using assms(1) by simp
  then show ?thesis
    using assms(2-) lt
    by (auto simp: generate_all_pairings_def get_pairing_for_match_def Let_def
        simp del: set_map set_upt intro!: filter_map_panic_cong)
qed

lemma match_count_pos:
  assumes "schedulable n k"
  shows "0 < unat (calculate_match_count n k seed)"
proof (cases "unat n \<le> unat k + 1")
  case True
  have "triangle 2 \<le> triangle (unat n)" using assms by (intro triangle_mono) (simp add: schedulable_def)
  then show ?thesis
    using match_count_repeated(1,2) [OF assms True] by (simp add: calculate_match_count_def triangle_def)
next
  case False
  then show ?thesis
    using match_count_cyclic(1) [OF assms False] assms by (simp add: calculate_match_count_def schedulable_def)
qed

lemma pairing_total:
  assumes "schedulable n k" "i < unat (calculate_match_count n k seed)"
  shows "\<exists>a b. get_pairing_for_match n k seed (of_nat i) = Some (Some (a, b)) \<and> a < b \<and> b < n"
proof -
  have "(\<exists>ab. get_pairing_for_match n k seed (of_nat i) = Some (Some ab)) \<and>
      pairing_at n k seed i \<in> pairs_below (unat n)"
  proof (cases "unat n \<le> unat k + 1")
    case True
    note T = match_count_repeated [OF assms(1) True]
    note s = schedule_repeated [OF assms(1) True, where seed = seed]
    have i: "i < cycles n k * triangle (unat n)" using assms(2) T(1) by (simp add: calculate_match_count_def)
    then show ?thesis
      using s(2) [OF i] repeated.shuffle_range [OF _ s(1), of i] T(3) by (simp add: repeated_entries_def)
  next
    case False
    obtain ds where ds: "good_offsets (unat n) ds" "length ds = (unat k + 1) div 2"
      "circular.shuffle_of (unat n, ds) (pairing_at n k seed)"
      "\<And>i. i < (unat k + 1) div 2 * unat n \<Longrightarrow> \<exists>ab. get_pairing_for_match n k seed (of_nat i) = Some (Some ab)"
      using schedule_cyclic [OF assms(1) False] by blast
    have i: "i < (unat k + 1) div 2 * unat n"
      using assms(2) match_count_cyclic(1) [OF assms(1) False] by (simp add: calculate_match_count_def)
    then show ?thesis
      using ds(4) [OF i] circular.shuffle_range [OF _ ds(3), of i] ds(1,2) by (simp add: circular_table_defs)
  qed
  then show ?thesis by (auto simp: pairing_at_def pairs_below_def word_less_nat_alt)
qed

lemma generate_all_pairings_total:
  assumes "schedulable n k"
  shows "generate_all_pairings n k seed =
    Some (map (\<lambda>i. the (the (get_pairing_for_match n k seed (of_nat i)))) [0..<unat (calculate_match_count n k seed)])"
proof -
  let ?T = "calculate_match_count n k seed"
  have n: "2 \<le> unat n" using assms by (simp add: schedulable_def)
  have "select_offsets n (ucast k) seed \<noteq> None" if "\<not> n \<le> ucast k + 1"
  proof -
    have c: "\<not> unat n \<le> unat k + 1" using that by (simp add: round_robin_iff)
    have "0 < unat n" "offset_count n (ucast k) \<le> 50"
      using match_count_cyclic(2) [OF assms c] assms c by (auto simp: schedulable_def)
    then obtain r where "select_offsets n (ucast k) seed = Some r" using select_offsets_sample by metis
    then show ?thesis by simp
  qed
  then have "generate_all_pairings n k seed = filter_map_panic (get_pairing_for_match n k seed) (map of_nat [0..<unat ?T])"
    using n match_count_pos [OF assms, of seed]
    by (intro generate_all_pairings_unfold) (auto simp: calculate_match_count_def word_le_nat_alt)
  also have "\<dots> = Some (map (\<lambda>j. the (the (get_pairing_for_match n k seed j))) (map of_nat [0..<unat ?T]))"
    using pairing_total [OF assms] by (intro filter_map_panic_total) fastforce
  finally show ?thesis by (simp add: comp_def)
qed

section \<open>Counting in the list of pairings\<close>

definition match_degree :: "u32 \<Rightarrow> u16 \<Rightarrow> nat" where
  "match_degree n k =
     (if unat n \<le> unat k + 1 then cycles n k * (unat n - 1) else 2 * ((unat k + 1) div 2))"

text \<open>Every player gets the matches asked for, and less than one more round of them.\<close>

lemma match_degree_bounds:
  assumes "2 \<le> unat n" "1 \<le> unat k"
  shows "unat k \<le> match_degree n k" "match_degree n k < unat k + unat n - 1"
proof -
  define d where "d = unat n - 1"
  have "cycles n k * d \<le> unat k + d - 1" by (simp add: cycles_def d_def div_times_less_eq_dividend)
  moreover have "unat k + d - 1 < unat k + unat n - 1" using assms by (simp add: d_def)
  ultimately show "unat k \<le> match_degree n k" "match_degree n k < unat k + unat n - 1"
    using cycles_ge [OF assms(1), of k] assms by (auto simp: match_degree_def d_def)
qed

lemma pairing_nth:
  assumes "schedulable n k" "generate_all_pairings n k seed = Some ps"
  shows "length ps = unat (calculate_match_count n k seed)"
    and "i < length ps \<Longrightarrow> get_pairing_for_match n k seed (of_nat i) = Some (Some (ps ! i))"
    and "i < length ps \<Longrightarrow> fst (ps ! i) < snd (ps ! i) \<and> snd (ps ! i) < n"
    and "i < length ps \<Longrightarrow> pairing_at n k seed i = map_prod unat unat (ps ! i)"
proof -
  have ps: "ps = map (\<lambda>i. the (the (get_pairing_for_match n k seed (of_nat i)))) [0..<unat (calculate_match_count n k seed)]"
    using assms generate_all_pairings_total by simp
  then show "length ps = unat (calculate_match_count n k seed)" by simp
  have "\<exists>a b. get_pairing_for_match n k seed (of_nat i) = Some (Some (a, b)) \<and> a < b \<and> b < n \<and> ps ! i = (a, b)"
    if "i < length ps" for i
    using pairing_total [OF assms(1), of i seed] that by (auto simp: ps)
  then show "i < length ps \<Longrightarrow> get_pairing_for_match n k seed (of_nat i) = Some (Some (ps ! i))"
    "i < length ps \<Longrightarrow> fst (ps ! i) < snd (ps ! i) \<and> snd (ps ! i) < n"
    "i < length ps \<Longrightarrow> pairing_at n k seed i = map_prod unat unat (ps ! i)"
    by (fastforce simp: pairing_at_def)+
qed

lemma plays_map_prod: "plays (unat p) (map_prod unat unat ab) \<longleftrightarrow> p = fst ab \<or> p = snd ab"
  by (cases ab) (auto simp: plays_def word_unat_eq_iff)

lemma length_filter_schedule:
  assumes "schedulable n k" "generate_all_pairings n k seed = Some ps"
    and "\<And>ab. Q ab \<longleftrightarrow> P (map_prod unat unat ab)"
  shows "length (filter Q ps) = card {i. i < unat (calculate_match_count n k seed) \<and> P (pairing_at n k seed i)}"
proof -
  have "{i. i < length ps \<and> Q (ps ! i)} = {i. i < unat (calculate_match_count n k seed) \<and> P (pairing_at n k seed i)}"
    using pairing_nth [OF assms(1,2)] assms(3) by auto
  then show ?thesis by (simp add: length_filter_conv_card)
qed

lemma matches_of_player:
  assumes sch: "schedulable n k" and ps: "generate_all_pairings n k seed = Some ps" and "p < n"
  shows "length (filter (\<lambda>ab. p = fst ab \<or> p = snd ab) ps) = match_degree n k"
proof -
  have p: "unat p < unat n" using assms(3) by (simp add: word_less_nat_alt)
  have "length (filter (\<lambda>ab. p = fst ab \<or> p = snd ab) ps) =
      card {i. i < unat (calculate_match_count n k seed) \<and> plays (unat p) (pairing_at n k seed i)}"
    by (rule length_filter_schedule [OF sch ps]) (simp add: plays_map_prod)
  also have "\<dots> = match_degree n k"
  proof (cases "unat n \<le> unat k + 1")
    case True
    note T = match_count_repeated [OF sch True]
    show ?thesis
      using repeated.shuffle_degree [OF _ schedule_repeated(1) [OF sch True], of "unat p" seed] p T True
      by (simp add: match_degree_def calculate_match_count_def repeated_entries_def)
  next
    case False
    obtain ds where ds: "good_offsets (unat n) ds" "length ds = (unat k + 1) div 2"
      "circular.shuffle_of (unat n, ds) (pairing_at n k seed)"
      by (rule schedule_cyclic [OF sch False, of seed])
    then show ?thesis
      using circular.shuffle_degree [OF _ ds(3), of "unat p"] p match_count_cyclic(1) [OF sch False] False
      by (simp add: match_degree_def calculate_match_count_def circular_table_defs)
  qed
  finally show ?thesis .
qed

text \<open>In a round robin every pair meets once per cycle, in a circular schedule no pair meets twice.\<close>

lemma matches_of_pair:
  assumes sch: "schedulable n k" "unat n \<le> unat k + 1" and ps: "generate_all_pairings n k seed = Some ps"
    and ab: "a < b" "b < n"
  shows "count_list ps (a, b) = cycles n k"
proof -
  note T = match_count_repeated [OF sch]
  let ?P = "\<lambda>xy. xy = (unat a, unat b)"
  have "count_list ps (a, b) = length (filter ((=) (a, b)) ps)"
    by (induction ps) auto
  also have "\<dots> = card {i. i < unat (calculate_match_count n k seed) \<and> ?P (pairing_at n k seed i)}"
    by (rule length_filter_schedule [OF sch(1) ps]) (auto simp: word_unat_eq_iff)
  also have "\<dots> = card {i. i < repeated_entries (unat n, cycles n k) \<and> ?P (pairing_at n k seed i)}"
    using T(1) by (simp add: calculate_match_count_def repeated_entries_def)
  also have "\<dots> = cycles n k"
    unfolding repeated.shuffle_count [OF schedule_repeated(1) [OF sch], where P = ?P]
    by (rule repeated_pair_count) (use T ab in \<open>simp_all add: pairs_below_def word_less_nat_alt\<close>)
  finally show ?thesis .
qed

lemma distinct_circular:
  assumes sch: "schedulable n k" "\<not> unat n \<le> unat k + 1" and ps: "generate_all_pairings n k seed = Some ps"
  shows "distinct ps"
proof -
  obtain ds where ds: "good_offsets (unat n) ds" "length ds = (unat k + 1) div 2"
    "circular.shuffle_of (unat n, ds) (pairing_at n k seed)"
    by (rule schedule_cyclic [OF sch, of seed])
  have "inj_on (pairing_at n k seed) {..<length ps}"
    using circular.shuffle_inj [OF _ ds(3)] ds(1,2) match_count_cyclic(1) [OF sch] pairing_nth(1) [OF sch(1) ps]
    by (simp add: circular_table_defs calculate_match_count_def)
  then show ?thesis
    using pairing_nth(4) [OF sch(1) ps] by (auto simp: distinct_conv_nth inj_on_def)
qed

section \<open>The program's own number of matches\<close>

lemma cycles_round_robin: "2 \<le> unat n \<Longrightarrow> unat k = unat n - 1 \<Longrightarrow> cycles n k = 1"
  by (auto simp: cycles_def intro!: div_nat_eqI)

lemma schedulable_effective:
  assumes "2 \<le> unat n" "unat n \<le> 5000"
  shows "schedulable n (effective_k n k)"
proof (cases "unat n \<le> 200")
  case True
  note k = effective_k_round_robin [OF assms(1) True, of k]
  have "triangle (unat n) \<le> triangle 200" using True by (rule triangle_mono)
  then show ?thesis
    using cycles_round_robin [OF assms(1) k] k assms by (simp add: schedulable_def triangle_def)
next
  case False
  then have n: "200 < unat n" by simp
  note k = effective_k_circular(2,3) [OF n, of k]
  have "(unat (effective_k n k) + 1) div 2 * unat n \<le> 50 * 5000"
    using k assms(2) by (intro mult_le_mono) simp_all
  then show ?thesis using k n by (simp add: schedulable_def)
qed

lemma effective_regime: "2 \<le> unat n \<Longrightarrow> unat n \<le> unat (effective_k n k) + 1 \<longleftrightarrow> unat n \<le> 200"
  using effective_k_round_robin [of n k] effective_k_circular(3) [of n k] by (cases "unat n \<le> 200") simp_all

lemma schedule_round_robin:
  assumes "2 \<le> unat n" "unat n \<le> 200"
  shows "round_robin.shuffle_of (unat n) (pairing_at n (effective_k n k) seed)"
proof -
  note s = schedule_repeated(1) [OF schedulable_effective [OF assms(1), of k], of seed]
  have c: "cycles n (effective_k n k) = 1"
    by (rule cycles_round_robin [OF assms(1) effective_k_round_robin [OF assms]])
  have "repeated.shuffle_of (unat n, 1) (pairing_at n (effective_k n k) seed)"
    using s assms effective_regime [OF assms(1), of k] by (simp add: c)
  then obtain \<pi> where \<pi>: "bij_betw \<pi> {..<triangle (unat n)} {..<triangle (unat n)}"
    "\<And>i. i < triangle (unat n) \<Longrightarrow> pairing_at n (effective_k n k) seed i = unrank_table (\<pi> i mod triangle (unat n))"
    unfolding repeated.shuffle_of_def by (auto simp: repeated_table_defs)
  have "\<pi> i mod triangle (unat n) = \<pi> i" if "i < triangle (unat n)" for i
    using bij_betwE [OF \<pi>(1)] that by simp
  with \<pi> show ?thesis unfolding round_robin.shuffle_of_def by auto
qed

lemma schedule_circular:
  assumes "200 < unat n" "unat n \<le> 5000"
  obtains ds where "good_offsets (unat n) ds" "length ds = (unat (clamp k 49 99) + 1) div 2"
    "circular.shuffle_of (unat n, ds) (pairing_at n (effective_k n k) seed)"
proof -
  have n: "2 \<le> unat n" and big: "\<not> unat n \<le> unat (effective_k n k) + 1"
    using assms(1) effective_regime [of n k] by simp_all
  obtain ds where "good_offsets (unat n) ds" "length ds = (unat (effective_k n k) + 1) div 2"
    "circular.shuffle_of (unat n, ds) (pairing_at n (effective_k n k) seed)"
    by (rule schedule_cyclic [OF schedulable_effective [OF n assms(2)] big, of seed])
  then show ?thesis using effective_k_circular(1) [OF assms(1), of k] by (intro that) simp_all
qed

lemma match_count_effective:
  assumes "2 \<le> unat n" "unat n \<le> 5000"
  shows "unat (calculate_match_count n (effective_k n k) seed) =
    (if unat n \<le> 200 then unat n * (unat n - 1) div 2
     else (unat (clamp k 49 99) + 1) div 2 * unat n)"
    "calculate_match_count n (effective_k n k) seed \<noteq> 0"
proof -
  note sch = schedulable_effective [OF assms, of k]
  note regime = effective_regime [OF assms(1), of k]
  show "unat (calculate_match_count n (effective_k n k) seed) =
    (if unat n \<le> 200 then unat n * (unat n - 1) div 2
     else (unat (clamp k 49 99) + 1) div 2 * unat n)"
  proof (cases "unat n \<le> 200")
    case True
    with match_count_repeated(1) [OF sch] regime cycles_round_robin [OF assms(1) effective_k_round_robin [OF assms(1) True]]
    show ?thesis by (simp add: calculate_match_count_def triangle_def)
  next
    case False
    with match_count_cyclic(1) [OF sch] regime effective_k_circular(1) [of n k]
    show ?thesis by (simp add: calculate_match_count_def)
  qed
  show "calculate_match_count n (effective_k n k) seed \<noteq> 0" using match_count_pos [OF sch, of seed] by auto
qed

lemma schedule_total:
  assumes "2 \<le> unat n" "unat n \<le> 5000" "i < unat (calculate_match_count n (effective_k n k) seed)"
  shows "\<exists>a b. get_pairing_for_match n (effective_k n k) seed (of_nat i) = Some (Some (a, b)) \<and> a < b \<and> b < n"
  by (rule pairing_total [OF schedulable_effective [OF assms(1,2)] assms(3)])

lemmas generate_all_pairings_schedule = generate_all_pairings_total [OF schedulable_effective]

section \<open>Pairs in range for every number of players\<close>

text \<open>
  Whatever the number of players, a pairing that is returned names two different players in range;
  the condition holds for the number of matches per player that the program sets.
\<close>

definition degree_ok :: "u32 \<Rightarrow> u16 \<Rightarrow> bool" where
  "degree_ok n k \<longleftrightarrow> unat n \<le> unat k + 1 \<or> unat k \<le> 99"

lemma degree_ok_effective: "degree_ok n (effective_k n k)"
proof (cases "2 \<le> unat n")
  case True
  then show ?thesis
    using effective_k_round_robin [of n k] effective_k_circular(3) [of n k]
    by (cases "unat n \<le> 200") (auto simp: degree_ok_def)
next
  case False
  then have "n < 2" by (simp add: word_less_nat_alt)
  then show ?thesis by (simp add: degree_ok_def effective_k_def)
qed

lemma circular_pair_lt:
  assumes "canonical_to_pair_circular c n (map of_nat ds) = Some (a, b)" "unat n < 2 ^ 31"
    and "\<And>d. d \<in> set ds \<Longrightarrow> 0 < d \<and> 2 * d < unat n"
  shows "a < b" "b < n"
proof -
  have n0: "n \<noteq> 0" and g: "unat (c div n) < length ds"
    using assms(1) by (auto simp: canonical_to_pair_circular_def Let_def split: if_splits)
  define d where "d = ds ! unat (c div n)"
  have d: "0 < d" "2 * d < unat n" using assms(3) g by (auto simp: d_def)
  define i where "i = c mod n"
  define j where "j = (i + of_nat d) mod n"
  have np: "0 < unat n" using n0 by (simp add: unat_gt_0)
  have i: "unat i < unat n" using np by (simp add: i_def unat_mod_word)
  have ud: "unat (of_nat d :: u32) = d" using d assms(2) by (simp add: unat_of_nat)
  have "unat i + d < 2 ^ 32" using i d assms(2) by simp
  then have uj: "unat j = (unat i + d) mod unat n"
    using ud by (simp add: j_def unat_mod_word unat_add_no_wrap)
  have "unat j \<noteq> unat i"
  proof
    assume "unat j = unat i"
    then have "(d + unat i) mod unat n = (0 + unat i) mod unat n" using uj i by (simp add: add.commute)
    with d show False using add_mod_cancel_nat [of d "unat n" 0 "unat i"] by simp
  qed
  moreover have "unat j < unat n" using uj np by simp
  moreover have "(a, b) = (if i < j then (i, j) else (j, i))"
    using assms(1) g n0 by (auto simp: canonical_to_pair_circular_def Let_def i_def j_def d_def split: if_splits)
  ultimately show "a < b" "b < n" using i by (auto simp: word_less_nat_alt split: if_splits)
qed

lemma pairing_distinct:
  assumes get: "get_pairing_for_match n k seed i = Some (Some (a, b))" and deg: "degree_ok n k"
    and n: "unat n \<le> 65535"
  shows "a < b" "b < n"
proof -
  let ?F = "feistel_permute i (calculate_match_count_inner n (ucast k)) (derive_feistel_keys seed)"
  have lt: "\<not> calculate_match_count_inner n (ucast k) \<le> i"
    using get by (auto simp: get_pairing_for_match_def Let_def)
  obtain x where x: "?F = Some x" using get lt by (cases ?F) (simp_all add: get_pairing_for_match_def Let_def)
  obtain c where x': "x = Some c" using get lt x by (cases x) (simp_all add: get_pairing_for_match_def Let_def)
  have c: "n \<le> ucast k + 1 \<and> canonical_to_pair_round_robin c n = Some (a, b) \<or>
      \<not> n \<le> ucast k + 1 \<and> (\<exists>offsets count. select_offsets n (ucast k) seed = Some (offsets, count) \<and>
        canonical_to_pair_circular c n (take count offsets) = Some (a, b))"
    using get lt x x' by (auto simp: get_pairing_for_match_def Let_def bind_eq_Some_conv split: if_splits)
  have "a < b \<and> b < n"
  proof (cases "n \<le> ucast k + 1")
    case True
    then have u: "unrank_pair (c mod (n * (n - 1) div 2)) = Some (a, b)" and nz: "n * (n - 1) div 2 \<noteq> 0"
      using c by (auto simp: canonical_to_pair_round_robin_def Let_def split: if_splits)
    define r where "r = c mod (n * (n - 1) div 2)"
    have t: "unat (n * (n - 1) div 2) = triangle (unat n)" using n by (simp add: unat_triangle_word)
    have "0 < unat (n * (n - 1) div 2)" using unat_gt_0 nz by blast
    then have r: "unat r < triangle (unat n)" unfolding r_def unat_mod_word t by simp
    also have "\<dots> \<le> triangle 65536" using n by (intro triangle_mono) simp
    finally obtain a' b' where "unrank_pair r = Some (a', b')" "a' < b'" "unat r = triangle (unat b') + unat a'"
      by (rule unrank_pair_correct)
    then have ab: "a < b" "unat r = triangle (unat b) + unat a" using u by (simp_all add: r_def)
    have "unat b < unat n"
      using r ab(2) triangle_mono [of "unat n" "unat b"] by (cases "unat b < unat n") simp_all
    with ab(1) show ?thesis by (simp add: word_less_nat_alt)
  next
    case False
    have "unat (ucast k + 1 :: u32) = unat k + 1"
      using unat_less_length [of k] by (simp add: word_nat)
    with False have kn: "unat k + 1 < unat n" by (simp add: word_le_nat_alt)
    then have "unat k \<le> 99" using deg by (simp add: degree_ok_def)
    then have oc: "0 < unat n" "offset_count n (ucast k) \<le> 50" using kn by (simp_all add: offset_count_def)
    obtain ds rest where ds: "select_offsets n (ucast k) seed = Some (ds @ rest, offset_count n (ucast k))"
      "length ds = offset_count n (ucast k)" "sorted ds" "distinct ds"
      "\<forall>d\<in>set ds. 0 < unat d \<and> 2 * unat d < unat n"
      by (rule select_offsets_sample [OF oc, of seed])
    have "canonical_to_pair_circular c n (map of_nat (map unat ds)) = Some (a, b)"
      using c False ds(1,2) by (simp add: comp_def)
    then show ?thesis using circular_pair_lt [of c n "map unat ds" a b] n ds(5) by auto
  qed
  then show "a < b" "b < n" by simp_all
qed

end
