(* ===== verification/Match_Properties.thy ===== *)
theory Match_Properties
  imports Rng_Seeds Rng_Fixpoint Pairing_Correct
begin

text \<open>
  The properties of the match library: the bytecode machine and its validator, whole matches, the
  random numbers, and the schedule of a tournament. Every theorem is stated over the definitions
  that model the sources and rests on the lemmas of the component theories.
\<close>

section \<open>Assembling programs\<close>

definition assemble :: "instr list \<Rightarrow> u8 list" where
  "assemble is = concat (map instr_bytes is)"

text \<open>The instructions of a program with their offsets.\<close>

fun with_offsets :: "nat \<Rightarrow> instr list \<Rightarrow> (nat \<times> instr) list" where
  "with_offsets pc [] = []"
| "with_offsets pc (i # is) = (pc, i) # with_offsets (pc + length (instr_bytes i)) is"

lemma assemble_simps [simp]:
  "assemble [] = []" "assemble (i # is) = instr_bytes i @ assemble is"
  by (simp_all add: assemble_def)

lemma disassemble_instr:
  "disassemble pc (instr_bytes i @ cs) =
     map_option ((#) (pc, i)) (disassemble (pc + length (instr_bytes i)) cs)"
proof -
  obtain c rest where c: "instr_bytes i @ cs = c # rest"
    using instr_bytes_pos [of i] by (cases "instr_bytes i") auto
  have "length (c # rest) - length cs = length (instr_bytes i)"
    by (simp flip: c)
  then show ?thesis
    using decode_instr_bytes [of i cs] unfolding c disassemble.simps by simp
qed

lemma disassemble_assemble: "disassemble pc (assemble is) = Some (with_offsets pc is)"
  by (induction "is" arbitrary: pc) (simp_all add: disassemble_instr)

lemma assemble_Nil_iff: "assemble is = [] \<longleftrightarrow> is = []"
  by (cases "is") (use instr_bytes_pos in auto)

lemma snd_with_offsets: "map snd (with_offsets pc is) = is"
  by (induction "is" arbitrary: pc) simp_all

lemma list_ex_with_offsets: "list_ex (\<lambda>x. P (snd x)) (with_offsets pc is) \<longleftrightarrow> list_ex P is"
  by (induction "is" arbitrary: pc) simp_all

section \<open>The bytecode machine\<close>

text \<open>
  C22. Running a program of a legal length is running the abstract machine, which has neither fuel
  nor a fixed array for its stack: the limit of 128 instructions is never what stops a program, and
  whatever goes wrong (an unknown opcode, a missing operand, a stack over- or underflow, the end of
  the code) makes the player cooperate.
\<close>

theorem execute_bytecode_refines:
  assumes "length code \<le> MAX_BYTECODE_LEN"
  shows "execute_bytecode code opp my round rng =
    (let (r, rng') = run_code opp my round code [] rng
     in (case r of Some m \<Rightarrow> m | None \<Rightarrow> Cooperate, rng'))"
proof -
  have "length code \<le> MAX_FUEL" using assms by (simp add: MAX_BYTECODE_LEN_def MAX_FUEL_def)
  then show ?thesis by (simp add: execute_bytecode_def execute_inner_run_code)
qed

theorem execute_bytecode_refines_witness:
  "length grim_trigger_code \<le> MAX_BYTECODE_LEN \<and>
   fst (execute_bytecode grim_trigger_code [Defect, Cooperate] [Cooperate, Cooperate] 2 \<lparr>rng_state = 7\<rparr>) = Defect"
proof
  show len: "length grim_trigger_code \<le> MAX_BYTECODE_LEN"
    by (simp add: grim_trigger_code_def MAX_BYTECODE_LEN_def)
  have "fst (run_code [Defect, Cooperate] [Cooperate, Cooperate] 2 grim_trigger_code [] \<lparr>rng_state = 7\<rparr>) = Some Defect"
    by (simp add: grim_trigger_code_def vm_run count_defects_def)
  then show "fst (execute_bytecode grim_trigger_code [Defect, Cooperate] [Cooperate, Cooperate] 2 \<lparr>rng_state = 7\<rparr>) = Defect"
    by (simp add: execute_bytecode_refines [OF len] split_beta)
qed

text \<open>
  C23. The validator accepts exactly the programs of one to 64 bytes that disassemble completely, all
  of whose jumps stay inside the program or end right behind it, and that have a terminal
  instruction somewhere.
\<close>

theorem validate_bytecode_accepts_iff:
  "validate_bytecode code = Inr () \<longleftrightarrow>
     code \<noteq> [] \<and> length code \<le> 64 \<and>
     (\<exists>is. disassemble 0 code = Some is \<and> list_all (jump_ok (length code)) is \<and>
           list_ex (\<lambda>x. is_terminal (snd x)) is)"
  by (auto simp: validate_bytecode_iff well_formed_def MAX_BYTECODE_LEN_def split: option.splits)

text \<open>
  Assembling and validating: the bytes of a list of instructions are accepted exactly when there
  is an instruction, the bytes fit, every jump fits and one instruction is terminal. So every
  sensible program can be entered, and what is validated is what was assembled.
\<close>

lemma validate_assembled:
  "validate_bytecode (assemble is) = Inr () \<longleftrightarrow>
     is \<noteq> [] \<and> length (assemble is) \<le> 64 \<and>
     list_all (jump_ok (length (assemble is))) (with_offsets 0 is) \<and> list_ex is_terminal is"
  by (auto simp: validate_bytecode_iff well_formed_def disassemble_assemble assemble_Nil_iff
      list_ex_with_offsets MAX_BYTECODE_LEN_def)

text \<open>
  C24. Acceptance does not mean that a program decides: this accepted program jumps into the operand
  of a push, finds no instruction there, and the player cooperates by default on every history.
\<close>

theorem validated_program_may_fail:
  "validate_bytecode [0x14, 1, 0x01, 0xFF, 0x16] = Inr () \<and>
   fst (execute_inner [0x14, 1, 0x01, 0xFF, 0x16] opp my round rng) = None \<and>
   fst (execute_bytecode [0x14, 1, 0x01, 0xFF, 0x16] opp my round rng) = Cooperate"
proof -
  have "validate_bytecode [0x14, 1, 0x01, 0xFF, 0x16] = Inr ()"
    by (simp add: validate_bytecode_iff MAX_BYTECODE_LEN_def well_formed_def plain_ops_def imm_ops_def)
  moreover have "execute_inner [0x14, 1, 0x01, 0xFF, 0x16] opp my round rng = (None, rng)"
    by (simp add: execute_inner_run_code MAX_FUEL_def vm_run)
  ultimately show ?thesis by (simp add: execute_bytecode_def)
qed

section \<open>Matches\<close>

text \<open>
  C25. The bytecode programs of the parity tests play whole matches exactly as the built-in
  strategies do, in either seat, against every opponent, with every seed and match index.
\<close>

theorem bytecode_twin_match:
  assumes "bytecode_twin b = Some code"
  shows "run_match (Custom code) sb seed i n = run_match (Builtin (strategy_new b)) sb seed i n \<and>
         run_match sb (Custom code) seed i n = run_match sb (Builtin (strategy_new b)) seed i n"
  using run_match_cong [OF same_moves_twin [OF assms] same_moves_refl]
    run_match_cong [OF same_moves_refl same_moves_twin [OF assms]]
  by simp

theorem bytecode_twin_match_witness:
  "bytecode_twin Pavlov = Some pavlov_code \<and>
   run_match (Custom pavlov_code) (Builtin (strategy_new Gradual)) [1, 2, 3] 4 100 =
   run_match (Builtin (strategy_new Pavlov)) (Builtin (strategy_new Gradual)) [1, 2, 3] 4 100"
  using bytecode_twin_match [of Pavlov pavlov_code "Builtin (strategy_new Gradual)" "[1, 2, 3]" 4 100] by simp

text \<open>
  The program that the test suite gives for Pavlov is not Pavlov: after cooperating against a
  defection the native strategy switches, while the program, whose jumps miss their targets, leaves
  no decision behind and so cooperates.
\<close>

lemma pavlov_test_code_differs:
  "fst (execute_player_strategy (Builtin (strategy_new Pavlov)) [Defect] [Cooperate] 1 rng) = Defect \<and>
   fst (execute_player_strategy (Custom pavlov_test_code) [Defect] [Cooperate] 1 rng) = Cooperate"
  by (simp add: execute_player_strategy_def execute_strategy_def strategy_new_def execute_pavlov_def
      last_opt_def execute_bytecode_run pavlov_test_code_def MAX_FUEL_def vm_run score_last_def)

text \<open>
  C26. The record of a match is consistent: it has as many rounds as it says, within the limits for
  the number of players; the rounds are numbered from zero and scored by the payoff matrix; the
  totals are the sums of the scores of the rounds, at most 250, so no addition wraps.
\<close>

theorem run_match_record:
  "let r = run_match sa sb seed i n in
    length (rounds r) = unat (round_count r) \<and>
    min_rounds (round_config n) \<le> round_count r \<and> round_count r \<le> max_rounds (round_config n) \<and>
    (\<forall>j<length (rounds r). rr_round (rounds r ! j) = of_nat j \<and>
       (score_a (rounds r ! j), score_b (rounds r ! j)) = payoff (move_a (rounds r ! j)) (move_b (rounds r ! j))) \<and>
    unat (total_score_a r) = score_sum_a (rounds r) \<and> unat (total_score_b r) = score_sum_b (rounds r) \<and>
    unat (total_score_a r) \<le> 250 \<and> unat (total_score_b r) \<le> 250"
proof -
  let ?st = "play_rounds sa sb (match_rng seed i n) (match_length seed i n)"
  have len: "match_length seed i n \<le> 50" by (rule match_length_le_50)
  then have sums: "unat (total_a ?st) = score_sum_a (results ?st)" "unat (total_b ?st) = score_sum_b (results ?st)"
    "score_sum_a (results ?st) \<le> 5 * match_length seed i n" "score_sum_b (results ?st) \<le> 5 * match_length seed i n"
    using score_sums [of "match_length seed i n" sa sb "match_rng seed i n"] by simp_all
  have row: "rr_round (results ?st ! j) = of_nat j \<and>
      (score_a (results ?st ! j), score_b (results ?st ! j)) = payoff (move_a (results ?st ! j)) (move_b (results ?st ! j))"
    if "j < match_length seed i n" for j
    using results_round [OF that] results_scores [OF nth_mem, of j] that by simp
  show ?thesis
    unfolding Let_def
    by (intro conjI run_match_round_count) (use sums len row in \<open>simp_all add: run_match_fields(1,2,3,5)\<close>)
qed

theorem run_match_record_witness:
  "let r = run_match (Builtin (strategy_new AlwaysDefect)) (Custom [0x00]) [1, 2, 3] 4 2 in
    20 \<le> length (rounds r) \<and> length (rounds r) \<le> 50 \<and> rr_round (rounds r ! 19) = 19"
proof -
  let ?r = "run_match (Builtin (strategy_new AlwaysDefect)) (Custom [0x00]) [1, 2, 3] 4 2"
  have "20 \<le> length (rounds ?r)" "length (rounds ?r) \<le> 50" "\<forall>j<length (rounds ?r). rr_round (rounds ?r ! j) = of_nat j"
    using run_match_record [of "Builtin (strategy_new AlwaysDefect)" "Custom [0x00]" "[1, 2, 3]" 4 2]
    unfolding Let_def by (simp_all add: round_config_def standard_def word_le_nat_alt)
  then show ?thesis by (simp add: Let_def)
qed

text \<open>
  C27. No seat is favoured: two built-in strategies other than the random one play the mirror image
  of a match when they change seats.
\<close>

theorem run_match_swap:
  assumes "b \<noteq> Random" "b' \<noteq> Random"
  shows "run_match (Builtin (strategy_new b')) (Builtin (strategy_new b)) seed i n =
    (let r = run_match (Builtin (strategy_new b)) (Builtin (strategy_new b')) seed i n
     in \<lparr>rounds = map swap_round (rounds r), total_score_a = total_score_b r,
         total_score_b = total_score_a r, round_count = round_count r\<rparr>)"
  using play_rounds_swap [OF builtin_draws_nothing [OF assms(1)] builtin_draws_nothing [OF assms(2)],
      of "match_rng seed i n" "match_length seed i n"]
  by (simp add: Let_def run_match_fields)

theorem run_match_swap_witness:
  "total_score_a (run_match (Builtin (strategy_new Gradual)) (Builtin (strategy_new Pavlov)) [7] 3 50) =
   total_score_b (run_match (Builtin (strategy_new Pavlov)) (Builtin (strategy_new Gradual)) [7] 3 50)"
  using run_match_swap [of Pavlov Gradual "[7]" 3 50] by (simp add: Let_def)

text \<open>
  C28. Tit for tat is never exploited: in whichever seat, whatever the opponent plays, in whatever
  match, it finishes at most five points behind.
\<close>

theorem tit_for_tat_not_exploited:
  "unat (total_score_b (run_match (Builtin (strategy_new TitForTat)) s seed i n)) \<le>
     unat (total_score_a (run_match (Builtin (strategy_new TitForTat)) s seed i n)) + 5 \<and>
   unat (total_score_a (run_match s (Builtin (strategy_new TitForTat)) seed i n)) \<le>
     unat (total_score_b (run_match s (Builtin (strategy_new TitForTat)) seed i n)) + 5"
proof -
  have "match_length seed i n \<le> 255" using match_length_le_50 [of seed i n] by simp
  from tit_for_tat_balance [OF this, of s "match_rng seed i n"]
    tit_for_tat_balance_b [OF this, of s "match_rng seed i n"]
  show ?thesis by (simp add: run_match_fields split: if_splits)
qed

text \<open>
  C40. Gradual retaliates with increasing severity and then forgives. In every match, in either seat and
  against every opponent, after d defections of the opponent it has defected at most 1 + 2 + ... + d
  times, and it cooperates exactly when the debt is settled, that is, when it has defected exactly so
  often. So it never defects first, and an opponent who stops is forgiven.
\<close>

theorem gradual_settles_debts:
  "(let r = run_match (Builtin (strategy_new Gradual)) s seed i n
    in settles_debts (map move_a (rounds r)) (map move_b (rounds r))) \<and>
   (let r = run_match s (Builtin (strategy_new Gradual)) seed i n
    in settles_debts (map move_b (rounds r)) (map move_a (rounds r)))"
  unfolding Let_def run_match_fields histories_of_results
  by (intro conjI settles_debtsI) (simp_all add: history_move gradual_move)

section \<open>Random numbers\<close>

text \<open>
  C29. The step of the generator is a bijection on the 64-bit states, so no two generators ever
  merge. Its only absorbing state is zero: no other state is its own successor or is ever followed by
  zero. A new generator is in the state zero exactly when the seed mixes to the multiple of the constant
  that belongs to the match index. A seed of 32 equal even bytes is such a seed for match 0: its
  generator draws nothing but zeros.
\<close>

theorem rng_states:
  "bij (\<lambda>x. rng_state (snd (next_u64 \<lparr>rng_state = x\<rparr>))) \<and>
   (rng_state (snd (next_u64 rng)) = rng_state rng \<longleftrightarrow> rng_state rng = 0) \<and>
   (rng_state (snd (next_u64 rng)) = 0 \<longleftrightarrow> rng_state rng = 0) \<and>
   (rng_state (rng_new seed i) = 0 \<longleftrightarrow> seed_mix seed = ucast i * 0x517cc1b727220a95) \<and>
   next_u64 (rng_new (replicate 32 (2 * b)) 0) = (0, rng_new (replicate 32 (2 * b)) 0)"
proof -
  have "bij xorshift" by (simp add: bij_def xorshift_inj finite_UNIV_inj_surj)
  moreover have "rng_new (replicate 32 (2 * b)) 0 = \<lparr>rng_state = 0\<rparr>"
    unfolding replicate_chunks by (rule rng_new_equal_chunks) simp_all
  ultimately show ?thesis
    by (simp add: rng_new_def rng_state_warm_up xorshift_funpow_eq_0_iff xorshift_eq_0_iff xorshift_fixed_iff
        xor_eq_0_iff rng_zero)
qed

section \<open>The schedule\<close>

lemma unat_max_u32: "unat (- 1 :: u32) = 4294967295"
proof -
  have "(- 1 :: u32) = 4294967295" by simp
  then show ?thesis by (simp only: unat_numeral) simp
qed

lemma isqrt_ceil_max: "isqrt_ceil (- 1) = None"
proof -
  have "\<not> (- 1 :: u32) \<le> 1" by (simp only: word_le_nat_alt unat_max_u32) simp
  moreover have "newton_loop (- 1 :: u32) (- 1) 0 = None"
    by (subst newton_loop.simps) (simp add: word_gt_0)
  ultimately show ?thesis by (simp add: isqrt_ceil_def)
qed

text \<open>
  C30. The integer square root: for every argument but the largest, the result is the least number
  whose square is at least the argument; on the largest argument the addition before the first
  division wraps and the function panics.
\<close>

theorem isqrt_ceil_least:
  "isqrt_ceil (- 1) = None \<and>
   (\<forall>n. n \<noteq> - 1 \<longrightarrow> (\<exists>r. isqrt_ceil n = Some r \<and> unat n \<le> (unat r)\<^sup>2 \<and> (\<forall>q. unat n \<le> q\<^sup>2 \<longrightarrow> unat r \<le> q)))"
proof (intro conjI allI impI)
  show "isqrt_ceil (- 1) = None" by (rule isqrt_ceil_max)
next
  fix n :: u32 assume n: "n \<noteq> - 1"
  have "unat n \<noteq> unat (- 1 :: u32)" using n word_unat_eq_iff by blast
  then have lt: "unat n < 2 ^ 32 - 1" using unat_less_length [of n] by (simp add: unat_max_u32)
  show "\<exists>r. isqrt_ceil n = Some r \<and> unat n \<le> (unat r)\<^sup>2 \<and> (\<forall>q. unat n \<le> q\<^sup>2 \<longrightarrow> unat r \<le> q)"
  proof (cases "1 < unat n")
    case True
    obtain r where r: "isqrt_ceil n = Some r" "1 < unat r" "(unat r - 1)\<^sup>2 < unat n" "unat n \<le> (unat r)\<^sup>2"
      using isqrt_ceil_correct [OF True lt] by blast
    have "unat r \<le> q" if "unat n \<le> q\<^sup>2" for q
      using power2_less_imp [of "unat r - 1" q] that r(3) by linarith
    with r show ?thesis by blast
  next
    case False
    then have "unat n \<le> q\<^sup>2 \<Longrightarrow> unat n \<le> q" for q by (cases q) auto
    moreover have "unat n \<le> (unat n)\<^sup>2" by (simp add: power2_eq_square)
    moreover have "isqrt_ceil n = Some n" using False by (simp add: isqrt_ceil_def word_le_nat_alt)
    ultimately show ?thesis by blast
  qed
qed

theorem isqrt_ceil_least_witness:
  "\<exists>r. isqrt_ceil 17 = Some r \<and> 17 \<le> (unat r)\<^sup>2 \<and> unat r \<le> 5"
proof -
  have "\<exists>r. isqrt_ceil 17 = Some r \<and> unat (17 :: u32) \<le> (unat r)\<^sup>2 \<and> (\<forall>q. unat (17 :: u32) \<le> q\<^sup>2 \<longrightarrow> unat r \<le> q)"
    by (rule isqrt_ceil_least [THEN conjunct2, rule_format]) simp
  then show ?thesis by auto
qed

text \<open>
  C31. The Feistel walk permutes the match indices: on every domain of at most 250000 indices the
  limit of 1000 passes is never reached, and with any keys the function is a bijection of the domain.
\<close>

theorem feistel_permute_bijective:
  assumes "0 < n" "n \<le> 250000"
  shows "\<exists>p. bij_betw p {..<n} {..<n} \<and> (\<forall>i<n. feistel_permute i n keys = Some (Some (p i)))"
proof -
  have "0 < unat n" "unat n \<le> 250000" using assms by (simp_all add: word_less_nat_alt word_le_nat_alt)
  then obtain p where "\<And>i. i < n \<Longrightarrow> feistel_permute i n keys = Some (Some (p i))" "bij_betw p {..<n} {..<n}"
    by (rule feistel_permute_bij [where keys = keys]) blast
  then show ?thesis by blast
qed

theorem feistel_permute_bijective_witness:
  "\<exists>p. bij_betw p {..<45} {..<45} \<and>
     (\<forall>i<45. feistel_permute i 45 (derive_feistel_keys [1, 2, 3]) = Some (Some (p i)))"
  by (rule feistel_permute_bijective) (simp_all add: word_le_nat_alt)

text \<open>
  C32. Unranking inverts ranking: the rank of a pair of players below 65536 is unranked to the pair.
  In particular the two correction loops terminate and the 64-bit square root is exact.
\<close>

theorem unrank_pair_rank:
  assumes "a < b" "b < 65536"
  shows "unrank_pair (of_nat (b * (b - 1) div 2 + a)) = Some (of_nat a, of_nat b)"
proof -
  let ?r = "triangle b + a"
  have r: "?r < triangle 65536" using rank_of_lt [OF assms] by (simp add: rank_of_def)
  then have "?r < 2 ^ 32" by (simp add: triangle_def)
  then have u: "unat (of_nat ?r :: u32) = ?r" by (rule unat_of_nat_u32)
  obtain a' b' where p: "unrank_pair (of_nat ?r) = Some (a', b')" "a' < b'" "?r = triangle (unat b') + unat a'"
    using unrank_pair_correct [of "of_nat ?r"] r u by metis
  have "(unat a', unat b') = (a, b)"
    by (rule rank_of_inj) (use p assms in \<open>simp_all add: word_less_nat_alt rank_of_def\<close>)
  then show ?thesis using p(1) by (auto simp: triangle_def)
qed

theorem unrank_pair_rank_witness: "unrank_pair 12 = Some (2, 5)"
  using unrank_pair_rank [of 2 5] by simp

text \<open>
  C33. The offsets of the circular schedule, for every number of players but zero and every number of
  matches per player, in a release build (where the check that the latter is small is left out): the
  array always holds 50 offsets and no index of it is out of range, and the used part is a sorted
  sample without repetition of the offsets between one and half the number of players, one for two
  matches per player, at most 50 and at most all that there are.
\<close>

theorem select_offsets_correct:
  assumes "0 < n"
  shows "\<exists>ds rest. select_offsets n k seed = Some (ds @ rest, length ds) \<and>
    length ds = min (min ((unat k + 1) div 2) ((unat n - 1) div 2)) 50 \<and> length (ds @ rest) = 50 \<and>
    sorted ds \<and> distinct ds \<and> (\<forall>d\<in>set ds. 0 < unat d \<and> 2 * unat d < unat n)"
proof -
  have "0 < unat n" using assms by (simp add: word_less_nat_alt)
  then obtain ds rest where "select_offsets n k seed = Some (ds @ rest, length ds)"
    "length ds = min (offset_count n k) 50" "length (ds @ rest) = 50" "sorted ds" "distinct ds"
    "\<forall>d\<in>set ds. 0 < unat d \<and> 2 * unat d < unat n"
    by (rule select_offsets_any [of n k seed])
  then show ?thesis
    by (intro exI [of _ ds] exI [of _ rest]) (simp only: offset_count_def simp_thms)
qed

theorem select_offsets_correct_witness:
  "\<exists>ds rest. select_offsets 201 100000 [9, 9] = Some (ds @ rest, 50) \<and> length ds = 50 \<and> sorted ds \<and> distinct ds"
proof -
  have "(0 :: u32) < 201" by simp
  from select_offsets_correct [OF this, of 100000 "[9, 9]"] obtain ds rest
    where ds: "select_offsets 201 100000 [9, 9] = Some (ds @ rest, length ds)" "sorted ds" "distinct ds"
    and "length ds = min (min ((unat (100000 :: u32) + 1) div 2) ((unat (201 :: u32) - 1) div 2)) 50"
    by blast
  from this(4) have len: "length ds = 50" by simp
  with ds show ?thesis by (intro exI [of _ ds] exI [of _ rest]) simp
qed

text \<open>
  C34. Up to 200 players meet in a full round robin: with the number of matches per player that the
  tournament uses, the match indices enumerate every pair of players exactly once.
\<close>

theorem round_robin_schedule:
  assumes "2 \<le> unat n" "unat n \<le> 200"
  shows "bij_betw (pairing_at n (effective_k n k) seed)
    {..<unat (calculate_match_count n (effective_k n k) seed)} (pairs_below (unat n))"
proof -
  let ?k = "effective_k n k" and ?s = "pairing_at n (effective_k n k) seed"
  have sh: "round_robin.shuffle_of (unat n) ?s"
    by (rule schedule_round_robin [OF assms])
  have total: "unat (calculate_match_count n ?k seed) = triangle (unat n)"
    using match_count_effective(1) [OF assms(1), of k seed] assms(2) by (simp add: triangle_def)
  have "inj_on ?s {..<triangle (unat n)}" "?s ` {..<triangle (unat n)} \<subseteq> pairs_below (unat n)"
    using round_robin.shuffle_inj [OF _ sh] round_robin.shuffle_range [OF _ sh] assms(2) by auto
  moreover have "card (pairs_below (unat n)) = triangle (unat n)" "finite (pairs_below (unat n))"
    using bij_betw_same_card [OF unrank_table_bij [of "unat n"]] bij_betw_finite [OF unrank_table_bij [of "unat n"]] assms(2)
    by simp_all
  ultimately have "bij_betw ?s {..<triangle (unat n)} (pairs_below (unat n))"
    by (simp add: bij_betw_def card_image card_subset_eq)
  then show ?thesis by (simp add: total)
qed

theorem round_robin_schedule_witness:
  "bij_betw (pairing_at 3 2 [5]) {..<3} (pairs_below 3)"
  using round_robin_schedule [of 3 2 "[5]"]
  by (simp add: effective_k_def calculate_match_count_def calculate_match_count_inner_def div_ceil_def word_less_nat_alt word_le_nat_alt)

text \<open>
  C35. Between 201 and 5000 players the circular schedule is fair: no pair meets twice, nobody meets
  himself, and every player has the same number of different opponents, namely the configured number
  of matches clamped to 49 to 99 and rounded up to an even number.
\<close>

theorem circular_schedule:
  assumes "200 < unat n" "unat n \<le> 5000"
  shows "inj_on (pairing_at n (effective_k n k) seed) {..<unat (calculate_match_count n (effective_k n k) seed)} \<and>
    pairing_at n (effective_k n k) seed ` {..<unat (calculate_match_count n (effective_k n k) seed)} \<subseteq> pairs_below (unat n) \<and>
    (\<forall>p<unat n. card (opponents (pairing_at n (effective_k n k) seed)
        (unat (calculate_match_count n (effective_k n k) seed)) p) = 2 * ((unat (clamp k 49 99) + 1) div 2))"
proof -
  let ?k = "effective_k n k" and ?s = "pairing_at n (effective_k n k) seed" and ?m = "(unat (clamp k 49 99) + 1) div 2"
  obtain ds where ds: "good_offsets (unat n) ds" "length ds = ?m" "circular.shuffle_of (unat n, ds) ?s"
    by (rule schedule_circular [OF assms, of k seed])
  have total: "unat (calculate_match_count n ?k seed) = circular_entries (unat n, ds)"
    using match_count_effective(1) [of n k seed] assms ds(2) by (simp add: circular_entries_def)
  have valid: "circular_valid (unat n, ds)" using ds(1) by (simp add: circular_valid_def)
  show ?thesis unfolding total
    using circular.shuffle_inj [OF valid ds(3)] circular.shuffle_range [OF valid ds(3)]
      circular.shuffle_opponents(1) [OF valid ds(3)] ds(2)
    by auto
qed

theorem circular_schedule_witness:
  "card (opponents (pairing_at 201 (effective_k 201 60) [5])
     (unat (calculate_match_count 201 (effective_k 201 60) [5])) 7) = 60"
proof -
  have "clamp (60 :: u16) 49 99 = 60" by (simp add: clamp_def max_def min_def word_le_nat_alt word_less_nat_alt)
  then show ?thesis using circular_schedule [of 201 60 "[5]"] by simp
qed

text \<open>
  C36. The schedule for every number of players and of matches per player that it can be computed
  for. It is total and the two ways to compute it agree: the list of all pairings has one pair of
  different players below the number of participants for every match index, and looking up a single
  index gives the same pair; an index beyond the last one gives no pair. Every player gets at least
  the matches asked for and all players equally many. With few players every pair meets once per
  cycle, with many no pair meets twice.
\<close>

theorem schedule_any_degree:
  assumes "schedulable n k"
  shows "\<exists>ps. generate_all_pairings n k seed = Some ps \<and>
    length ps = unat (calculate_match_count n k seed) \<and>
    (\<forall>i<length ps. get_pairing_for_match n k seed (of_nat i) = Some (Some (ps ! i)) \<and>
       fst (ps ! i) < snd (ps ! i) \<and> snd (ps ! i) < n) \<and>
    (\<forall>i. calculate_match_count n k seed \<le> i \<longrightarrow> get_pairing_for_match n k seed i = Some None) \<and>
    (\<forall>p<n. length (filter (\<lambda>ab. p = fst ab \<or> p = snd ab) ps) = match_degree n k) \<and>
    unat k \<le> match_degree n k \<and>
    (if unat n \<le> unat k + 1 then \<forall>a b. a < b \<and> b < n \<longrightarrow> count_list ps (a, b) = cycles n k else distinct ps)"
proof -
  obtain ps where ps: "generate_all_pairings n k seed = Some ps"
    using generate_all_pairings_total [OF assms] by blast
  have "get_pairing_for_match n k seed i = Some None" if "calculate_match_count n k seed \<le> i" for i
    using that by (simp add: get_pairing_for_match_def calculate_match_count_def)
  moreover have "unat k \<le> match_degree n k"
    using match_degree_bounds(1) assms by (simp add: schedulable_def)
  ultimately show ?thesis
    using ps pairing_nth(1,2,3) [OF assms ps] matches_of_player [OF assms ps]
      matches_of_pair [OF assms _ ps] distinct_circular [OF assms _ ps]
    by (intro exI [of _ ps]) simp
qed

theorem schedule_any_degree_witness:
  "schedulable 4 5 \<and>
   (\<exists>ps. generate_all_pairings 4 5 [1] = Some ps \<and> length ps = 12 \<and> count_list ps (0, 3) = 2 \<and>
      length (filter (\<lambda>ab. 2 = fst ab \<or> 2 = snd ab) ps) = 6)"
proof -
  have s: "schedulable 4 5" "cycles 4 5 = 2" "match_degree 4 5 = 6"
    by (simp_all add: schedulable_def cycles_def match_degree_def triangle_def)
  have "unat (calculate_match_count 4 5 [1]) = 12"
    by (simp add: calculate_match_count_def calculate_match_count_inner_def div_ceil_def word_less_nat_alt word_le_nat_alt)
  moreover have few: "unat (4 :: u32) \<le> unat (5 :: u16) + 1" by simp
  obtain ps where "generate_all_pairings 4 5 [1] = Some ps" "length ps = unat (calculate_match_count 4 5 [1])"
    and p: "\<forall>p<4. length (filter (\<lambda>ab. p = fst ab \<or> p = snd ab) ps) = match_degree 4 5"
    and ab: "\<forall>a b. a < b \<and> b < 4 \<longrightarrow> count_list ps (a, b) = cycles 4 5"
    using schedule_any_degree [OF s(1), of "[1]"] unfolding if_P [OF few] by blast
  moreover have "count_list ps (0, 3) = 2" using ab [rule_format, of 0 3] s(2) by simp
  moreover have "length (filter (\<lambda>ab. 2 = fst ab \<or> 2 = snd ab) ps) = 6" using p [rule_format, of 2] s(3) by simp
  ultimately show ?thesis using s(1) by auto
qed

text \<open>
  A tournament uses its own number of matches per player: every pair once up to 200 players and above
  half the rounded-up matches per player for each player, computed in 32 bits without wrapping around.
\<close>

lemma pairings_effective:
  assumes "2 \<le> unat n" "unat n \<le> 5000"
  shows "\<exists>ps. generate_all_pairings n (effective_k n k) seed = Some ps \<and>
    length ps = (if unat n \<le> 200 then unat n * (unat n - 1) div 2 else (unat (clamp k 49 99) + 1) div 2 * unat n)"
  using generate_all_pairings_schedule [OF assms, of k seed] match_count_effective(1) [OF assms, of k seed] by simp

end
