(* ===== verification/Arena_State.thy ===== *)
theory Arena_State
  imports Game Pairing
begin

text \<open>
  The accounts of the on-chain program (\<^verbatim>\<open>state.rs\<close>), its errors (\<^verbatim>\<open>error.rs\<close>) and the ledger
  that the instruction handlers work on.

  Code outside the repository enters through the record \<open>Env\<close>, an argument of every handler: the
  clock, the rent schedule, SHA-256, the slot-hashes sysvar, the derivation of program addresses,
  the signatures of the transaction, and the amount that the framework takes from a payer so that an
  account of a given size stays rent exempt. The ledger keeps the lamports of every address and the
  typed data of the program's own accounts (the discriminator separates the three account types).
  Direct changes of lamports wrap around as the sources' \<open>-=\<close> and \<open>+=\<close> do.
\<close>

section \<open>Addresses\<close>

type_synonym Pubkey = "256 word"

abbreviation default_pubkey :: Pubkey where
  "default_pubkey \<equiv> 0"

definition pubkey_bytes :: "Pubkey \<Rightarrow> u8 list" where
  "pubkey_bytes k = map (\<lambda>i. ucast (drop_bit (8 * i) k)) [0..<32]"

definition ascii_bytes :: "string \<Rightarrow> u8 list" where
  "ascii_bytes s = map of_char s"

definition config_seeds :: "u8 list list" where
  "config_seeds = [ascii_bytes ''config'']"

definition tournament_seeds :: "u32 \<Rightarrow> u8 list list" where
  "tournament_seeds tid = [ascii_bytes ''tournament'', u32_to_le_bytes tid]"

definition entry_seeds :: "Pubkey \<Rightarrow> Pubkey \<Rightarrow> u8 list list" where
  "entry_seeds tournament player = [ascii_bytes ''entry'', pubkey_bytes tournament, pubkey_bytes player]"

section \<open>Constants\<close>

definition CLAIM_EXPIRY_SECONDS :: i64 where
  "CLAIM_EXPIRY_SECONDS = 2592000"

definition TOURNAMENT_CLOSURE_SECONDS :: i64 where
  "TOURNAMENT_CLOSURE_SECONDS = 2592000"

definition MATCHES_PER_TX :: u32 where
  "MATCHES_PER_TX = 5"

definition MAX_PARTICIPANTS :: nat where
  "MAX_PARTICIPANTS = 5000"

section \<open>Accounts\<close>

record Config =
  c_admin :: Pubkey
  c_operator :: Pubkey
  c_house_fee_bps :: u16
  c_stake :: u64
  c_min_participants :: u16
  c_max_participants :: u16
  c_registration_duration :: i64
  c_matches_per_player :: u16
  c_accumulated_fees :: u64
  c_current_tournament_id :: u32
  c_reveal_duration :: i64
  c_bump :: u8
  c_operator_tx_fee :: u64

definition CONFIG_LEN :: nat where
  "CONFIG_LEN = 8 + 32 + 32 + 2 + 8 + 2 + 2 + 8 + 2 + 8 + 4 + 8 + 1 + 8 + 16"

datatype TournamentState = Registration | Reveal | Running | Payout

text \<open>The phases in the order of their discriminants.\<close>

fun phase_index :: "TournamentState \<Rightarrow> nat" where
  "phase_index Registration = 0"
| "phase_index Reveal = 1"
| "phase_index Running = 2"
| "phase_index Payout = 3"

lemma phase_index_inj: "phase_index p = phase_index q \<Longrightarrow> p = q"
  by (cases p; cases q) simp_all

instantiation TournamentState :: linorder
begin

definition less_eq_TournamentState :: "TournamentState \<Rightarrow> TournamentState \<Rightarrow> bool" where
  "p \<le> q \<longleftrightarrow> phase_index p \<le> phase_index q"

definition less_TournamentState :: "TournamentState \<Rightarrow> TournamentState \<Rightarrow> bool" where
  "p < q \<longleftrightarrow> phase_index p < phase_index q"

instance
  by standard (auto simp: less_eq_TournamentState_def less_TournamentState_def intro: phase_index_inj)

end

record Tournament =
  t_id :: u32
  t_state :: TournamentState
  t_stake :: u64
  t_house_fee_bps :: u16
  t_matches_per_player :: u16
  t_registration_duration :: i64
  t_pool :: u64
  t_participant_count :: u32
  t_registration_ends :: i64
  t_matches_completed :: u32
  t_matches_total :: u32
  t_randomness_seed :: "u8 list"
  t_min_winning_score :: u32
  t_winner_count :: u32
  t_winner_pool :: u64
  t_claims_processed :: u32
  t_payout_started_at :: i64
  t_entries_remaining :: u32
  t_round_tier :: u8
  t_reveal_ends :: i64
  t_reveal_duration :: i64
  t_reveals_completed :: u32
  t_players :: "Pubkey list"
  t_scores :: "u32 list"
  t_strategies :: "u8 list"
  t_bump :: u8
  t_operator_costs :: u64

definition BYTES_PER_PLAYER :: nat where
  "BYTES_PER_PLAYER = 37"

definition BASE_SPACE :: nat where
  "BASE_SPACE = 8 + 4 + 1 + 8 + 2 + 2 + 8 + 8 + 4 + 8 + 4 + 4 + 32 + 4 + 4 + 8 + 4 + 8 + 4 + 1 + 8 + 8 + 4
     + 4 + 4 + 4 + 1 + 8 + 32"

definition tournament_space :: "u16 \<Rightarrow> nat" where
  "tournament_space participant_count = BASE_SPACE + unat participant_count * BYTES_PER_PLAYER"

definition space_for_next_player :: "Tournament \<Rightarrow> nat" where
  "space_for_next_player t = BASE_SPACE + (length (t_players t) + 1) * BYTES_PER_PLAYER"

text \<open>The on-chain strategy type; the constructors carry the prefix of their type.\<close>

datatype ArenaStrategy =
    Strategy_TitForTat
  | Strategy_AlwaysDefect
  | Strategy_AlwaysCooperate
  | Strategy_GrimTrigger
  | Strategy_Pavlov
  | Strategy_SuspiciousTitForTat
  | Strategy_Random
  | Strategy_TitForTwoTats
  | Strategy_Gradual
  | Strategy_Custom

text \<open>The cast \<open>strategy as u8\<close>.\<close>

fun strategy_as_u8 :: "ArenaStrategy \<Rightarrow> u8" where
  "strategy_as_u8 Strategy_TitForTat = 0"
| "strategy_as_u8 Strategy_AlwaysDefect = 1"
| "strategy_as_u8 Strategy_AlwaysCooperate = 2"
| "strategy_as_u8 Strategy_GrimTrigger = 3"
| "strategy_as_u8 Strategy_Pavlov = 4"
| "strategy_as_u8 Strategy_SuspiciousTitForTat = 5"
| "strategy_as_u8 Strategy_Random = 6"
| "strategy_as_u8 Strategy_TitForTwoTats = 7"
| "strategy_as_u8 Strategy_Gradual = 8"
| "strategy_as_u8 Strategy_Custom = 9"

definition from_index :: "u8 \<Rightarrow> ArenaStrategy option" where
  "from_index index =
     (if index = 0 then Some Strategy_TitForTat
      else if index = 1 then Some Strategy_AlwaysDefect
      else if index = 2 then Some Strategy_AlwaysCooperate
      else if index = 3 then Some Strategy_GrimTrigger
      else if index = 4 then Some Strategy_Pavlov
      else if index = 5 then Some Strategy_SuspiciousTitForTat
      else if index = 6 then Some Strategy_Random
      else if index = 7 then Some Strategy_TitForTwoTats
      else if index = 8 then Some Strategy_Gradual
      else if index = 9 then Some Strategy_Custom
      else None)"

record Entry =
  e_tournament :: Pubkey
  e_player :: Pubkey
  e_index :: u32
  e_commitment :: "u8 list"
  e_strategy :: ArenaStrategy
  e_revealed :: bool
  e_score :: u32
  e_matches_played :: u16
  e_paid_out :: bool
  e_created_at :: i64
  e_bump :: u8
  e_bytecode_len :: u8
  e_bytecode :: "u8 list"

definition ENTRY_LEN :: nat where
  "ENTRY_LEN = 8 + 32 + 32 + 4 + 32 + 1 + 1 + 4 + 2 + 1 + 8 + 1 + 1 + 64 + 16"

definition entry_default :: Entry where
  "entry_default = \<lparr>
     e_tournament = default_pubkey, e_player = default_pubkey, e_index = 0,
     e_commitment = replicate 32 0, e_strategy = Strategy_TitForTat, e_revealed = False,
     e_score = 0, e_matches_played = 0, e_paid_out = False, e_created_at = 0, e_bump = 0,
     e_bytecode_len = 0, e_bytecode = replicate 64 0\<rparr>"

fun to_strategy_base :: "ArenaStrategy \<Rightarrow> StrategyBase option" where
  "to_strategy_base Strategy_TitForTat = Some TitForTat"
| "to_strategy_base Strategy_AlwaysDefect = Some AlwaysDefect"
| "to_strategy_base Strategy_AlwaysCooperate = Some AlwaysCooperate"
| "to_strategy_base Strategy_GrimTrigger = Some GrimTrigger"
| "to_strategy_base Strategy_Pavlov = Some Pavlov"
| "to_strategy_base Strategy_SuspiciousTitForTat = Some SuspiciousTitForTat"
| "to_strategy_base Strategy_Random = Some Random"
| "to_strategy_base Strategy_TitForTwoTats = Some TitForTwoTats"
| "to_strategy_base Strategy_Gradual = Some Gradual"
| "to_strategy_base Strategy_Custom = None"

text \<open>A built-in strategy ignores the bytecode; a custom one without bytecode runs the empty program.\<close>

definition to_player_strategy :: "ArenaStrategy \<Rightarrow> u8 list option \<Rightarrow> PlayerStrategy" where
  "to_player_strategy strategy bytecode =
     (case to_strategy_base strategy of
        None \<Rightarrow> Custom (case bytecode of Some code \<Rightarrow> code | None \<Rightarrow> [])
      | Some b \<Rightarrow> Builtin (strategy_new b))"

section \<open>Errors\<close>

datatype ArenaError =
    InvalidState | RegistrationClosed | AlreadyEntered | NotWinner | AlreadyPaid | Unauthorized
  | InsufficientFunds | MatchesIncomplete | NoFeesToWithdraw | ClaimExpired | NotExpired
  | SlotHashUnavailable | TournamentFull | InvalidEntryAccount | InvalidMinParticipants | Overflow
  | InvalidMatch | RegistrationOpen | TournamentActive | EntriesRemaining | TournamentNotCloseable
  | CommitmentMismatch | AlreadyRevealed | RevealPeriodEnded | RevealPeriodNotEnded
  | UnprocessedForfeits | UnrevealedStrategy | MinParticipantsNotReached | InvalidBytecode

fun error_code :: "ArenaError \<Rightarrow> nat" where
  "error_code InvalidState = 6000"
| "error_code RegistrationClosed = 6001"
| "error_code AlreadyEntered = 6002"
| "error_code NotWinner = 6003"
| "error_code AlreadyPaid = 6004"
| "error_code Unauthorized = 6005"
| "error_code InsufficientFunds = 6006"
| "error_code MatchesIncomplete = 6007"
| "error_code NoFeesToWithdraw = 6008"
| "error_code ClaimExpired = 6009"
| "error_code NotExpired = 6010"
| "error_code SlotHashUnavailable = 6011"
| "error_code TournamentFull = 6012"
| "error_code InvalidEntryAccount = 6013"
| "error_code InvalidMinParticipants = 6014"
| "error_code Overflow = 6015"
| "error_code InvalidMatch = 6016"
| "error_code RegistrationOpen = 6017"
| "error_code TournamentActive = 6018"
| "error_code EntriesRemaining = 6019"
| "error_code TournamentNotCloseable = 6020"
| "error_code CommitmentMismatch = 6022"
| "error_code AlreadyRevealed = 6023"
| "error_code RevealPeriodEnded = 6024"
| "error_code RevealPeriodNotEnded = 6025"
| "error_code UnprocessedForfeits = 6026"
| "error_code UnrevealedStrategy = 6027"
| "error_code MinParticipantsNotReached = 6028"
| "error_code InvalidBytecode = 6029"

text \<open>
  Why an instruction fails: an error of the program, a constraint of the account declarations, the
  system program refusing a transfer, a panic, or the runtime refusing what the instruction left
  behind because an account would end below its rent.
\<close>

datatype Error =
    Arena ArenaError
  | AccountNotInitialized
  | AccountAlreadyInUse
  | AccountNotSigner
  | ConstraintSeeds
  | ConstraintHasOne
  | InsufficientLamports
  | Panicked
  | InsufficientFundsForRent

section \<open>The ledger\<close>

record Env =
  unix_timestamp :: i64
  minimum_balance :: "nat \<Rightarrow> u64"
  rent_top_up :: "nat \<Rightarrow> u64 \<Rightarrow> u64"
  sha256 :: "u8 list \<Rightarrow> u8 list"
  slot_hashes :: "u8 list"
  find_program_address :: "u8 list list \<Rightarrow> Pubkey \<times> u8"
  create_program_address :: "u8 list list \<Rightarrow> u8 \<Rightarrow> Pubkey option"
  is_signer :: "Pubkey \<Rightarrow> bool"

text \<open>The data of a tournament account comes with its allocated length, which grows by reallocation.\<close>

datatype AccountData = ConfigData Config | TournamentData Tournament nat | EntryData Entry

record Ledger =
  lamports :: "Pubkey \<Rightarrow> u64"
  accounts :: "Pubkey \<Rightarrow> AccountData option"

definition check :: "bool \<Rightarrow> 'e \<Rightarrow> 'e + 'a \<Rightarrow> 'e + 'a" where
  "check c e k = and_then (require c e) (\<lambda>_. k)"

definition load_config :: "Ledger \<Rightarrow> Pubkey \<Rightarrow> Error + Config" where
  "load_config s key =
     (case accounts s key of Some (ConfigData c) \<Rightarrow> Inr c | _ \<Rightarrow> Inl AccountNotInitialized)"

definition load_tournament :: "Ledger \<Rightarrow> Pubkey \<Rightarrow> Error + Tournament \<times> nat" where
  "load_tournament s key =
     (case accounts s key of Some (TournamentData t n) \<Rightarrow> Inr (t, n) | _ \<Rightarrow> Inl AccountNotInitialized)"

definition load_entry :: "Ledger \<Rightarrow> Pubkey \<Rightarrow> Error + Entry" where
  "load_entry s key =
     (case accounts s key of Some (EntryData e) \<Rightarrow> Inr e | _ \<Rightarrow> Inl AccountNotInitialized)"

definition store :: "Pubkey \<Rightarrow> AccountData \<Rightarrow> Ledger \<Rightarrow> Ledger" where
  "store key d s = s\<lparr>accounts := (accounts s)(key \<mapsto> d)\<rparr>"

definition debit :: "Pubkey \<Rightarrow> u64 \<Rightarrow> Ledger \<Rightarrow> Ledger" where
  "debit key amount s = s\<lparr>lamports := (lamports s)(key := lamports s key - amount)\<rparr>"

definition credit :: "Pubkey \<Rightarrow> u64 \<Rightarrow> Ledger \<Rightarrow> Ledger" where
  "credit key amount s = s\<lparr>lamports := (lamports s)(key := lamports s key + amount)\<rparr>"

text \<open>Moving lamports by hand, as the handlers do: first the \<open>-=\<close>, then the \<open>+=\<close>.\<close>

definition move_lamports :: "Pubkey \<Rightarrow> Pubkey \<Rightarrow> u64 \<Rightarrow> Ledger \<Rightarrow> Ledger" where
  "move_lamports from_key to_key amount s = credit to_key amount (debit from_key amount s)"

text \<open>A transfer by the system program, which refuses to overdraw the source.\<close>

definition system_transfer :: "Pubkey \<Rightarrow> Pubkey \<Rightarrow> u64 \<Rightarrow> Ledger \<Rightarrow> Error + Ledger" where
  "system_transfer from_key to_key amount s =
     check (amount \<le> lamports s from_key) InsufficientLamports (Inr (move_lamports from_key to_key amount s))"

text \<open>The account attributes \<open>init\<close> and \<open>realloc\<close>: the payer tops the account up for its size.\<close>

definition init_account :: "Env \<Rightarrow> Pubkey \<Rightarrow> Pubkey \<Rightarrow> nat \<Rightarrow> AccountData \<Rightarrow> Ledger \<Rightarrow> Error + Ledger" where
  "init_account env payer key space d s =
     check (accounts s key = None) AccountAlreadyInUse
     (and_then (system_transfer payer key (rent_top_up env space (lamports s key)) s)
      (\<lambda>s. Inr (store key d s)))"

definition realloc_account :: "Env \<Rightarrow> Pubkey \<Rightarrow> Pubkey \<Rightarrow> nat \<Rightarrow> Ledger \<Rightarrow> Error + Ledger" where
  "realloc_account env payer key space s =
     system_transfer payer key (rent_top_up env space (lamports s key)) s"

text \<open>The attribute \<open>close = dest\<close>: all lamports go to the destination and the account is gone.\<close>

definition remove_account :: "Pubkey \<Rightarrow> Ledger \<Rightarrow> Ledger" where
  "remove_account key s = s\<lparr>accounts := (accounts s)(key := None)\<rparr>"

definition close_account :: "Pubkey \<Rightarrow> Pubkey \<Rightarrow> Ledger \<Rightarrow> Ledger" where
  "close_account key dest s = remove_account key (move_lamports key dest (lamports s key) s)"

text \<open>The attribute \<open>seeds\<close> with the bump stored in the account.\<close>

definition seeds_ok :: "Env \<Rightarrow> u8 list list \<Rightarrow> u8 \<Rightarrow> Pubkey \<Rightarrow> bool" where
  "seeds_ok env seeds bump key \<longleftrightarrow> create_program_address env seeds bump = Some key"

text \<open>A tournament as \<open>initialize_config\<close> and \<open>finalize_tournament\<close> write it, field by field.\<close>

definition new_tournament :: "u32 \<Rightarrow> Config \<Rightarrow> i64 \<Rightarrow> u8 \<Rightarrow> Tournament" where
  "new_tournament tid config now bump = \<lparr>
     t_id = tid, t_state = Registration,
     t_stake = c_stake config, t_house_fee_bps = c_house_fee_bps config,
     t_matches_per_player = c_matches_per_player config,
     t_registration_duration = c_registration_duration config,
     t_pool = 0, t_participant_count = 0,
     t_registration_ends = now + c_registration_duration config,
     t_matches_completed = 0, t_matches_total = 0, t_randomness_seed = replicate 32 0,
     t_min_winning_score = 0, t_winner_count = 0, t_winner_pool = 0,
     t_claims_processed = 0, t_payout_started_at = 0, t_entries_remaining = 0,
     t_round_tier = 0, t_reveal_ends = 0, t_reveal_duration = c_reveal_duration config,
     t_reveals_completed = 0, t_players = [], t_scores = [], t_strategies = [],
     t_bump = bump, t_operator_costs = 0\<rparr>"

lemma check_simps [simp]: "check True e k = k" "check False e k = Inl e"
  by (simp_all add: check_def)

lemma check_Inr_iff: "check c e k = Inr y \<longleftrightarrow> c \<and> k = Inr y"
  by (cases c) simp_all

lemma check_Inl_iff: "check c e k = Inl x \<longleftrightarrow> (\<not> c \<and> x = e) \<or> (c \<and> k = Inl x)"
  by (cases c) auto

end
