(* ===== verification/Admin_Ix.thy ===== *)
theory Admin_Ix
  imports Arena_State
begin

text \<open>
  The administrator's instructions (\<^verbatim>\<open>admin.rs\<close>): \<open>initialize_config\<close>, \<open>update_config\<close> and
  \<open>withdraw_fees\<close>. Each definition holds the checks of the account declarations followed by the
  body of the handler.
\<close>

record InitializeConfigParams =
  ip_operator :: Pubkey
  ip_stake :: u64
  ip_min_participants :: u16
  ip_max_participants :: u16
  ip_registration_duration :: i64
  ip_matches_per_player :: u16
  ip_reveal_duration :: i64

record UpdateConfigParams =
  up_operator :: "Pubkey option"
  up_house_fee_bps :: "u16 option"
  up_stake :: "u64 option"
  up_min_participants :: "u16 option"
  up_max_participants :: "u16 option"
  up_registration_duration :: "i64 option"
  up_matches_per_player :: "u16 option"
  up_reveal_duration :: "i64 option"
  up_operator_tx_fee :: "u64 option"

definition initial_config :: "Pubkey \<Rightarrow> InitializeConfigParams \<Rightarrow> u8 \<Rightarrow> Config" where
  "initial_config admin params bump = \<lparr>
     c_admin = admin, c_operator = ip_operator params, c_house_fee_bps = 0,
     c_stake = ip_stake params, c_min_participants = ip_min_participants params,
     c_max_participants = ip_max_participants params,
     c_registration_duration = ip_registration_duration params,
     c_matches_per_player = ip_matches_per_player params,
     c_accumulated_fees = 0, c_current_tournament_id = 0,
     c_reveal_duration = ip_reveal_duration params, c_bump = bump, c_operator_tx_fee = 0\<rparr>"

definition initialize_config ::
  "Env \<Rightarrow> Pubkey \<Rightarrow> Pubkey \<Rightarrow> Pubkey \<Rightarrow> InitializeConfigParams \<Rightarrow> Ledger \<Rightarrow> Error + Ledger" where
  "initialize_config env config_key tournament_key admin params s =
     (let (config_pda, config_bump) = find_program_address env config_seeds;
          (tournament_pda, tournament_bump) = find_program_address env (tournament_seeds 0);
          config = initial_config admin params config_bump;
          tournament = new_tournament 0 config (unix_timestamp env) tournament_bump
      in
      check (is_signer env admin) AccountNotSigner
      (check (config_key = config_pda \<and> tournament_key = tournament_pda) ConstraintSeeds
      (and_then (init_account env admin config_key CONFIG_LEN (ConfigData config) s) (\<lambda>s.
       and_then (init_account env admin tournament_key BASE_SPACE (TournamentData tournament BASE_SPACE) s) (\<lambda>s.
       check (2 \<le> ip_min_participants params \<and> ip_min_participants params mod 2 = 0)
         (Arena InvalidMinParticipants)
      (check (0 < ip_stake params) (Arena Overflow)
      (check (ip_min_participants params \<le> ip_max_participants params) (Arena Overflow)
      (check (0 < sint (ip_registration_duration params)) (Arena Overflow)
      (check (0 < ip_matches_per_player params) (Arena Overflow)
      (check (0 < sint (ip_reveal_duration params)) (Arena Overflow)
      (Inr s))))))))))) "

text \<open>An optional parameter: \<open>if let Some(v) = p { require!(ok(v), e); config.f = v }\<close>.\<close>

definition set_if ::
  "'v option \<Rightarrow> ('v \<Rightarrow> Config \<Rightarrow> bool) \<Rightarrow> ArenaError \<Rightarrow> ('v \<Rightarrow> Config \<Rightarrow> Config) \<Rightarrow> Config \<Rightarrow> Error + Config" where
  "set_if p ok e upd config =
     (case p of
        None \<Rightarrow> Inr config
      | Some v \<Rightarrow> check (ok v config) (Arena e) (Inr (upd v config)))"

definition apply_update :: "UpdateConfigParams \<Rightarrow> Config \<Rightarrow> Error + Config" where
  "apply_update params config =
     and_then (set_if (up_operator params) (\<lambda>_ _. True) Overflow
       (\<lambda>v. c_operator_update (\<lambda>_. v)) config) (\<lambda>config.
     and_then (set_if (up_house_fee_bps params) (\<lambda>fee _. fee \<le> 10000) Overflow
       (\<lambda>v. c_house_fee_bps_update (\<lambda>_. v)) config) (\<lambda>config.
     and_then (set_if (up_stake params) (\<lambda>v _. 0 < v) Overflow
       (\<lambda>v. c_stake_update (\<lambda>_. v)) config) (\<lambda>config.
     and_then (set_if (up_min_participants params) (\<lambda>v _. 2 \<le> v \<and> v mod 2 = 0) InvalidMinParticipants
       (\<lambda>v. c_min_participants_update (\<lambda>_. v)) config) (\<lambda>config.
     and_then (set_if (up_max_participants params) (\<lambda>v config. c_min_participants config \<le> v) Overflow
       (\<lambda>v. c_max_participants_update (\<lambda>_. v)) config) (\<lambda>config.
     and_then (set_if (up_registration_duration params) (\<lambda>v _. 0 < sint v) Overflow
       (\<lambda>v. c_registration_duration_update (\<lambda>_. v)) config) (\<lambda>config.
     and_then (set_if (up_matches_per_player params) (\<lambda>v _. 0 < v) Overflow
       (\<lambda>v. c_matches_per_player_update (\<lambda>_. v)) config) (\<lambda>config.
     and_then (set_if (up_reveal_duration params) (\<lambda>v _. 0 < sint v) Overflow
       (\<lambda>v. c_reveal_duration_update (\<lambda>_. v)) config) (\<lambda>config.
     set_if (up_operator_tx_fee params) (\<lambda>fee _. fee \<le> 100000000) Overflow
       (\<lambda>v. c_operator_tx_fee_update (\<lambda>_. v)) config))))))))"

definition update_config ::
  "Env \<Rightarrow> Pubkey \<Rightarrow> Pubkey \<Rightarrow> UpdateConfigParams \<Rightarrow> Ledger \<Rightarrow> Error + Ledger" where
  "update_config env config_key admin params s =
     and_then (load_config s config_key) (\<lambda>config.
     check (is_signer env admin) AccountNotSigner
    (check (seeds_ok env config_seeds (c_bump config) config_key) ConstraintSeeds
    (check (c_admin config = admin) (Arena Unauthorized)
    (and_then (apply_update params config) (\<lambda>config.
     Inr (store config_key (ConfigData config) s))))))"

definition withdraw_fees :: "Env \<Rightarrow> Pubkey \<Rightarrow> Pubkey \<Rightarrow> Ledger \<Rightarrow> Error + Ledger" where
  "withdraw_fees env config_key admin s =
     and_then (load_config s config_key) (\<lambda>config.
     check (is_signer env admin) AccountNotSigner
    (check (seeds_ok env config_seeds (c_bump config) config_key) ConstraintSeeds
    (check (c_admin config = admin) (Arena Unauthorized)
    (check (0 < c_accumulated_fees config) (Arena NoFeesToWithdraw)
    (let min_balance = minimum_balance env CONFIG_LEN;
         max_withdraw = saturating_sub (lamports s config_key) min_balance;
         amount = min (c_accumulated_fees config) max_withdraw
     in and_then (ok_or (checked_sub (c_accumulated_fees config) amount) (Arena Overflow)) (\<lambda>fees.
        Inr (move_lamports config_key admin amount
              (store config_key (ConfigData (config\<lparr>c_accumulated_fees := fees\<rparr>)) s))))))))"

section \<open>Configurations the program accepts\<close>

text \<open>
  What \<open>initialize_config\<close> and \<open>update_config\<close> keep of a configuration. That the minimum is at
  most the maximum is not part of it: \<open>update_config\<close> compares the two only when the maximum is set.
\<close>

definition config_ok :: "Config \<Rightarrow> bool" where
  "config_ok c \<longleftrightarrow>
     c_house_fee_bps c \<le> 10000 \<and> 0 < c_stake c \<and>
     2 \<le> c_min_participants c \<and> c_min_participants c mod 2 = 0 \<and>
     0 < sint (c_registration_duration c) \<and> 0 < c_matches_per_player c \<and>
     0 < sint (c_reveal_duration c) \<and> c_operator_tx_fee c \<le> 100000000"

text \<open>An update keeps the books of the configuration and its validity.\<close>

definition update_keeps :: "Config \<Rightarrow> Config \<Rightarrow> bool" where
  "update_keeps c d \<longleftrightarrow>
     config_ok d \<and> c_bump d = c_bump c \<and> c_accumulated_fees d = c_accumulated_fees c \<and>
     c_admin d = c_admin c \<and> c_current_tournament_id d = c_current_tournament_id c"

lemma set_if_keeps:
  assumes "set_if p ok e upd d = Inr d'" "update_keeps c d"
    and "\<And>v. ok v d \<Longrightarrow> update_keeps c d \<Longrightarrow> update_keeps c (upd v d)"
  shows "update_keeps c d'"
  using assms by (auto simp: set_if_def check_Inr_iff split: option.splits)

lemma apply_update_keeps:
  assumes "apply_update params c = Inr c'" "config_ok c"
  shows "update_keeps c c'"
proof -
  obtain c1 c2 c3 c4 c5 c6 c7 c8 where u:
    "set_if (up_operator params) (\<lambda>_ _. True) Overflow (\<lambda>v. c_operator_update (\<lambda>_. v)) c = Inr c1"
    "set_if (up_house_fee_bps params) (\<lambda>fee _. fee \<le> 10000) Overflow (\<lambda>v. c_house_fee_bps_update (\<lambda>_. v)) c1 = Inr c2"
    "set_if (up_stake params) (\<lambda>v _. 0 < v) Overflow (\<lambda>v. c_stake_update (\<lambda>_. v)) c2 = Inr c3"
    "set_if (up_min_participants params) (\<lambda>v _. 2 \<le> v \<and> v mod 2 = 0) InvalidMinParticipants
       (\<lambda>v. c_min_participants_update (\<lambda>_. v)) c3 = Inr c4"
    "set_if (up_max_participants params) (\<lambda>v config. c_min_participants config \<le> v) Overflow
       (\<lambda>v. c_max_participants_update (\<lambda>_. v)) c4 = Inr c5"
    "set_if (up_registration_duration params) (\<lambda>v _. 0 < sint v) Overflow
       (\<lambda>v. c_registration_duration_update (\<lambda>_. v)) c5 = Inr c6"
    "set_if (up_matches_per_player params) (\<lambda>v _. 0 < v) Overflow (\<lambda>v. c_matches_per_player_update (\<lambda>_. v)) c6 = Inr c7"
    "set_if (up_reveal_duration params) (\<lambda>v _. 0 < sint v) Overflow (\<lambda>v. c_reveal_duration_update (\<lambda>_. v)) c7 = Inr c8"
    "set_if (up_operator_tx_fee params) (\<lambda>fee _. fee \<le> 100000000) Overflow
       (\<lambda>v. c_operator_tx_fee_update (\<lambda>_. v)) c8 = Inr c'"
    using assms(1) unfolding apply_update_def and_then_Inr_iff by blast
  have k: "update_keeps c c" using assms(2) by (simp add: update_keeps_def)
  have k: "update_keeps c c1" using u(1) k by (rule set_if_keeps) (simp add: update_keeps_def config_ok_def)
  have k: "update_keeps c c2" using u(2) k by (rule set_if_keeps) (simp add: update_keeps_def config_ok_def)
  have k: "update_keeps c c3" using u(3) k by (rule set_if_keeps) (simp add: update_keeps_def config_ok_def)
  have k: "update_keeps c c4" using u(4) k by (rule set_if_keeps) (simp add: update_keeps_def config_ok_def)
  have k: "update_keeps c c5" using u(5) k by (rule set_if_keeps) (simp add: update_keeps_def config_ok_def)
  have k: "update_keeps c c6" using u(6) k by (rule set_if_keeps) (simp add: update_keeps_def config_ok_def)
  have k: "update_keeps c c7" using u(7) k by (rule set_if_keeps) (simp add: update_keeps_def config_ok_def)
  have k: "update_keeps c c8" using u(8) k by (rule set_if_keeps) (simp add: update_keeps_def config_ok_def)
  show ?thesis using u(9) k by (rule set_if_keeps) (simp add: update_keeps_def config_ok_def)
qed

end
