(* ===== verification/Player_Ix.thy ===== *)
theory Player_Ix
  imports Arena_State
begin

text \<open>
  The players' instructions (\<^verbatim>\<open>player.rs\<close>): entering a tournament with a commitment, revealing the
  committed strategy, taking a refund while registration is open, and claiming a prize.
\<close>

section \<open>Entering\<close>

definition new_entry :: "Pubkey \<Rightarrow> Pubkey \<Rightarrow> nat \<Rightarrow> u8 list \<Rightarrow> i64 \<Rightarrow> u8 \<Rightarrow> Entry" where
  "new_entry tournament_key player index commitment now bump = \<lparr>
     e_tournament = tournament_key, e_player = player, e_index = of_nat index,
     e_commitment = commitment, e_strategy = Strategy_TitForTat, e_revealed = False,
     e_score = 0, e_matches_played = 0, e_paid_out = False, e_created_at = now, e_bump = bump,
     e_bytecode_len = 0, e_bytecode = replicate 64 0\<rparr>"

definition register_player :: "Pubkey \<Rightarrow> Tournament \<Rightarrow> Tournament" where
  "register_player player t = t\<lparr>
     t_players := t_players t @ [player],
     t_scores := t_scores t @ [0],
     t_strategies := t_strategies t @ [- 1],
     t_participant_count := t_participant_count t + 1,
     t_entries_remaining := t_entries_remaining t + 1,
     t_pool := t_pool t + t_stake t\<rparr>"

definition enter_tournament ::
  "Env \<Rightarrow> Pubkey \<Rightarrow> Pubkey \<Rightarrow> Pubkey \<Rightarrow> Pubkey \<Rightarrow> u8 list \<Rightarrow> Ledger \<Rightarrow> Error + Ledger" where
  "enter_tournament env config_key tournament_key entry_key player commitment s =
     and_then (load_config s config_key) (\<lambda>config.
     and_then (load_tournament s tournament_key) (\<lambda>(t, data_len).
     check (is_signer env player) AccountNotSigner
    (check (seeds_ok env config_seeds (c_bump config) config_key) ConstraintSeeds
    (check (seeds_ok env (tournament_seeds (t_id t)) (t_bump t) tournament_key) ConstraintSeeds
    (let new_space = BASE_SPACE + (length (t_players t) + 1) * BYTES_PER_PLAYER;
         (entry_pda, entry_bump) = find_program_address env (entry_seeds tournament_key player);
         entry = new_entry tournament_key player (length (t_players t)) commitment
                   (unix_timestamp env) entry_bump
     in
     and_then (realloc_account env player tournament_key new_space s) (\<lambda>s.
     check (entry_key = entry_pda) ConstraintSeeds
    (and_then (init_account env player entry_key ENTRY_LEN (EntryData entry) s) (\<lambda>s.
     check (t_state t = Registration) (Arena RegistrationClosed)
    (check (length (t_players t) < unat (c_max_participants config)) (Arena TournamentFull)
    (and_then (system_transfer player tournament_key (t_stake t) s) (\<lambda>s.
     Inr (store tournament_key (TournamentData (register_player player t) new_space) s))))))))))))"

section \<open>Revealing\<close>

text \<open>The preimages of the two kinds of commitment.\<close>

definition builtin_preimage :: "ArenaStrategy \<Rightarrow> u8 list \<Rightarrow> u8 list" where
  "builtin_preimage strategy salt = strategy_as_u8 strategy # salt"

definition custom_preimage :: "Env \<Rightarrow> u8 list \<Rightarrow> u8 list \<Rightarrow> u8 list" where
  "custom_preimage env code salt = strategy_as_u8 Strategy_Custom # sha256 env code @ salt"

text \<open>The checks of the two branches; the result is the entry with the bytecode stored.\<close>

definition check_commitment ::
  "Env \<Rightarrow> ArenaStrategy \<Rightarrow> u8 list \<Rightarrow> u8 list option \<Rightarrow> Entry \<Rightarrow> Error + Entry" where
  "check_commitment env strategy salt bytecode entry =
     (if strategy = Strategy_Custom then
        and_then (ok_or bytecode (Arena InvalidBytecode)) (\<lambda>code.
        check (code \<noteq> [] \<and> length code \<le> MAX_BYTECODE_LEN) (Arena InvalidBytecode)
       (check (validate_bytecode code = Inr ()) (Arena InvalidBytecode)
       (check (sha256 env (custom_preimage env code salt) = e_commitment entry) (Arena CommitmentMismatch)
       (Inr (entry\<lparr>e_bytecode_len := of_nat (length code),
                    e_bytecode := code @ drop (length code) (e_bytecode entry)\<rparr>)))))
      else
        check (sha256 env (builtin_preimage strategy salt) = e_commitment entry) (Arena CommitmentMismatch)
        (Inr entry))"

definition set_strategy :: "nat \<Rightarrow> ArenaStrategy \<Rightarrow> Tournament \<Rightarrow> Tournament" where
  "set_strategy idx strategy t = t\<lparr>
     t_strategies := (t_strategies t)[idx := strategy_as_u8 strategy],
     t_reveals_completed := t_reveals_completed t + 1\<rparr>"

definition reveal_strategy ::
  "Env \<Rightarrow> Pubkey \<Rightarrow> Pubkey \<Rightarrow> Pubkey \<Rightarrow> ArenaStrategy \<Rightarrow> u8 list \<Rightarrow> u8 list option \<Rightarrow> Ledger \<Rightarrow> Error + Ledger" where
  "reveal_strategy env entry_key tournament_key player strategy salt bytecode s =
     and_then (load_entry s entry_key) (\<lambda>entry.
     and_then (load_tournament s tournament_key) (\<lambda>(t, data_len).
     check (is_signer env player) AccountNotSigner
    (check (e_tournament entry = tournament_key) ConstraintHasOne
    (check (e_player entry = player) ConstraintHasOne
    (check (t_state t = Reveal) (Arena InvalidState)
    (check (sint (unix_timestamp env) \<le> sint (t_reveal_ends t)) (Arena RevealPeriodEnded)
    (check (\<not> e_revealed entry) (Arena AlreadyRevealed)
    (and_then (check_commitment env strategy salt bytecode entry) (\<lambda>entry.
     let idx = unat (e_index entry) in
     check (idx < length (t_strategies t)) Panicked
    (Inr (store tournament_key (TournamentData (set_strategy idx strategy t) data_len)
      (store entry_key (EntryData (entry\<lparr>e_strategy := strategy, e_revealed := True\<rparr>)) s))))))))))))"

section \<open>Refunds during registration\<close>

text \<open>The slot of a refunded player stays, emptied, so that the other indices keep their meaning.\<close>

definition clear_slot :: "nat \<Rightarrow> Tournament \<Rightarrow> Tournament" where
  "clear_slot idx t = t\<lparr>
     t_players := (t_players t)[idx := default_pubkey],
     t_strategies := (t_strategies t)[idx := - 1]\<rparr>"

definition claim_refund ::
  "Env \<Rightarrow> Pubkey \<Rightarrow> Pubkey \<Rightarrow> Pubkey \<Rightarrow> Ledger \<Rightarrow> Error + Ledger" where
  "claim_refund env tournament_key entry_key player s =
     and_then (load_tournament s tournament_key) (\<lambda>(t, data_len).
     and_then (load_entry s entry_key) (\<lambda>entry.
     check (is_signer env player) AccountNotSigner
    (check (seeds_ok env (tournament_seeds (t_id t)) (t_bump t) tournament_key) ConstraintSeeds
    (check (seeds_ok env (entry_seeds tournament_key player) (e_bump entry) entry_key) ConstraintSeeds
    (check (e_player entry = player) ConstraintHasOne
    (check (e_tournament entry = tournament_key) ConstraintHasOne
    (check (t_state t = Registration) (Arena InvalidState)
    (let refund_amount = t_stake t;
         s = move_lamports tournament_key player refund_amount s;
         idx = unat (e_index entry)
     in
     check (idx < length (t_players t) \<and> idx < length (t_strategies t)) Panicked
    (let t = clear_slot idx t in
     and_then (ok_or (checked_sub (t_participant_count t) 1) (Arena Overflow)) (\<lambda>participants.
     and_then (ok_or (checked_sub (t_entries_remaining t) 1) (Arena Overflow)) (\<lambda>remaining.
     and_then (ok_or (checked_sub (t_pool t) refund_amount) (Arena Overflow)) (\<lambda>pool.
     Inr (close_account entry_key player
       (store tournament_key
         (TournamentData (t\<lparr>t_participant_count := participants, t_entries_remaining := remaining,
                             t_pool := pool\<rparr>) data_len) s))))))))))))))"

section \<open>Claiming a prize\<close>

definition claim_payout ::
  "Env \<Rightarrow> Pubkey \<Rightarrow> Pubkey \<Rightarrow> Pubkey \<Rightarrow> Ledger \<Rightarrow> Error + Ledger" where
  "claim_payout env tournament_key entry_key player s =
     and_then (load_tournament s tournament_key) (\<lambda>(t, data_len).
     and_then (load_entry s entry_key) (\<lambda>entry.
     check (is_signer env player) AccountNotSigner
    (check (seeds_ok env (tournament_seeds (t_id t)) (t_bump t) tournament_key) ConstraintSeeds
    (check (seeds_ok env (entry_seeds tournament_key player) (e_bump entry) entry_key) ConstraintSeeds
    (check (e_player entry = player) ConstraintHasOne
    (check (e_tournament entry = tournament_key) ConstraintHasOne
    (check (t_state t = Payout) (Arena InvalidState)
    (check (\<not> e_paid_out entry) (Arena AlreadyPaid)
    (check (sint (unix_timestamp env) < sint (t_payout_started_at t + CLAIM_EXPIRY_SECONDS))
       (Arena ClaimExpired)
    (check (t_min_winning_score t \<le> e_score entry) (Arena NotWinner)
    (and_then (ok_or (checked_div (t_winner_pool t) (ucast (t_winner_count t))) (Arena Overflow)) (\<lambda>payout.
     let s = move_lamports tournament_key player payout s in
     and_then (ok_or (checked_sub (t_entries_remaining t) 1) (Arena Overflow)) (\<lambda>remaining.
     Inr (close_account entry_key player
       (store tournament_key
         (TournamentData (t\<lparr>t_claims_processed := t_claims_processed t + 1,
                             t_entries_remaining := remaining\<rparr>) data_len)
       (store entry_key (EntryData (entry\<lparr>e_paid_out := True\<rparr>)) s))))))))))))))))"

end
