(* ===== verification/Tournament_Ix.thy ===== *)
theory Tournament_Ix
  imports Player_Ix
begin

text \<open>
  The operator's instructions (\<^verbatim>\<open>tournament.rs\<close>): closing registration, forfeiting entries that
  were not revealed, closing the reveal phase, running the matches in batches, finalizing, and
  closing entries and tournaments.
\<close>

section \<open>Closing registration\<close>

definition operator_accounts :: "Env \<Rightarrow> Pubkey \<Rightarrow> Pubkey \<Rightarrow> Config \<Rightarrow> Error + 'a \<Rightarrow> Error + 'a" where
  "operator_accounts env config_key operator config k =
     check (is_signer env operator) AccountNotSigner
    (check (seeds_ok env config_seeds (c_bump config) config_key) ConstraintSeeds
    (check (c_operator config = operator) (Arena Unauthorized) k))"

definition close_registration ::
  "Env \<Rightarrow> Pubkey \<Rightarrow> Pubkey \<Rightarrow> Pubkey \<Rightarrow> Ledger \<Rightarrow> Error + Ledger" where
  "close_registration env config_key tournament_key operator s =
     and_then (load_config s config_key) (\<lambda>config.
     and_then (load_tournament s tournament_key) (\<lambda>(t, data_len).
     operator_accounts env config_key operator config
    (check (seeds_ok env (tournament_seeds (t_id t)) (t_bump t) tournament_key) ConstraintSeeds
    (check (t_state t = Registration) (Arena InvalidState)
    (check (sint (t_registration_ends t) \<le> sint (unix_timestamp env)) (Arena RegistrationOpen)
    (check (ucast (c_min_participants config) \<le> t_participant_count t) (Arena MinParticipantsNotReached)
    (and_then (ok_or (checked_add (t_operator_costs t) (c_operator_tx_fee config)) (Arena Overflow)) (\<lambda>costs.
     Inr (store tournament_key
       (TournamentData (t\<lparr>t_operator_costs := costs, t_state := Reveal,
                           t_reveal_ends := unix_timestamp env + t_reveal_duration t\<rparr>) data_len) s)))))))))"

section \<open>Closing the reveal phase\<close>

text \<open>\<open>rposition\<close>: the last index whose element satisfies the predicate.\<close>

definition rposition :: "('a \<Rightarrow> bool) \<Rightarrow> 'a list \<Rightarrow> nat option" where
  "rposition P xs = (case filter (\<lambda>i. P (xs ! i)) [0..<length xs] of [] \<Rightarrow> None | is \<Rightarrow> Some (last is))"

text \<open>The refund of the last active registrant when their number is odd.\<close>

definition refund_odd ::
  "Pubkey \<Rightarrow> Pubkey option \<Rightarrow> Pubkey option \<Rightarrow> Tournament \<Rightarrow> Ledger \<Rightarrow> Error + Tournament \<times> Ledger" where
  "refund_odd tournament_key refund_entry refund_player t s =
     and_then (ok_or (rposition (\<lambda>pk. pk \<noteq> default_pubkey) (t_players t)) (Arena InvalidState)) (\<lambda>last_index.
     let last_player = t_players t ! last_index in
     and_then (ok_or refund_entry (Arena InvalidEntryAccount)) (\<lambda>entry_key.
     and_then (ok_or refund_player (Arena InvalidEntryAccount)) (\<lambda>player_key.
     and_then (load_entry s entry_key) (\<lambda>entry.
     check (e_player entry = last_player \<and> player_key = last_player) (Arena InvalidEntryAccount)
    (check (e_index entry = of_nat last_index) (Arena InvalidEntryAccount)
    (let refund_amount = t_stake t;
         s = move_lamports tournament_key player_key refund_amount s
     in
     check (last_index < length (t_strategies t)) Panicked
    (let t = (clear_slot last_index t)\<lparr>
               t_participant_count := t_participant_count t - 1,
               t_reveals_completed := t_reveals_completed t - 1,
               t_pool := t_pool t - refund_amount,
               t_entries_remaining := t_entries_remaining t - 1\<rparr>
     in Inr (t, close_account entry_key player_key s))))))))"

text \<open>No active player is left: the tournament only waits for its finalization.\<close>

definition start_empty :: "Tournament \<Rightarrow> Tournament" where
  "start_empty t = t\<lparr>t_state := Running, t_matches_total := 0, t_matches_completed := 0\<rparr>"

definition mix_seed :: "u8 list \<Rightarrow> u32 \<Rightarrow> u8 list" where
  "mix_seed hash tid =
     fold (\<lambda>(i, b) seed. seed[i := seed ! i XOR b]) (enumerate 0 (u32_to_le_bytes tid)) hash"

definition start_running :: "u8 list \<Rightarrow> Tournament \<Rightarrow> Tournament" where
  "start_running slot_hash t =
     (let seed = mix_seed slot_hash (t_id t);
          active = t_participant_count t;
          k = effective_k active (t_matches_per_player t)
      in t\<lparr>t_randomness_seed := seed, t_matches_per_player := k,
           t_round_tier := (if active \<le> 1000 then 0 else 1),
           t_matches_total := calculate_match_count active k seed,
           t_state := Running\<rparr>)"

definition close_reveal ::
  "Env \<Rightarrow> Pubkey \<Rightarrow> Pubkey \<Rightarrow> Pubkey option \<Rightarrow> Pubkey option \<Rightarrow> Pubkey \<Rightarrow> Ledger \<Rightarrow> Error + Ledger" where
  "close_reveal env config_key tournament_key refund_entry refund_player operator s =
     and_then (load_config s config_key) (\<lambda>config.
     and_then (load_tournament s tournament_key) (\<lambda>(t, data_len).
     operator_accounts env config_key operator config
    (check (seeds_ok env (tournament_seeds (t_id t)) (t_bump t) tournament_key) ConstraintSeeds
    (check (t_state t = Reveal) (Arena InvalidState)
    (check (sint (t_reveal_ends t) < sint (unix_timestamp env)) (Arena RevealPeriodNotEnded)
    (and_then (ok_or (checked_add (t_operator_costs t) (c_operator_tx_fee config)) (Arena Overflow)) (\<lambda>costs.
     let t = t\<lparr>t_operator_costs := costs\<rparr> in
     check (t_reveals_completed t = t_participant_count t) (Arena UnprocessedForfeits)
    (if t_participant_count t = 0
     then Inr (store tournament_key (TournamentData (start_empty t) data_len) s)
     else
       and_then
        (if t_participant_count t mod 2 = 1
         then refund_odd tournament_key refund_entry refund_player t s
         else Inr (t, s)) (\<lambda>(t, s).
       if t_participant_count t = 0
       then Inr (store tournament_key (TournamentData (start_empty t) data_len) s)
       else
         check (48 \<le> length (slot_hashes env)) (Arena SlotHashUnavailable)
        (Inr (store tournament_key
          (TournamentData (start_running (take 32 (drop 16 (slot_hashes env))) t) data_len) s)))))))))))"

section \<open>Forfeits\<close>

definition forfeit_unrevealed ::
  "Env \<Rightarrow> Pubkey \<Rightarrow> Pubkey \<Rightarrow> Pubkey \<Rightarrow> Pubkey \<Rightarrow> Ledger \<Rightarrow> Error + Ledger" where
  "forfeit_unrevealed env config_key entry_key tournament_key operator s =
     and_then (load_config s config_key) (\<lambda>config.
     and_then (load_entry s entry_key) (\<lambda>entry.
     and_then (load_tournament s tournament_key) (\<lambda>(t, data_len).
     operator_accounts env config_key operator config
    (check (e_tournament entry = tournament_key) ConstraintHasOne
    (check (t_state t = Reveal) (Arena InvalidState)
    (check (sint (t_reveal_ends t) < sint (unix_timestamp env)) (Arena RevealPeriodNotEnded)
    (and_then (ok_or (checked_add (t_operator_costs t) (c_operator_tx_fee config)) (Arena Overflow)) (\<lambda>costs.
     check (\<not> e_revealed entry) (Arena AlreadyRevealed)
    (check (48 \<le> length (slot_hashes env)) (Arena SlotHashUnavailable)
    (let strategy_index = slot_hashes env ! (16 + unat (e_index entry) mod 32) mod 9 in
     and_then (ok_or (from_index strategy_index) (Arena InvalidState)) (\<lambda>strategy.
     let idx = unat (e_index entry) in
     check (idx < length (t_strategies t)) Panicked
    (Inr (store tournament_key
           (TournamentData (set_strategy idx strategy (t\<lparr>t_operator_costs := costs\<rparr>)) data_len)
         (store entry_key (EntryData (entry\<lparr>e_strategy := strategy, e_revealed := True\<rparr>)) s))))))))))))))"

section \<open>Running matches\<close>

definition find_entry_account :: "Env \<Rightarrow> Pubkey list \<Rightarrow> Pubkey \<Rightarrow> Pubkey \<Rightarrow> Error + Pubkey" where
  "find_entry_account env remaining_accounts tournament_key player_key =
     (let (expected_pda, bump) = find_program_address env (entry_seeds tournament_key player_key)
      in ok_or (find (\<lambda>account. account = expected_pda) remaining_accounts) (Arena InvalidEntryAccount))"

definition deserialize_entry :: "Ledger \<Rightarrow> Pubkey \<Rightarrow> Error + Entry" where
  "deserialize_entry s key =
     (case accounts s key of Some (EntryData e) \<Rightarrow> Inr e | _ \<Rightarrow> Inl (Arena InvalidEntryAccount))"

text \<open>The strategy an entry plays; the slice panics when the stored length exceeds the array.\<close>

definition entry_strategy :: "Entry \<Rightarrow> Error + PlayerStrategy" where
  "entry_strategy e =
     (if e_strategy e = Strategy_Custom then
        check (unat (e_bytecode_len e) \<le> length (e_bytecode e)) Panicked
        (Inr (to_player_strategy (e_strategy e) (Some (take (unat (e_bytecode_len e)) (e_bytecode e)))))
      else Inr (to_player_strategy (e_strategy e) None))"

definition add_result :: "u32 \<Rightarrow> Entry \<Rightarrow> Error + Entry" where
  "add_result score e =
     and_then (ok_or (checked_add (e_score e) score) (Arena Overflow)) (\<lambda>sum.
     Inr (e\<lparr>e_score := sum, e_matches_played := e_matches_played e + 1\<rparr>))"

definition add_score :: "nat \<Rightarrow> u32 \<Rightarrow> u32 list \<Rightarrow> Error + u32 list" where
  "add_score idx score scores =
     check (idx < length scores) Panicked
    (and_then (ok_or (checked_add (scores ! idx) score) (Arena Overflow)) (\<lambda>sum.
     Inr (scores[idx := sum])))"

text \<open>One iteration of the batch loop; \<open>get_pairing_for_match\<close> may panic (outer \<open>None\<close>).\<close>

definition run_one_match ::
  "Env \<Rightarrow> Pubkey list \<Rightarrow> Pubkey \<Rightarrow> u32 \<Rightarrow> Tournament \<times> Ledger \<Rightarrow> Error + Tournament \<times> Ledger" where
  "run_one_match env remaining_accounts tournament_key match_index = (\<lambda>(t, s).
     and_then (ok_or (get_pairing_for_match (t_participant_count t) (t_matches_per_player t)
                        (t_randomness_seed t) match_index) Panicked) (\<lambda>pairing.
     and_then (ok_or pairing (Arena InvalidMatch)) (\<lambda>(idx_a, idx_b).
     check (unat idx_a < length (t_players t)) (Arena InvalidMatch)
    (check (unat idx_b < length (t_players t)) (Arena InvalidMatch)
    (let player_a = t_players t ! unat idx_a; player_b = t_players t ! unat idx_b in
     if player_a = default_pubkey \<or> player_b = default_pubkey
     then Inr (t\<lparr>t_matches_completed := t_matches_completed t + 1\<rparr>, s)
     else
       and_then (find_entry_account env remaining_accounts tournament_key player_a) (\<lambda>key_a.
       and_then (find_entry_account env remaining_accounts tournament_key player_b) (\<lambda>key_b.
       and_then (deserialize_entry s key_a) (\<lambda>entry_a.
       and_then (deserialize_entry s key_b) (\<lambda>entry_b.
       check (e_index entry_a = idx_a) (Arena InvalidEntryAccount)
      (check (e_index entry_b = idx_b) (Arena InvalidEntryAccount)
      (and_then (entry_strategy entry_a) (\<lambda>strategy_a.
       and_then (entry_strategy entry_b) (\<lambda>strategy_b.
       let result = run_match strategy_a strategy_b (t_randomness_seed t) match_index (t_participant_count t) in
       and_then (add_result (total_score_a result) entry_a) (\<lambda>entry_a.
       and_then (add_result (total_score_b result) entry_b) (\<lambda>entry_b.
       and_then (add_score (unat idx_a) (total_score_a result) (t_scores t)) (\<lambda>scores.
       and_then (add_score (unat idx_b) (total_score_b result) scores) (\<lambda>scores.
       Inr (t\<lparr>t_scores := scores, t_matches_completed := t_matches_completed t + 1\<rparr>,
            store key_b (EntryData entry_b) (store key_a (EntryData entry_a) s)))))))))))))))))))"

fun run_batch ::
  "Env \<Rightarrow> Pubkey list \<Rightarrow> Pubkey \<Rightarrow> u32 list \<Rightarrow> Tournament \<times> Ledger \<Rightarrow> Error + Tournament \<times> Ledger" where
  "run_batch env remaining_accounts tournament_key [] ts = Inr ts"
| "run_batch env remaining_accounts tournament_key (i # is) ts =
     and_then (run_one_match env remaining_accounts tournament_key i ts)
       (run_batch env remaining_accounts tournament_key is)"

text \<open>The check that every occupied slot has a strategy; indexing \<open>strategies\<close> may panic.\<close>

fun all_revealed :: "Pubkey list \<Rightarrow> u8 list \<Rightarrow> Error + unit" where
  "all_revealed [] strategies = Inr ()"
| "all_revealed (p # ps) strategies =
     (if p = default_pubkey then all_revealed ps (tl strategies)
      else
        check (strategies \<noteq> []) Panicked
       (check (hd strategies \<noteq> - 1) (Arena UnrevealedStrategy)
       (all_revealed ps (tl strategies))))"

definition run_matches ::
  "Env \<Rightarrow> Pubkey \<Rightarrow> Pubkey \<Rightarrow> Pubkey \<Rightarrow> Pubkey list \<Rightarrow> Ledger \<Rightarrow> Error + Ledger" where
  "run_matches env config_key tournament_key operator remaining_accounts s =
     and_then (load_config s config_key) (\<lambda>config.
     and_then (load_tournament s tournament_key) (\<lambda>(t, data_len).
     operator_accounts env config_key operator config
    (check (seeds_ok env (tournament_seeds (t_id t)) (t_bump t) tournament_key) ConstraintSeeds
    (check (t_state t = Running) (Arena InvalidState)
    (let matches_to_run = min MATCHES_PER_TX (t_matches_total t - t_matches_completed t) in
     if matches_to_run = 0 then Inr s
     else
       and_then (ok_or (checked_add (t_operator_costs t) (c_operator_tx_fee config)) (Arena Overflow)) (\<lambda>costs.
       and_then (all_revealed (t_players t) (t_strategies t)) (\<lambda>_.
       let start_index = t_matches_completed t;
           indices = map (\<lambda>batch_idx. start_index + of_nat batch_idx) [0..<unat matches_to_run]
       in and_then (run_batch env remaining_accounts tournament_key indices (t\<lparr>t_operator_costs := costs\<rparr>, s)) (\<lambda>(t, s).
          Inr (store tournament_key (TournamentData t data_len) s)))))))))"

section \<open>Finalizing\<close>

definition transferable_lamports :: "Env \<Rightarrow> Pubkey \<Rightarrow> nat \<Rightarrow> Ledger \<Rightarrow> u64" where
  "transferable_lamports env key data_len s = saturating_sub (lamports s key) (minimum_balance env data_len)"

definition add_fees :: "u64 \<Rightarrow> Config \<Rightarrow> Error + Config" where
  "add_fees amount config =
     and_then (ok_or (checked_add (c_accumulated_fees config) amount) (Arena Overflow)) (\<lambda>fees.
     Inr (config\<lparr>c_accumulated_fees := fees\<rparr>))"

text \<open>No active player: the operator is reimbursed and the rest goes to the fees.\<close>

definition finalize_empty ::
  "Env \<Rightarrow> Pubkey \<Rightarrow> Pubkey \<Rightarrow> Pubkey \<Rightarrow> nat \<Rightarrow> Config \<Rightarrow> Tournament \<Rightarrow> Ledger \<Rightarrow> Error + Config \<times> Tournament \<times> Ledger" where
  "finalize_empty env config_key tournament_key operator data_len config t s =
     (let transferable = transferable_lamports env tournament_key data_len s;
          operator_reimbursement = min (t_operator_costs t) transferable;
          s = (if 0 < operator_reimbursement
               then move_lamports tournament_key operator operator_reimbursement s else s);
          remaining = transferable_lamports env tournament_key data_len s;
          t = t\<lparr>t_winner_count := 0, t_winner_pool := 0, t_min_winning_score := 0,
                t_payout_started_at := unix_timestamp env, t_state := Payout\<rparr>
      in if 0 < remaining
         then and_then (add_fees remaining config) (\<lambda>config.
              Inr (config, t, move_lamports tournament_key config_key remaining s))
         else Inr (config, t, s))"

text \<open>The scores of the occupied slots, best first.\<close>

definition sorted_scores :: "Tournament \<Rightarrow> u32 list" where
  "sorted_scores t =
     rev (sort (map snd (filter (\<lambda>(i, _). t_players t ! i \<noteq> default_pubkey) (enumerate 0 (t_scores t)))))"

definition target_winners :: "u32 \<Rightarrow> u32" where
  "target_winners active = max 1 (div_ceil active 4)"

definition winning_threshold :: "u32 \<Rightarrow> u32 list \<Rightarrow> u32" where
  "winning_threshold active scores =
     (let i = unat (target_winners active - 1) in if i < length scores then scores ! i else 0)"

definition count_winners :: "u32 \<Rightarrow> u32 list \<Rightarrow> u32" where
  "count_winners threshold scores = of_nat (length (filter (\<lambda>x. threshold \<le> x) scores))"

definition calc_house_fee :: "Tournament \<Rightarrow> Error + u64" where
  "calc_house_fee t =
     and_then (ok_or (checked_mul (t_pool t) (ucast (t_house_fee_bps t))) (Arena Overflow)) (\<lambda>product.
     ok_or (checked_div product 10000) (Arena Overflow))"

definition finalize_winners ::
  "Env \<Rightarrow> Pubkey \<Rightarrow> Pubkey \<Rightarrow> Pubkey \<Rightarrow> nat \<Rightarrow> Config \<Rightarrow> Tournament \<Rightarrow> Ledger \<Rightarrow> Error + Config \<times> Tournament \<times> Ledger" where
  "finalize_winners env config_key tournament_key operator data_len config t s =
     check (length (t_scores t) \<le> length (t_players t)) Panicked
    (let scores = sorted_scores t;
         threshold = winning_threshold (t_participant_count t) scores;
         winners = count_winners threshold scores;
         operator_reimbursement = t_operator_costs t
     in
     and_then (calc_house_fee t) (\<lambda>house_fee.
     let max_distributable = transferable_lamports env tournament_key data_len s;
         pool_after_deductions = saturating_sub (saturating_sub (t_pool t) house_fee) operator_reimbursement;
         winner_pool_raw = min pool_after_deductions max_distributable
     in
     check (winners \<noteq> 0) Panicked
    (let per_winner = winner_pool_raw div ucast winners;
         dust = winner_pool_raw - per_winner * ucast winners
     in
     and_then (ok_or (checked_add house_fee dust) (Arena Overflow)) (\<lambda>fee_total.
     and_then (add_fees fee_total config) (\<lambda>config.
     let s = move_lamports tournament_key config_key fee_total s;
         max_operator = transferable_lamports env tournament_key data_len s;
         actual_reimbursement = min operator_reimbursement max_operator;
         s = (if 0 < operator_reimbursement \<and> 0 < actual_reimbursement
              then move_lamports tournament_key operator actual_reimbursement s else s)
     in Inr (config,
          t\<lparr>t_min_winning_score := threshold, t_winner_count := winners,
            t_winner_pool := per_winner * ucast winners,
            t_payout_started_at := unix_timestamp env, t_state := Payout\<rparr>, s))))))"

text \<open>The reimbursement for this transaction and for those that close the entries and the tournament.\<close>

definition final_operator_costs :: "Config \<Rightarrow> Tournament \<Rightarrow> Error + u64" where
  "final_operator_costs config t =
     and_then (ok_or (checked_add (t_operator_costs t) (c_operator_tx_fee config)) (Arena Overflow)) (\<lambda>costs.
     and_then (ok_or (checked_add (ucast (t_entries_remaining t)) 1) (Arena Overflow)) (\<lambda>txs.
     and_then (ok_or (checked_mul txs (c_operator_tx_fee config)) (Arena Overflow)) (\<lambda>later.
     ok_or (checked_add costs later) (Arena Overflow))))"

definition finalize_tournament ::
  "Env \<Rightarrow> Pubkey \<Rightarrow> Pubkey \<Rightarrow> Pubkey \<Rightarrow> Pubkey \<Rightarrow> Ledger \<Rightarrow> Error + Ledger" where
  "finalize_tournament env config_key tournament_key next_key operator s =
     and_then (load_config s config_key) (\<lambda>config.
     and_then (load_tournament s tournament_key) (\<lambda>(t, data_len).
     operator_accounts env config_key operator config
    (check (seeds_ok env (tournament_seeds (t_id t)) (t_bump t) tournament_key) ConstraintSeeds
    (let next_id = c_current_tournament_id config + 1;
         (next_pda, next_bump) = find_program_address env (tournament_seeds next_id);
         next = new_tournament next_id config (unix_timestamp env) next_bump
     in
     check (next_key = next_pda) ConstraintSeeds
    (and_then (init_account env operator next_key BASE_SPACE (TournamentData next BASE_SPACE) s) (\<lambda>s.
     check (t_state t = Running) (Arena InvalidState)
    (check (t_matches_total t \<le> t_matches_completed t) (Arena MatchesIncomplete)
    (and_then (final_operator_costs config t) (\<lambda>costs.
     let t = t\<lparr>t_operator_costs := costs\<rparr>;
         finalize = (if t_participant_count t = 0 then finalize_empty else finalize_winners)
     in
     and_then (finalize env config_key tournament_key operator data_len config t s) (\<lambda>(config, t, s).
     Inr (store config_key (ConfigData (config\<lparr>c_current_tournament_id := next_id\<rparr>))
         (store tournament_key (TournamentData t data_len) s))))))))))))"

section \<open>Closing entries and tournaments\<close>

text \<open>The payment of an unpaid winner when the operator closes the entry.\<close>

definition settle_entry ::
  "Env \<Rightarrow> Pubkey \<Rightarrow> Pubkey \<Rightarrow> Pubkey \<Rightarrow> nat \<Rightarrow> Config \<Rightarrow> Tournament \<Rightarrow> Ledger \<Rightarrow> Error + Config \<times> Tournament \<times> Ledger" where
  "settle_entry env config_key tournament_key player data_len config t s =
     (let expired = sint (t_payout_started_at t + CLAIM_EXPIRY_SECONDS) \<le> sint (unix_timestamp env);
          share = t_winner_pool t div ucast (t_winner_count t);
          transfer = min share (transferable_lamports env tournament_key data_len s)
      in if expired then
           if 0 < transfer
           then and_then (add_fees transfer config) (\<lambda>config.
                Inr (config, t, move_lamports tournament_key config_key transfer s))
           else Inr (config, t, s)
         else
           Inr (config, t\<lparr>t_claims_processed := t_claims_processed t + 1\<rparr>,
                if 0 < transfer then move_lamports tournament_key player transfer s else s))"

definition close_entry ::
  "Env \<Rightarrow> Pubkey \<Rightarrow> Pubkey \<Rightarrow> Pubkey \<Rightarrow> Pubkey \<Rightarrow> Pubkey \<Rightarrow> Ledger \<Rightarrow> Error + Ledger" where
  "close_entry env config_key tournament_key entry_key player operator s =
     and_then (load_config s config_key) (\<lambda>config.
     and_then (load_tournament s tournament_key) (\<lambda>(t, data_len).
     and_then (load_entry s entry_key) (\<lambda>entry.
     operator_accounts env config_key operator config
    (check (seeds_ok env (tournament_seeds (t_id t)) (t_bump t) tournament_key) ConstraintSeeds
    (check (seeds_ok env (entry_seeds tournament_key (e_player entry)) (e_bump entry) entry_key) ConstraintSeeds
    (check (e_tournament entry = tournament_key) ConstraintHasOne
    (check (player = e_player entry) (Arena InvalidEntryAccount)
    (check (t_state t = Payout) (Arena InvalidState)
    (and_then
      (if \<not> e_paid_out entry \<and> 0 < t_winner_count t \<and> t_min_winning_score t \<le> e_score entry
       then settle_entry env config_key tournament_key player data_len config t s
       else Inr (config, t, s)) (\<lambda>(config, t, s).
     and_then (ok_or (checked_sub (t_entries_remaining t) 1) (Arena Overflow)) (\<lambda>remaining.
     Inr (close_account entry_key player
       (store config_key (ConfigData config)
       (store tournament_key (TournamentData (t\<lparr>t_entries_remaining := remaining\<rparr>) data_len) s))))))))))))))"

definition close_tournament ::
  "Env \<Rightarrow> Pubkey \<Rightarrow> Pubkey \<Rightarrow> Pubkey \<Rightarrow> Ledger \<Rightarrow> Error + Ledger" where
  "close_tournament env config_key tournament_key operator s =
     and_then (load_config s config_key) (\<lambda>config.
     and_then (load_tournament s tournament_key) (\<lambda>(t, data_len).
     check (is_signer env operator) AccountNotSigner
    (check (seeds_ok env config_seeds (c_bump config) config_key) ConstraintSeeds
    (check (seeds_ok env (tournament_seeds (t_id t)) (t_bump t) tournament_key) ConstraintSeeds
    (check (operator = c_operator config \<or> operator = c_admin config) (Arena Unauthorized)
    (check (t_state t = Payout) (Arena InvalidState)
    (check (sint (t_payout_started_at t + TOURNAMENT_CLOSURE_SECONDS) \<le> sint (unix_timestamp env) \<or>
            t_winner_count t \<le> t_claims_processed t) (Arena TournamentNotCloseable)
    (check (t_entries_remaining t = 0) (Arena EntriesRemaining)
    (let total_lamports = lamports s tournament_key in
     and_then
      (if 0 < total_lamports
       then and_then (add_fees total_lamports config) (\<lambda>config.
            Inr (config, move_lamports tournament_key config_key total_lamports s))
       else Inr (config, s)) (\<lambda>(config, s).
     Inr (remove_account tournament_key (store config_key (ConfigData config) s))))))))))))"

end
