(* ===== verification/Ledger_Laws.thy ===== *)
theory Ledger_Laws
  imports Arena_State
begin

text \<open>
  Laws of the ledger operations: what each of them reads and writes, and that moving lamports keeps
  the total supply. The inversion rules at the end turn a successful handler into its conditions.
\<close>

section \<open>Reading after writing\<close>

lemma accounts_store [simp]: "accounts (store k d s) = (accounts s)(k \<mapsto> d)"
  and accounts_debit [simp]: "accounts (debit k a s) = accounts s"
  and accounts_credit [simp]: "accounts (credit k a s) = accounts s"
  and accounts_move [simp]: "accounts (move_lamports x y a s) = accounts s"
  and accounts_remove [simp]: "accounts (remove_account k s) = (accounts s)(k := None)"
  and accounts_close [simp]: "accounts (close_account k y s) = (accounts s)(k := None)"
  by (simp_all add: store_def debit_def credit_def move_lamports_def remove_account_def close_account_def)

lemma lamports_store [simp]: "lamports (store k d s) = lamports s"
  and lamports_remove [simp]: "lamports (remove_account k s) = lamports s"
  and lamports_close [simp]: "lamports (close_account k y s) = lamports (move_lamports k y (lamports s k) s)"
  by (simp_all add: store_def remove_account_def close_account_def)

lemma lamports_move:
  "lamports (move_lamports x y a s) k =
     (if x = y then lamports s k
      else if k = x then lamports s k - a
      else if k = y then lamports s k + a
      else lamports s k)"
  by (auto simp: move_lamports_def debit_def credit_def)

section \<open>The supply of lamports\<close>

definition lamport_supply :: "Ledger \<Rightarrow> nat" where
  "lamport_supply s = (\<Sum>k\<in>UNIV. unat (lamports s k))"

lemma supply_store [simp]: "lamport_supply (store k d s) = lamport_supply s"
  and supply_remove [simp]: "lamport_supply (remove_account k s) = lamport_supply s"
  by (simp_all add: lamport_supply_def)

lemma finite_pubkeys [simp]: "finite (UNIV :: Pubkey set)"
  by simp

lemma lamports_pair_le_supply:
  assumes "x \<noteq> y"
  shows "unat (lamports s x) + unat (lamports s y) \<le> lamport_supply s"
proof -
  have "(\<Sum>k\<in>{x, y}. unat (lamports s k)) \<le> lamport_supply s"
    unfolding lamport_supply_def by (intro sum_mono2) auto
  with assms show ?thesis by simp
qed

lemma lamports_le_supply: "unat (lamports s x) \<le> lamport_supply s"
proof -
  have "(\<Sum>k\<in>{x}. unat (lamports s k)) \<le> lamport_supply s"
    unfolding lamport_supply_def by (intro sum_mono2) auto
  then show ?thesis by simp
qed

text \<open>All lamports together fit into a word, as on the network, so a credit never wraps around.\<close>

definition funded :: "Ledger \<Rightarrow> bool" where
  "funded s \<longleftrightarrow> lamport_supply s < 2 ^ 64"

lemma unat_move_from:
  "x \<noteq> y \<Longrightarrow> a \<le> lamports s x \<Longrightarrow> unat (lamports (move_lamports x y a s) x) = unat (lamports s x) - unat a"
  by (simp add: lamports_move word_nat)

lemma unat_move_to:
  assumes "funded s" "x \<noteq> y" "a \<le> lamports s x"
  shows "unat (lamports (move_lamports x y a s) y) = unat (lamports s y) + unat a"
proof -
  have "unat (lamports s y) + unat a \<le> lamport_supply s"
    using lamports_pair_le_supply [OF assms(2), of s] assms(3) by (simp add: word_le_nat_alt)
  with assms show ?thesis by (simp add: lamports_move word_nat funded_def)
qed

lemma move_other: "k \<noteq> x \<Longrightarrow> k \<noteq> y \<Longrightarrow> lamports (move_lamports x y a s) k = lamports s k"
  by (simp add: lamports_move)

lemma move_same [simp]: "lamports (move_lamports x x a s) = lamports s"
  by (rule ext) (simp add: lamports_move)

lemma supply_move:
  assumes "funded s" "a \<le> lamports s x"
  shows "lamport_supply (move_lamports x y a s) = lamport_supply s"
proof (cases "x = y")
  case True
  then show ?thesis by (simp add: lamport_supply_def)
next
  case False
  let ?f = "\<lambda>k. unat (lamports s k)" and ?g = "\<lambda>k. unat (lamports (move_lamports x y a s) k)"
  have split: "sum h UNIV = h x + h y + sum h (UNIV - {x, y})" for h :: "Pubkey \<Rightarrow> nat"
    using sum.subset_diff [of "{x, y}" UNIV h] False by simp
  have "sum ?g (UNIV - {x, y}) = sum ?f (UNIV - {x, y})"
    by (rule sum.cong) (auto simp: move_other)
  moreover have "?g x + ?g y = ?f x + ?f y"
    using unat_move_from [OF False assms(2)] unat_move_to [OF assms(1) False assms(2)] assms(2)
    by (simp add: word_le_nat_alt)
  ultimately show ?thesis unfolding lamport_supply_def split [of ?f] split [of ?g] by simp
qed

lemma funded_move: "funded s \<Longrightarrow> a \<le> lamports s x \<Longrightarrow> funded (move_lamports x y a s)"
  by (simp add: funded_def supply_move)

lemma funded_store [simp]: "funded (store k d s) \<longleftrightarrow> funded s"
  and funded_remove [simp]: "funded (remove_account k s) \<longleftrightarrow> funded s"
  by (simp_all add: funded_def)

lemma supply_close: "funded s \<Longrightarrow> lamport_supply (close_account k y s) = lamport_supply s"
  by (simp add: close_account_def supply_move)

section \<open>Inversion\<close>

lemma load_config_Inr_iff: "load_config s k = Inr c \<longleftrightarrow> accounts s k = Some (ConfigData c)"
  by (auto simp: load_config_def split: option.splits AccountData.splits)

lemma load_tournament_Inr_iff: "load_tournament s k = Inr (t, n) \<longleftrightarrow> accounts s k = Some (TournamentData t n)"
  by (auto simp: load_tournament_def split: option.splits AccountData.splits)

lemma load_entry_Inr_iff: "load_entry s k = Inr e \<longleftrightarrow> accounts s k = Some (EntryData e)"
  by (auto simp: load_entry_def split: option.splits AccountData.splits)

lemma system_transfer_Inr_iff:
  "system_transfer x y a s = Inr s' \<longleftrightarrow> a \<le> lamports s x \<and> s' = move_lamports x y a s"
  by (auto simp: system_transfer_def check_Inr_iff)

lemma init_account_Inr_iff:
  "init_account env payer k space d s = Inr s' \<longleftrightarrow>
     accounts s k = None \<and> rent_top_up env space (lamports s k) \<le> lamports s payer \<and>
     s' = store k d (move_lamports payer k (rent_top_up env space (lamports s k)) s)"
  by (auto simp: init_account_def check_Inr_iff and_then_Inr_iff system_transfer_Inr_iff)

lemmas handler_iffs =
  and_then_Inr_iff check_Inr_iff require_Inr_iff ok_or_Inr_iff load_config_Inr_iff
  load_tournament_Inr_iff load_entry_Inr_iff system_transfer_Inr_iff init_account_Inr_iff

end
