(* ===== verification/Handler_Effects.thy ===== *)
theory Handler_Effects
  imports Admin_Ix Tournament_Ix Ledger_Laws
begin

text \<open>
  What a successful instruction did: for every handler an elimination rule that lists the conditions
  under which it succeeds and the ledger it leaves. The proofs take the handler apart with one
  elimination rule per construct, in the order of the source.
\<close>

section \<open>One rule per construct\<close>

lemma load_configE:
  assumes "and_then (load_config s k) f = Inr y"
  obtains c where "accounts s k = Some (ConfigData c)" "f c = Inr y"
  using assms by (auto simp: and_then_Inr_iff load_config_Inr_iff)

lemma load_tournamentE:
  assumes "and_then (load_tournament s k) (\<lambda>(t, n). f t n) = Inr y"
  obtains t n where "accounts s k = Some (TournamentData t n)" "f t n = Inr y"
  using assms by (auto simp: and_then_Inr_iff load_tournament_Inr_iff)

lemma load_entryE:
  assumes "and_then (load_entry s k) f = Inr y"
  obtains e where "accounts s k = Some (EntryData e)" "f e = Inr y"
  using assms by (auto simp: and_then_Inr_iff load_entry_Inr_iff)

lemma checkE:
  assumes "check c e k = Inr y"
  obtains c "k = Inr y"
  using assms by (simp add: check_Inr_iff)

lemma ok_orE:
  assumes "and_then (ok_or x e) f = Inr y"
  obtains v where "x = Some v" "f v = Inr y"
  using assms by (auto simp: and_then_Inr_iff ok_or_Inr_iff)

lemma checked_subE:
  assumes "and_then (ok_or (checked_sub a b) e) f = Inr y"
  obtains "b \<le> a" "f (a - b) = Inr y"
  using assms by (auto simp: and_then_Inr_iff ok_or_Inr_iff checked_sub_def split: if_splits)

lemma checked_divE:
  assumes "and_then (ok_or (checked_div a b) e) f = Inr y"
  obtains "b \<noteq> 0" "f (a div b) = Inr y"
  using assms by (auto simp: and_then_Inr_iff ok_or_Inr_iff checked_div_def split: if_splits)

lemma transferE:
  assumes "and_then (system_transfer x z a s) f = Inr y"
  obtains "a \<le> lamports s x" "f (move_lamports x z a s) = Inr y"
  using assms by (auto simp: and_then_Inr_iff system_transfer_Inr_iff)

lemma init_accountE:
  assumes "and_then (init_account env payer k space d s) f = Inr y"
  obtains "accounts s k = None" "rent_top_up env space (lamports s k) \<le> lamports s payer"
    "f (store k d (move_lamports payer k (rent_top_up env space (lamports s k)) s)) = Inr y"
  using assms by (auto simp: and_then_Inr_iff init_account_Inr_iff)

lemma and_then_pairE:
  assumes "and_then r (\<lambda>(a, b). f a b) = Inr y"
  obtains a b where "r = Inr (a, b)" "f a b = Inr y"
  using assms by (auto simp: and_then_Inr_iff)

lemma and_then_tripleE:
  assumes "and_then r (\<lambda>(a, b, c). f a b c) = Inr y"
  obtains a b c where "r = Inr (a, b, c)" "f a b c = Inr y"
  using assms by (auto simp: and_then_Inr_iff)

lemma and_thenE:
  assumes "and_then r f = Inr y"
  obtains x where "r = Inr x" "f x = Inr y"
  using assms by (auto simp: and_then_Inr_iff)

lemma case_pairE:
  assumes "(case x of (a, b) \<Rightarrow> f a b) = Inr y"
  obtains "f (fst x) (snd x) = Inr y"
  using assms by (simp add: case_prod_beta)

lemma if_InrE:
  assumes "(if c then a else b) = Inr y"
  obtains c "a = Inr y" | "\<not> c" "b = Inr y"
  using assms by (auto split: if_splits)

lemma InrE:
  assumes "Inr x = (Inr y :: 'a + 'b)"
  obtains "y = x"
  using assms by simp

lemmas effect_elims = load_configE load_tournamentE load_entryE checkE checked_subE checked_divE ok_orE transferE init_accountE
  and_then_tripleE and_then_pairE and_thenE case_pairE InrE

section \<open>The handlers\<close>

lemma withdraw_feesE:
  assumes "withdraw_fees env ck admin s = Inr s'"
  obtains c amount where
    "accounts s ck = Some (ConfigData c)"
    "is_signer env admin"
    "seeds_ok env config_seeds (c_bump c) ck"
    "c_admin c = admin"
    "0 < c_accumulated_fees c"
    "amount = min (c_accumulated_fees c) (saturating_sub (lamports s ck) (minimum_balance env CONFIG_LEN))"
    "s' = move_lamports ck admin amount (store ck (ConfigData (c\<lparr>c_accumulated_fees := c_accumulated_fees c - amount\<rparr>)) s)"
  using assms unfolding withdraw_fees_def Let_def
  by (elim effect_elims) (rule that; (assumption | rule refl)?)

lemma update_configE:
  assumes "update_config env ck admin params s = Inr s'"
  obtains c c' where
    "accounts s ck = Some (ConfigData c)"
    "is_signer env admin"
    "seeds_ok env config_seeds (c_bump c) ck"
    "c_admin c = admin"
    "apply_update params c = Inr c'"
    "s' = store ck (ConfigData c') s"
  using assms unfolding update_config_def Let_def
  by (elim effect_elims) (rule that; (assumption | rule refl)?)

lemma initialize_configE:
  assumes "initialize_config env ck tk admin params s = Inr s'"
  obtains bump bump' c t s1 s2 where
    "is_signer env admin"
    "ck = fst (find_program_address env config_seeds)"
    "bump = snd (find_program_address env config_seeds)"
    "tk = fst (find_program_address env (tournament_seeds 0))"
    "bump' = snd (find_program_address env (tournament_seeds 0))"
    "c = initial_config admin params bump"
    "t = new_tournament 0 c (unix_timestamp env) bump'"
    "accounts s ck = None"
    "rent_top_up env CONFIG_LEN (lamports s ck) \<le> lamports s admin"
    "s1 = store ck (ConfigData c) (move_lamports admin ck (rent_top_up env CONFIG_LEN (lamports s ck)) s)"
    "accounts s1 tk = None"
    "rent_top_up env BASE_SPACE (lamports s1 tk) \<le> lamports s1 admin"
    "s2 = store tk (TournamentData t BASE_SPACE) (move_lamports admin tk (rent_top_up env BASE_SPACE (lamports s1 tk)) s1)"
    "2 \<le> ip_min_participants params"
    "ip_min_participants params mod 2 = 0"
    "0 < ip_stake params"
    "ip_min_participants params \<le> ip_max_participants params"
    "0 < sint (ip_registration_duration params)"
    "0 < ip_matches_per_player params"
    "0 < sint (ip_reveal_duration params)"
    "s' = s2"
  using assms unfolding initialize_config_def Let_def
  by (elim effect_elims conjE) (rule that; (assumption | rule refl)?)

lemma enter_tournamentE:
  assumes "enter_tournament env ck tk ek p commitment s = Inr s'"
  obtains c t n bump s1 s2 s3 where
    "accounts s ck = Some (ConfigData c)"
    "accounts s tk = Some (TournamentData t n)"
    "is_signer env p"
    "seeds_ok env config_seeds (c_bump c) ck"
    "seeds_ok env (tournament_seeds (t_id t)) (t_bump t) tk"
    "ek = fst (find_program_address env (entry_seeds tk p))"
    "bump = snd (find_program_address env (entry_seeds tk p))"
    "rent_top_up env (space_for_next_player t) (lamports s tk) \<le> lamports s p"
    "s1 = move_lamports p tk (rent_top_up env (space_for_next_player t) (lamports s tk)) s"
    "accounts s1 ek = None"
    "rent_top_up env ENTRY_LEN (lamports s1 ek) \<le> lamports s1 p"
    "s2 = store ek (EntryData (new_entry tk p (length (t_players t)) commitment (unix_timestamp env) bump))
            (move_lamports p ek (rent_top_up env ENTRY_LEN (lamports s1 ek)) s1)"
    "t_state t = Registration"
    "length (t_players t) < unat (c_max_participants c)"
    "t_stake t \<le> lamports s2 p"
    "s3 = move_lamports p tk (t_stake t) s2"
    "s' = store tk (TournamentData (register_player p t) (space_for_next_player t)) s3"
  using assms unfolding enter_tournament_def realloc_account_def space_for_next_player_def [symmetric] Let_def
  by (elim effect_elims) (rule that; (assumption | rule refl)?)

lemma reveal_strategyE:
  assumes "reveal_strategy env ek tk p strategy salt code s = Inr s'"
  obtains e t n e' where
    "accounts s ek = Some (EntryData e)"
    "accounts s tk = Some (TournamentData t n)"
    "is_signer env p"
    "e_tournament e = tk"
    "e_player e = p"
    "t_state t = Reveal"
    "sint (unix_timestamp env) \<le> sint (t_reveal_ends t)"
    "\<not> e_revealed e"
    "check_commitment env strategy salt code e = Inr e'"
    "unat (e_index e') < length (t_strategies t)"
    "s' = store tk (TournamentData (set_strategy (unat (e_index e')) strategy t) n)
            (store ek (EntryData (e'\<lparr>e_strategy := strategy, e_revealed := True\<rparr>)) s)"
  using assms unfolding reveal_strategy_def Let_def
  by (elim effect_elims) (rule that; (assumption | rule refl)?)

lemma claim_refundE:
  assumes "claim_refund env tk ek p s = Inr s'"
  obtains e t n t1 where
    "accounts s tk = Some (TournamentData t n)"
    "accounts s ek = Some (EntryData e)"
    "is_signer env p"
    "seeds_ok env (tournament_seeds (t_id t)) (t_bump t) tk"
    "seeds_ok env (entry_seeds tk p) (e_bump e) ek"
    "e_player e = p"
    "e_tournament e = tk"
    "t_state t = Registration"
    "unat (e_index e) < length (t_players t)"
    "unat (e_index e) < length (t_strategies t)"
    "t1 = clear_slot (unat (e_index e)) t"
    "1 \<le> t_participant_count t1"
    "1 \<le> t_entries_remaining t1"
    "t_stake t \<le> t_pool t1"
    "s' = close_account ek p (store tk (TournamentData (t1\<lparr>t_participant_count := t_participant_count t1 - 1,
            t_entries_remaining := t_entries_remaining t1 - 1, t_pool := t_pool t1 - t_stake t\<rparr>) n)
            (move_lamports tk p (t_stake t) s))"
  using assms unfolding claim_refund_def Let_def
  by (elim effect_elims conjE) (rule that; (assumption | rule refl)?)

lemma claim_payoutE:
  assumes "claim_payout env tk ek p s = Inr s'"
  obtains e t n payout t' where
    "accounts s tk = Some (TournamentData t n)"
    "accounts s ek = Some (EntryData e)"
    "is_signer env p"
    "seeds_ok env (tournament_seeds (t_id t)) (t_bump t) tk"
    "seeds_ok env (entry_seeds tk p) (e_bump e) ek"
    "e_player e = p"
    "e_tournament e = tk"
    "t_state t = Payout"
    "\<not> e_paid_out e"
    "sint (unix_timestamp env) < sint (t_payout_started_at t + CLAIM_EXPIRY_SECONDS)"
    "t_min_winning_score t \<le> e_score e"
    "ucast (t_winner_count t) \<noteq> (0 :: u64)"
    "payout = t_winner_pool t div ucast (t_winner_count t)"
    "1 \<le> t_entries_remaining t"
    "t' = t\<lparr>t_claims_processed := t_claims_processed t + 1, t_entries_remaining := t_entries_remaining t - 1\<rparr>"
    "s' = close_account ek p (store tk (TournamentData t' n) (store ek (EntryData (e\<lparr>e_paid_out := True\<rparr>)) (move_lamports tk p payout s)))"
  using assms unfolding claim_payout_def Let_def
  by (elim effect_elims conjE) (rule that; (assumption | rule refl)?)

lemma close_registrationE:
  assumes "close_registration env ck tk op s = Inr s'"
  obtains c t n costs where
    "accounts s ck = Some (ConfigData c)"
    "accounts s tk = Some (TournamentData t n)"
    "is_signer env op"
    "seeds_ok env config_seeds (c_bump c) ck"
    "c_operator c = op"
    "t_state t = Registration"
    "sint (t_registration_ends t) \<le> sint (unix_timestamp env)"
    "ucast (c_min_participants c) \<le> t_participant_count t"
    "checked_add (t_operator_costs t) (c_operator_tx_fee c) = Some costs"
    "s' = store tk (TournamentData (t\<lparr>t_operator_costs := costs, t_state := Reveal,
            t_reveal_ends := unix_timestamp env + t_reveal_duration t\<rparr>) n) s"
  using assms unfolding close_registration_def operator_accounts_def Let_def
  by (elim effect_elims) (rule that; (assumption | rule refl)?)

lemma forfeit_unrevealedE:
  assumes "forfeit_unrevealed env ck ek tk op s = Inr s'"
  obtains c e t n costs strategy where
    "accounts s ck = Some (ConfigData c)"
    "accounts s ek = Some (EntryData e)"
    "accounts s tk = Some (TournamentData t n)"
    "is_signer env op"
    "c_operator c = op"
    "e_tournament e = tk"
    "t_state t = Reveal"
    "sint (t_reveal_ends t) < sint (unix_timestamp env)"
    "checked_add (t_operator_costs t) (c_operator_tx_fee c) = Some costs"
    "\<not> e_revealed e"
    "48 \<le> length (slot_hashes env)"
    "from_index (slot_hashes env ! (16 + unat (e_index e) mod 32) mod 9) = Some strategy"
    "unat (e_index e) < length (t_strategies t)"
    "s' = store tk (TournamentData (set_strategy (unat (e_index e)) strategy (t\<lparr>t_operator_costs := costs\<rparr>)) n)
            (store ek (EntryData (e\<lparr>e_strategy := strategy, e_revealed := True\<rparr>)) s)"
  using assms unfolding forfeit_unrevealed_def operator_accounts_def Let_def
  by (elim effect_elims) (rule that; (assumption | rule refl)?)

lemma refund_oddE:
  assumes "refund_odd tk re rp t s = Inr r"
  obtains i ek e t' where
    "rposition (\<lambda>pk. pk \<noteq> default_pubkey) (t_players t) = Some i"
    "re = Some ek"
    "rp = Some (t_players t ! i)"
    "accounts s ek = Some (EntryData e)"
    "e_player e = t_players t ! i"
    "e_index e = of_nat i"
    "i < length (t_strategies t)"
    "t' = (clear_slot i t)\<lparr>t_participant_count := t_participant_count t - 1,
            t_reveals_completed := t_reveals_completed t - 1, t_pool := t_pool t - t_stake t,
            t_entries_remaining := t_entries_remaining t - 1\<rparr>"
    "r = (t', close_account ek (t_players t ! i) (move_lamports tk (t_players t ! i) (t_stake t) s))"
  using assms unfolding refund_odd_def Let_def
  by (elim effect_elims conjE) (rule that; (assumption | rule refl | simp)?)

lemma close_revealE:
  assumes "close_reveal env ck tk re rp op s = Inr s'"
  obtains c t n costs t1 where
    "accounts s ck = Some (ConfigData c)"
    "accounts s tk = Some (TournamentData t n)"
    "is_signer env op"
    "c_operator c = op"
    "seeds_ok env (tournament_seeds (t_id t)) (t_bump t) tk"
    "t_state t = Reveal"
    "sint (t_reveal_ends t) < sint (unix_timestamp env)"
    "checked_add (t_operator_costs t) (c_operator_tx_fee c) = Some costs"
    "t1 = t\<lparr>t_operator_costs := costs\<rparr>"
    "t_reveals_completed t1 = t_participant_count t1"
    "(if t_participant_count t1 = 0
      then Inr (store tk (TournamentData (start_empty t1) n) s)
      else and_then (if t_participant_count t1 mod 2 = 1 then refund_odd tk re rp t1 s else Inr (t1, s)) (\<lambda>(t, s).
        if t_participant_count t = 0 then Inr (store tk (TournamentData (start_empty t) n) s)
        else check (48 \<le> length (slot_hashes env)) (Arena SlotHashUnavailable)
          (Inr (store tk (TournamentData (start_running (take 32 (drop 16 (slot_hashes env))) t) n) s)))) = Inr s'"
  using assms unfolding close_reveal_def operator_accounts_def Let_def
  by (elim effect_elims) (rule that; (assumption | rule refl)?)

lemma run_matchesE:
  assumes "run_matches env ck tk op ras s = Inr s'"
  obtains c t n m where
    "accounts s ck = Some (ConfigData c)" "accounts s tk = Some (TournamentData t n)"
    "is_signer env op" "c_operator c = op" "seeds_ok env (tournament_seeds (t_id t)) (t_bump t) tk"
    "t_state t = Running" "m = min MATCHES_PER_TX (t_matches_total t - t_matches_completed t)"
    "m = 0" "s' = s"
  | c t n m costs t' s1 where
    "accounts s ck = Some (ConfigData c)" "accounts s tk = Some (TournamentData t n)"
    "is_signer env op" "c_operator c = op" "seeds_ok env (tournament_seeds (t_id t)) (t_bump t) tk"
    "t_state t = Running" "m = min MATCHES_PER_TX (t_matches_total t - t_matches_completed t)"
    "m \<noteq> 0" "checked_add (t_operator_costs t) (c_operator_tx_fee c) = Some costs"
    "all_revealed (t_players t) (t_strategies t) = Inr ()"
    "run_batch env ras tk (map (\<lambda>i. t_matches_completed t + of_nat i) [0..<unat m])
       (t\<lparr>t_operator_costs := costs\<rparr>, s) = Inr (t', s1)"
    "s' = store tk (TournamentData t' n) s1"
  using assms unfolding run_matches_def operator_accounts_def Let_def
  apply (elim effect_elims if_InrE)
   apply (rule that(1); (assumption | rule refl)?)
  apply (rule that(2); (assumption | rule refl | simp)?)
  done

lemma finalize_tournamentE:
  assumes "finalize_tournament env ck tk nk op s = Inr s'"
  obtains c t n bump s1 costs c' t' s2 where
    "accounts s ck = Some (ConfigData c)"
    "accounts s tk = Some (TournamentData t n)"
    "is_signer env op"
    "c_operator c = op"
    "seeds_ok env config_seeds (c_bump c) ck"
    "seeds_ok env (tournament_seeds (t_id t)) (t_bump t) tk"
    "nk = fst (find_program_address env (tournament_seeds (c_current_tournament_id c + 1)))"
    "bump = snd (find_program_address env (tournament_seeds (c_current_tournament_id c + 1)))"
    "accounts s nk = None"
    "rent_top_up env BASE_SPACE (lamports s nk) \<le> lamports s op"
    "s1 = store nk (TournamentData (new_tournament (c_current_tournament_id c + 1) c (unix_timestamp env) bump) BASE_SPACE)
            (move_lamports op nk (rent_top_up env BASE_SPACE (lamports s nk)) s)"
    "t_state t = Running"
    "t_matches_total t \<le> t_matches_completed t"
    "final_operator_costs c t = Inr costs"
    "(if t_participant_count (t\<lparr>t_operator_costs := costs\<rparr>) = 0 then finalize_empty else finalize_winners) env ck tk op n c
       (t\<lparr>t_operator_costs := costs\<rparr>) s1 = Inr (c', t', s2)"
    "s' = store ck (ConfigData (c'\<lparr>c_current_tournament_id := c_current_tournament_id c + 1\<rparr>))
            (store tk (TournamentData t' n) s2)"
  using assms unfolding finalize_tournament_def operator_accounts_def Let_def
  by (elim effect_elims) (rule that; (assumption | rule refl)?)

lemma close_entryE:
  assumes "close_entry env ck tk ek p op s = Inr s'"
  obtains c e t n c' t' s1 where
    "accounts s ck = Some (ConfigData c)"
    "accounts s tk = Some (TournamentData t n)"
    "accounts s ek = Some (EntryData e)"
    "is_signer env op"
    "c_operator c = op"
    "seeds_ok env config_seeds (c_bump c) ck"
    "seeds_ok env (tournament_seeds (t_id t)) (t_bump t) tk"
    "seeds_ok env (entry_seeds tk (e_player e)) (e_bump e) ek"
    "e_tournament e = tk"
    "p = e_player e"
    "t_state t = Payout"
    "(if \<not> e_paid_out e \<and> 0 < t_winner_count t \<and> t_min_winning_score t \<le> e_score e
      then settle_entry env ck tk p n c t s else Inr (c, t, s)) = Inr (c', t', s1)"
    "1 \<le> t_entries_remaining t'"
    "s' = close_account ek p (store ck (ConfigData c')
            (store tk (TournamentData (t'\<lparr>t_entries_remaining := t_entries_remaining t' - 1\<rparr>) n) s1))"
  using assms unfolding close_entry_def operator_accounts_def Let_def
  by (elim effect_elims) (rule that; (assumption | rule refl)?)

lemma close_tournamentE:
  assumes "close_tournament env ck tk op s = Inr s'"
  obtains c t n c' s1 where
    "accounts s ck = Some (ConfigData c)"
    "accounts s tk = Some (TournamentData t n)"
    "is_signer env op"
    "seeds_ok env config_seeds (c_bump c) ck"
    "seeds_ok env (tournament_seeds (t_id t)) (t_bump t) tk"
    "op = c_operator c \<or> op = c_admin c"
    "t_state t = Payout"
    "sint (t_payout_started_at t + TOURNAMENT_CLOSURE_SECONDS) \<le> sint (unix_timestamp env) \<or> t_winner_count t \<le> t_claims_processed t"
    "t_entries_remaining t = 0"
    "(if 0 < lamports s tk then and_then (add_fees (lamports s tk) c) (\<lambda>c. Inr (c, move_lamports tk ck (lamports s tk) s))
      else Inr (c, s)) = Inr (c', s1)"
    "s' = remove_account tk (store ck (ConfigData c') s1)"
  using assms unfolding close_tournament_def Let_def
  by (elim effect_elims) (rule that; (assumption | rule refl)?)

end
