(* ===== verification/Tournament_Inv.thy ===== *)
theory Tournament_Inv
  imports Handler_Effects Pairing_Correct
begin

text \<open>
  The invariant of one tournament: the account, its lamports, and the open entries that belong to
  it. It ties the counters of the account to the open entries, the vectors of the account to the
  fields of the entries, and the lamports to what the program still owes. Every operation of the
  handlers keeps it; the lemmas here are about a single tournament, the theory on reachable ledgers
  lifts them to the whole ledger.
\<close>

section \<open>The invariant\<close>

type_synonym entry_map = "Pubkey \<Rightarrow> Entry option"

text \<open>An entry and its slot agree; \<open>key\<close> is the address of the entry of a player.\<close>

definition entry_ok :: "(Pubkey \<Rightarrow> Pubkey) \<Rightarrow> Tournament \<Rightarrow> Pubkey \<Rightarrow> Entry \<Rightarrow> bool" where
  "entry_ok key t ek e \<longleftrightarrow>
     ek = key (e_player e) \<and> e_player e \<noteq> default_pubkey \<and>
     unat (e_index e) < length (t_players t) \<and> t_players t ! unat (e_index e) = e_player e \<and>
     t_scores t ! unat (e_index e) = e_score e \<and> \<not> e_paid_out e \<and>
     t_strategies t ! unat (e_index e) = (if e_revealed e then strategy_as_u8 (e_strategy e) else - 1)"

definition vectors_ok :: "Tournament \<Rightarrow> nat \<Rightarrow> bool" where
  "vectors_ok t n \<longleftrightarrow>
     length (t_scores t) = length (t_players t) \<and> length (t_strategies t) = length (t_players t) \<and>
     length (t_players t) \<le> 65535 \<and> n = BASE_SPACE + length (t_players t) * BYTES_PER_PLAYER \<and>
     t_house_fee_bps t \<le> 10000"

text \<open>Before the payout every occupied slot has its open entry.\<close>

definition slots_filled :: "Tournament \<Rightarrow> entry_map \<Rightarrow> bool" where
  "slots_filled t ents \<longleftrightarrow>
     (\<forall>i < length (t_players t). t_players t ! i \<noteq> default_pubkey \<longrightarrow>
        (\<exists>ek e. ents ek = Some e \<and> unat (e_index e) = i))"

definition revealed_keys :: "entry_map \<Rightarrow> Pubkey set" where
  "revealed_keys ents = {ek. \<exists>e. ents ek = Some e \<and> e_revealed e}"

definition winner_keys :: "Tournament \<Rightarrow> entry_map \<Rightarrow> Pubkey set" where
  "winner_keys t ents = {ek. \<exists>e. ents ek = Some e \<and> t_min_winning_score t \<le> e_score e}"

definition prize_share :: "Tournament \<Rightarrow> u64" where
  "prize_share t = t_winner_pool t div ucast (t_winner_count t)"

text \<open>What the counters say in each phase.\<close>

definition phase_ok :: "Tournament \<Rightarrow> entry_map \<Rightarrow> bool" where
  "phase_ok t ents \<longleftrightarrow>
     (case t_state t of
        Registration \<Rightarrow> revealed_keys ents = {} \<and> t_reveals_completed t = 0 \<and> t_matches_completed t = 0
      | Reveal \<Rightarrow> unat (t_reveals_completed t) = card (revealed_keys ents) \<and> t_matches_completed t = 0
      | Running \<Rightarrow> revealed_keys ents = dom ents \<and> t_matches_completed t \<le> t_matches_total t \<and>
          degree_ok (t_participant_count t) (t_matches_per_player t)
      | Payout \<Rightarrow> True)"

text \<open>
  What the account holds: the rent for its first size and the stakes, or later the unpaid prizes.
\<close>

definition funds_ok :: "u64 \<Rightarrow> Tournament \<Rightarrow> entry_map \<Rightarrow> u64 \<Rightarrow> bool" where
  "funds_ok rent t ents bal \<longleftrightarrow>
     (if t_state t = Payout
      then unat rent + unat (prize_share t) * card (winner_keys t ents) \<le> unat bal
      else unat (t_participant_count t) = card (dom ents) \<and>
           unat (t_pool t) = card (dom ents) * unat (t_stake t) \<and>
           unat rent + unat (t_pool t) \<le> unat bal \<and> slots_filled t ents)"

definition tournament_inv ::
  "(Pubkey \<Rightarrow> Pubkey) \<Rightarrow> u64 \<Rightarrow> Tournament \<Rightarrow> nat \<Rightarrow> entry_map \<Rightarrow> u64 \<Rightarrow> bool" where
  "tournament_inv key rent t n ents bal \<longleftrightarrow>
     vectors_ok t n \<and> (\<forall>ek e. ents ek = Some e \<longrightarrow> entry_ok key t ek e) \<and>
     unat (t_entries_remaining t) = card (dom ents) \<and> phase_ok t ents \<and> funds_ok rent t ents bal"

lemmas tournament_inv_defs = tournament_inv_def vectors_ok_def entry_ok_def phase_ok_def funds_ok_def

section \<open>Entries and slots\<close>

lemma tournament_inv_entry: "tournament_inv key rent t n ents bal \<Longrightarrow> ents ek = Some e \<Longrightarrow> entry_ok key t ek e"
  by (simp add: tournament_inv_def)

lemma entries_same_slot:
  assumes "tournament_inv key rent t n ents bal" "ents ek = Some e" "ents ek' = Some e'"
    and "unat (e_index e) = unat (e_index e')"
  shows "ek = ek'"
  using tournament_inv_entry [OF assms(1,2)] tournament_inv_entry [OF assms(1,3)] assms(4)
  by (simp add: entry_ok_def)

lemma dom_Some_image: "dom m = {k. \<exists>v. m k = Some v}"
  by auto

lemma card_entries_le_slots:
  assumes "tournament_inv key rent t n ents bal"
  shows "card (dom ents) \<le> length (t_players t)"
proof -
  let ?idx = "\<lambda>ek. unat (e_index (the (ents ek)))"
  have "inj_on ?idx (dom ents)"
    by (rule inj_onI) (auto intro: entries_same_slot [OF assms])
  moreover have "?idx ` dom ents \<subseteq> {..<length (t_players t)}"
    using tournament_inv_entry [OF assms] by (auto simp: entry_ok_def)
  ultimately have "card (dom ents) \<le> card {..<length (t_players t)}"
    by (intro card_inj_on_le) simp_all
  then show ?thesis by simp
qed

lemma card_dom_upd_new: "ents ek = None \<Longrightarrow> card (dom (ents(ek \<mapsto> e))) = Suc (card (dom ents))"
  for ents :: entry_map
  by (simp add: domIff)

lemma card_dom_delete: "ents ek = Some e \<Longrightarrow> card (dom (ents(ek := None))) = card (dom ents) - 1"
  for ents :: entry_map
  by (simp add: card_Diff_singleton domI)

lemma dom_upd_same: "ents ek = Some e \<Longrightarrow> dom (ents(ek \<mapsto> e')) = dom ents"
  by auto

lemma card_dom_pos: "ents ek = Some e \<Longrightarrow> 0 < card (dom ents)" for ents :: entry_map
  by (auto simp: card_gt_0_iff)

section \<open>Creation and registration\<close>

lemma tournament_inv_new:
  assumes "unat rent \<le> unat bal" "c_house_fee_bps config \<le> 10000"
  shows "tournament_inv key rent (new_tournament tid config now bump) BASE_SPACE Map.empty bal"
  using assms
  by (simp add: tournament_inv_defs new_tournament_def revealed_keys_def slots_filled_def)

lemma tournament_invI:
  assumes "vectors_ok t n" "\<And>ek e. ents ek = Some e \<Longrightarrow> entry_ok key t ek e"
    and "unat (t_entries_remaining t) = card (dom ents)" "phase_ok t ents" "funds_ok rent t ents bal"
  shows "tournament_inv key rent t n ents bal"
  using assms by (simp add: tournament_inv_def)

lemma unat_u32_add1: "unat (x :: u32) \<le> 65535 \<Longrightarrow> unat (x + 1) = unat x + 1"
  by (simp add: word_nat)

lemma unat_sub_1: "0 < unat (x :: 'a::len word) \<Longrightarrow> unat (x - 1) = unat x - 1"
  by (simp add: unat_gt_0 unat_minus_one)

lemma inv_before_payout:
  assumes "tournament_inv key rent t n ents bal" "t_state t \<noteq> Payout"
  shows "unat (t_participant_count t) = card (dom ents)" "unat (t_entries_remaining t) = card (dom ents)"
    "unat (t_pool t) = card (dom ents) * unat (t_stake t)" "unat rent + unat (t_pool t) \<le> unat bal"
    "slots_filled t ents"
  using assms by (simp_all add: tournament_inv_def funds_ok_def)

lemma tournament_inv_enter:
  assumes inv: "tournament_inv key rent t n ents bal" and st: "t_state t = Registration"
    and p: "p \<noteq> default_pubkey" "ents (key p) = None" and len: "length (t_players t) < 65535"
    and bal: "unat bal + unat (t_stake t) \<le> unat bal'"
  shows "tournament_inv key rent (register_player p t) (space_for_next_player t)
    (ents(key p \<mapsto> new_entry tk p (length (t_players t)) commitment now bump)) bal'"
proof (rule tournament_invI)
  let ?e = "new_entry tk p (length (t_players t)) commitment now bump"
  let ?ents = "ents(key p \<mapsto> ?e)"
  have v: "vectors_ok t n" using inv by (simp add: tournament_inv_def)
  have idx: "unat (of_nat (length (t_players t)) :: u32) = length (t_players t)"
    using len by (simp add: unat_of_nat)
  note pre = inv_before_payout [OF inv, unfolded st, simplified]
  have small: "card (dom ents) \<le> 65535"
    using card_entries_le_slots [OF inv] len by linarith
  have dom': "card (dom ?ents) = card (dom ents) + 1" using card_dom_upd_new [of ents "key p" ?e] p(2) by (simp only: Suc_eq_plus1)
  show "vectors_ok (register_player p t) (space_for_next_player t)"
    using v len by (simp add: vectors_ok_def register_player_def space_for_next_player_def)
  show "unat (t_entries_remaining (register_player p t)) = card (dom ?ents)"
    using pre(2) small dom' by (simp add: register_player_def unat_u32_add1 del: fun_upd_apply dom_fun_upd)
  show "entry_ok key (register_player p t) ek e" if "?ents ek = Some e" for ek e
  proof (cases "ek = key p")
    case True
    with that p v idx show ?thesis
      by (auto simp: entry_ok_def register_player_def new_entry_def vectors_ok_def nth_append)
  next
    case False
    with that have "entry_ok key t ek e" using tournament_inv_entry [OF inv] by simp
    with v show ?thesis by (simp add: entry_ok_def register_player_def vectors_ok_def nth_append)
  qed
  show "phase_ok (register_player p t) ?ents"
    using inv st by (auto simp: tournament_inv_def phase_ok_def register_player_def revealed_keys_def new_entry_def)
  have "unat (t_pool t) + unat (t_stake t) < 2 ^ 64"
    using pre(4) bal unat_less_length [of bal'] by simp
  then have pool: "unat (t_pool t + t_stake t) = unat (t_pool t) + unat (t_stake t)" by (simp add: word_nat)
  have "slots_filled (register_player p t) ?ents"
    unfolding slots_filled_def
  proof (intro allI impI)
    fix i assume i: "i < length (t_players (register_player p t))" "t_players (register_player p t) ! i \<noteq> default_pubkey"
    show "\<exists>ek e. ?ents ek = Some e \<and> unat (e_index e) = i"
    proof (cases "i < length (t_players t)")
      case True
      then obtain ek e where "ents ek = Some e" "unat (e_index e) = i"
        using i pre(5) by (auto simp: slots_filled_def register_player_def nth_append)
      with p(2) show ?thesis by (intro exI [of _ ek] exI [of _ e]) auto
    next
      case False
      with i have "i = length (t_players t)" by (simp add: register_player_def)
      then show ?thesis using idx by (intro exI [of _ "key p"] exI [of _ ?e]) (simp add: new_entry_def)
    qed
  qed
  then show "funds_ok rent (register_player p t) ?ents bal'"
    using st pre small dom' pool bal
    by (simp add: funds_ok_def register_player_def unat_u32_add1 del: fun_upd_apply dom_fun_upd)
qed

section \<open>Refunds\<close>

text \<open>The refund of an open entry, while the stakes are still in the pool.\<close>

definition refund_slot :: "nat \<Rightarrow> Tournament \<Rightarrow> Tournament" where
  "refund_slot i t = (clear_slot i t)\<lparr>
     t_participant_count := t_participant_count t - 1,
     t_entries_remaining := t_entries_remaining t - 1,
     t_pool := t_pool t - t_stake t\<rparr>"

lemma stake_le_pool:
  assumes "tournament_inv key rent t n ents bal" "t_state t \<noteq> Payout" "ents ek = Some e"
  shows "unat (t_stake t) \<le> unat (t_pool t)" "unat rent + unat (t_stake t) \<le> unat bal"
proof -
  have "1 * unat (t_stake t) \<le> card (dom ents) * unat (t_stake t)"
    using card_dom_pos [of ents, OF assms(3)] by (intro mult_le_mono) simp_all
  then show "unat (t_stake t) \<le> unat (t_pool t)" "unat rent + unat (t_stake t) \<le> unat bal"
    using inv_before_payout(3,4) [OF assms(1,2)] by linarith+
qed

lemma tournament_inv_refund:
  assumes inv: "tournament_inv key rent t n ents bal" and st: "t_state t \<noteq> Payout"
    and e: "ents ek = Some e" and i: "i = unat (e_index e)"
    and bal: "unat bal - unat (t_stake t) \<le> unat bal'"
    and phase: "phase_ok t' (ents(ek := None))"
    and t': "t' = (refund_slot i t)\<lparr>t_reveals_completed := r\<rparr>"
  shows "tournament_inv key rent t' n (ents(ek := None)) bal'"
proof (rule tournament_invI)
  let ?ents = "ents(ek := None)"
  note pre = inv_before_payout [OF inv st]
  have v: "vectors_ok t n" using inv by (simp add: tournament_inv_def)
  have ei: "i < length (t_players t)" using tournament_inv_entry [OF inv e] i by (simp add: entry_ok_def)
  have dom': "card (dom ?ents) = card (dom ents) - 1" and pos: "0 < card (dom ents)"
    using card_dom_delete [of ents, OF e] card_dom_pos [of ents, OF e] by simp_all
  have other: "unat (e_index e') \<noteq> i" if "?ents ek' = Some e'" for ek' e'
    using that entries_same_slot [OF inv _ e, of ek' e'] i by (auto split: if_splits)
  show "vectors_ok t' n" using v by (simp add: t' vectors_ok_def refund_slot_def clear_slot_def)
  show "entry_ok key t' ek' e'" if e': "?ents ek' = Some e'" for ek' e'
  proof -
    have "ents ek' = Some e'" using e' by (simp split: if_splits)
    then have "entry_ok key t ek' e'" by (rule tournament_inv_entry [OF inv])
    with other [OF e'] show ?thesis by (simp add: entry_ok_def t' refund_slot_def clear_slot_def)
  qed
  show "unat (t_entries_remaining t') = card (dom ?ents)"
    using pre(2) pos dom' by (simp add: t' refund_slot_def unat_sub_1)
  show "phase_ok t' ?ents" by (rule phase)
  have "slots_filled t' ?ents"
    unfolding slots_filled_def
  proof (intro allI impI)
    fix j assume j: "j < length (t_players t')" "t_players t' ! j \<noteq> default_pubkey"
    then have "j \<noteq> i" by (auto simp: t' refund_slot_def clear_slot_def)
    with j obtain ek' e' where "ents ek' = Some e'" "unat (e_index e') = j"
      using pre(5) by (auto simp: slots_filled_def t' refund_slot_def clear_slot_def)
    with \<open>j \<noteq> i\<close> i e show "\<exists>ek' e'. ?ents ek' = Some e' \<and> unat (e_index e') = j"
      by (intro exI [of _ ek'] exI [of _ e']) auto
  qed
  moreover have "unat (t_pool t - t_stake t) = unat (t_pool t) - unat (t_stake t)"
    using stake_le_pool(1) [OF inv st e] by (simp add: word_nat word_le_nat_alt)
  moreover have "unat rent + (unat (t_pool t) - unat (t_stake t)) \<le> unat bal'"
    using pre(4) bal stake_le_pool [OF inv st e] by linarith
  moreover have "(card (dom ents) - 1) * unat (t_stake t) = unat (t_pool t) - unat (t_stake t)"
    unfolding pre(3) by (simp add: diff_mult_distrib)
  ultimately show "funds_ok rent t' ?ents bal'"
    using st pre pos dom' by (simp add: funds_ok_def t' refund_slot_def clear_slot_def unat_sub_1 del: fun_upd_apply dom_fun_upd)
qed

section \<open>Revealing and starting\<close>

text \<open>A change of the bookkeeping fields only has to respect the phase.\<close>

lemma tournament_inv_bookkeeping:
  assumes inv: "tournament_inv key rent t n ents bal" and st: "t_state t \<noteq> Payout" "t_state t' \<noteq> Payout"
    and same: "t_players t' = t_players t" "t_scores t' = t_scores t" "t_strategies t' = t_strategies t"
      "t_house_fee_bps t' = t_house_fee_bps t" "t_entries_remaining t' = t_entries_remaining t"
      "t_participant_count t' = t_participant_count t" "t_pool t' = t_pool t" "t_stake t' = t_stake t"
    and phase: "phase_ok t' ents"
  shows "tournament_inv key rent t' n ents bal"
  using assms by (simp add: tournament_inv_def vectors_ok_def entry_ok_def funds_ok_def slots_filled_def)

lemma tournament_inv_close_registration:
  assumes "tournament_inv key rent t n ents bal" "t_state t = Registration"
  shows "tournament_inv key rent (t\<lparr>t_operator_costs := costs, t_state := Reveal, t_reveal_ends := r\<rparr>) n ents bal"
  using assms by (intro tournament_inv_bookkeeping [OF assms(1)]) (simp_all add: tournament_inv_def phase_ok_def)

lemma tournament_inv_reveal:
  assumes inv: "tournament_inv key rent t n ents bal" and st: "t_state t = Reveal"
    and e: "ents ek = Some e" "\<not> e_revealed e" and i: "i = unat (e_index e)"
    and e': "e_player e' = e_player e" "e_index e' = e_index e" "e_score e' = e_score e"
      "e_paid_out e' = e_paid_out e" "e_strategy e' = strategy" "e_revealed e'"
  shows "tournament_inv key rent (set_strategy i strategy (t\<lparr>t_operator_costs := costs\<rparr>)) n (ents(ek \<mapsto> e')) bal"
proof (rule tournament_invI)
  let ?t = "set_strategy i strategy (t\<lparr>t_operator_costs := costs\<rparr>)" and ?ents = "ents(ek \<mapsto> e')"
  have v: "vectors_ok t n" using inv by (simp add: tournament_inv_def)
  note pre = inv_before_payout [OF inv, unfolded st, simplified]
  have dom': "dom ?ents = dom ents" by (rule dom_upd_same [of ents ek e, OF e(1)])
  have other: "unat (e_index d) \<noteq> i" if "ents dk = Some d" "dk \<noteq> ek" for dk d
    using that entries_same_slot [OF inv that(1) e(1)] i by auto
  show "vectors_ok ?t n" using v by (simp add: vectors_ok_def set_strategy_def)
  show "entry_ok key ?t dk d" if "?ents dk = Some d" for dk d
  proof (cases "dk = ek")
    case True
    with that have "d = e'" by simp
    with True tournament_inv_entry [OF inv e(1)] e' i v show ?thesis
      by (simp add: entry_ok_def set_strategy_def vectors_ok_def)
  next
    case False
    with that have d: "ents dk = Some d" by simp
    with tournament_inv_entry [OF inv d] other [OF d False] show ?thesis
      by (simp add: entry_ok_def set_strategy_def)
  qed
  show "unat (t_entries_remaining ?t) = card (dom ?ents)"
    unfolding dom' using pre(2) by (simp add: set_strategy_def)
  have "revealed_keys ?ents = insert ek (revealed_keys ents)" "ek \<notin> revealed_keys ents"
    using e e' by (auto simp: revealed_keys_def)
  then have rk: "card (revealed_keys ?ents) = card (revealed_keys ents) + 1" by simp
  have "card (revealed_keys ents) \<le> card (dom ents)"
    by (intro card_mono) (auto simp: revealed_keys_def)
  also have "\<dots> \<le> 65535" using card_entries_le_slots [OF inv] v by (simp add: vectors_ok_def)
  finally show "phase_ok ?t ?ents"
    using inv st rk by (simp add: tournament_inv_def phase_ok_def set_strategy_def unat_u32_add1 del: fun_upd_apply)
  have "slots_filled ?t ?ents"
    unfolding slots_filled_def
  proof (intro allI impI)
    fix j assume "j < length (t_players ?t)" "t_players ?t ! j \<noteq> default_pubkey"
    then obtain dk d where d: "ents dk = Some d" "unat (e_index d) = j"
      using pre(5) by (auto simp: slots_filled_def set_strategy_def)
    then show "\<exists>dk d. ?ents dk = Some d \<and> unat (e_index d) = j"
      using e e' by (cases "dk = ek") auto
  qed
  with pre st show "funds_ok rent ?t ?ents bal"
    unfolding funds_ok_def dom' by (simp add: set_strategy_def)
qed

lemma all_entries_revealed:
  assumes "tournament_inv key rent t n ents bal" "t_state t = Reveal"
    and "t_reveals_completed t = t_participant_count t"
  shows "revealed_keys ents = dom ents"
proof (rule card_subset_eq)
  show "finite (dom ents)" by simp
  show "revealed_keys ents \<subseteq> dom ents" by (auto simp: revealed_keys_def)
  show "card (revealed_keys ents) = card (dom ents)"
    using assms inv_before_payout(1) [OF assms(1)] by (simp add: tournament_inv_def phase_ok_def)
qed

lemma tournament_inv_start_empty:
  assumes "tournament_inv key rent t n ents bal" "t_state t = Reveal" "revealed_keys ents = dom ents"
    and "t_participant_count t = 0"
  shows "tournament_inv key rent (start_empty t) n ents bal"
  using assms
  by (intro tournament_inv_bookkeeping [OF assms(1)]) (simp_all add: phase_ok_def start_empty_def degree_ok_def)

lemma tournament_inv_start_running:
  assumes "tournament_inv key rent t n ents bal" "t_state t = Reveal" "revealed_keys ents = dom ents"
  shows "tournament_inv key rent (start_running h t) n ents bal"
  using assms
  by (intro tournament_inv_bookkeeping [OF assms(1)])
    (simp_all add: tournament_inv_def phase_ok_def start_running_def Let_def degree_ok_effective)

section \<open>Matches\<close>

lemma tournament_inv_skip_match:
  assumes inv: "tournament_inv key rent t n ents bal" and st: "t_state t = Running"
    and lt: "t_matches_completed t < t_matches_total t"
  shows "tournament_inv key rent (t\<lparr>t_matches_completed := t_matches_completed t + 1\<rparr>) n ents bal"
  using assms
  by (intro tournament_inv_bookkeeping [OF inv]) (simp_all add: tournament_inv_def phase_ok_def inc_le)

lemma tournament_inv_match:
  assumes inv: "tournament_inv key rent t n ents bal" and st: "t_state t = Running"
    and lt: "t_matches_completed t < t_matches_total t"
    and e: "ents ka = Some ea" "ents kb = Some eb" "e_index ea \<noteq> e_index eb"
    and e': "ea' = ea\<lparr>e_score := sa, e_matches_played := ma\<rparr>" "eb' = eb\<lparr>e_score := sb, e_matches_played := mb\<rparr>"
  shows "tournament_inv key rent
    (t\<lparr>t_scores := (t_scores t)[unat (e_index ea) := sa, unat (e_index eb) := sb],
       t_matches_completed := t_matches_completed t + 1\<rparr>) n (ents(ka \<mapsto> ea', kb \<mapsto> eb')) bal"
proof (rule tournament_invI)
  let ?t = "t\<lparr>t_scores := (t_scores t)[unat (e_index ea) := sa, unat (e_index eb) := sb],
       t_matches_completed := t_matches_completed t + 1\<rparr>" and ?ents = "ents(ka \<mapsto> ea', kb \<mapsto> eb')"
  have v: "vectors_ok t n" using inv by (simp add: tournament_inv_def)
  note pre = inv_before_payout [OF inv, unfolded st, simplified]
  have ab: "ka \<noteq> kb" "unat (e_index ea) \<noteq> unat (e_index eb)"
    using e by (auto, simp add: word_unat_eq_iff)
  have dom': "dom ?ents = dom ents" using e by auto
  show "vectors_ok ?t n" using v by (simp add: vectors_ok_def)
  show "unat (t_entries_remaining ?t) = card (dom ?ents)" unfolding dom' using pre(2) by simp
  have old: "\<exists>d. ents dk = Some d \<and> e_index d = e_index d' \<and> e_revealed d = e_revealed d'"
    if "?ents dk = Some d'" for dk d'
    using that e e' by (auto split: if_splits)
  have new: "\<exists>d'. ?ents dk = Some d' \<and> e_index d = e_index d' \<and> e_revealed d = e_revealed d'"
    if "ents dk = Some d" for dk d
    using that e e' ab by auto
  show "entry_ok key ?t dk d" if d: "?ents dk = Some d" for dk d
  proof -
    consider "dk = kb" "d = eb'" | "dk = ka" "d = ea'" | "dk \<noteq> ka" "dk \<noteq> kb" "ents dk = Some d"
      using d by (auto split: if_splits)
    then show ?thesis
    proof cases
      case 3
      then have "unat (e_index d) \<noteq> unat (e_index ea)" "unat (e_index d) \<noteq> unat (e_index eb)"
        using entries_same_slot [OF inv 3(3) e(1)] entries_same_slot [OF inv 3(3) e(2)] by auto
      with tournament_inv_entry [OF inv 3(3)] show ?thesis by (simp add: entry_ok_def)
    qed (use tournament_inv_entry [OF inv e(1)] tournament_inv_entry [OF inv e(2)] e' ab v in
        \<open>simp_all add: entry_ok_def vectors_ok_def\<close>)
  qed
  have "revealed_keys ?ents = revealed_keys ents"
    using old new by (fastforce simp: revealed_keys_def simp del: fun_upd_apply)
  with inv st lt show "phase_ok ?t ?ents"
    unfolding phase_ok_def tournament_inv_def dom' by (simp add: inc_le del: fun_upd_apply)
  have "slots_filled ?t ?ents"
    using pre(5) new unfolding slots_filled_def by (simp del: fun_upd_apply) metis
  with pre st show "funds_ok rent ?t ?ents bal" unfolding funds_ok_def dom' by simp
qed

end
