(* ===== verification/Finalize_Correct.thy ===== *)
theory Finalize_Correct
  imports Tournament_Inv
begin

text \<open>
  The finalization of a tournament (\<open>finalize_tournament\<close> of \<^verbatim>\<open>tournament.rs\<close>): who wins, what the
  winners share, what goes to the house and to the operator, and that the account keeps enough to
  pay every winner.
\<close>

section \<open>The winners\<close>

lemma length_filter_sorted_scores:
  assumes "length (t_scores t) = length (t_players t)"
  shows "length (filter P (sorted_scores t)) =
    card {i. i < length (t_players t) \<and> t_players t ! i \<noteq> default_pubkey \<and> P (t_scores t ! i)}"
proof -
  define xs where "xs = filter (\<lambda>(i, _). t_players t ! i \<noteq> default_pubkey) (enumerate 0 (t_scores t))"
  have "length (filter P (sorted_scores t)) = length (filter P (map snd xs))"
    unfolding sorted_scores_def xs_def [symmetric] rev_filter [symmetric] filter_sort by simp
  also have "\<dots> = length (filter (\<lambda>(i, x). t_players t ! i \<noteq> default_pubkey \<and> P x) (enumerate 0 (t_scores t)))"
    by (simp add: filter_map xs_def comp_def case_prod_beta conj_commute cong: filter_cong)
  also have "\<dots> = card {i. i < length (t_players t) \<and> t_players t ! i \<noteq> default_pubkey \<and> P (t_scores t ! i)}"
    unfolding length_filter_conv_card using assms
    by (intro arg_cong [where f = card]) (auto simp: nth_enumerate_eq)
  finally show ?thesis .
qed

lemma card_entries_slots:
  assumes inv: "tournament_inv key rent t n ents bal" and st: "t_state t \<noteq> Payout"
  shows "card {ek. \<exists>e. ents ek = Some e \<and> P (e_score e)} =
    card {i. i < length (t_players t) \<and> t_players t ! i \<noteq> default_pubkey \<and> P (t_scores t ! i)}"
    (is "card ?E = card ?I")
proof (rule bij_betw_same_card)
  let ?idx = "\<lambda>ek. unat (e_index (the (ents ek)))"
  have inj: "inj_on ?idx ?E"
    by (rule inj_onI) (auto intro: entries_same_slot [OF inv])
  have "?idx ` ?E = ?I"
  proof (intro set_eqI iffI)
    fix i assume "i \<in> ?idx ` ?E"
    then obtain ek e where "ents ek = Some e" "P (e_score e)" "i = unat (e_index e)" by auto
    with tournament_inv_entry [OF inv, of ek e] show "i \<in> ?I" by (simp add: entry_ok_def)
  next
    fix i assume i: "i \<in> ?I"
    then obtain ek e where e: "ents ek = Some e" "unat (e_index e) = i"
      using inv_before_payout(5) [OF inv st] by (auto simp: slots_filled_def)
    with tournament_inv_entry [OF inv e(1)] i have "P (e_score e)" by (simp add: entry_ok_def)
    with e show "i \<in> ?idx ` ?E" by (intro image_eqI [of _ _ ek]) auto
  qed
  with inj show "bij_betw ?idx ?E ?I" by (simp add: bij_betw_def)
qed

lemma sorted_scores_desc: "i \<le> j \<Longrightarrow> j < length (sorted_scores t) \<Longrightarrow> sorted_scores t ! j \<le> sorted_scores t ! i"
  by (simp add: sorted_scores_def sorted_rev_nth_mono)

lemma length_sorted_scores:
  assumes "tournament_inv key rent t n ents bal" "t_state t \<noteq> Payout"
  shows "length (sorted_scores t) = unat (t_participant_count t)"
  using length_filter_sorted_scores [of t "\<lambda>_. True"] card_entries_slots [OF assms, of "\<lambda>_. True"]
    inv_before_payout(1) [OF assms] assms(1)
  by (simp add: tournament_inv_def vectors_ok_def dom_Some_image)

lemma unat_target_winners:
  assumes "0 < unat n"
  shows "unat (target_winners n) = (unat n + 3) div 4" "0 < unat (target_winners n)" "unat (target_winners n) \<le> unat n"
proof -
  have "unat (div_ceil n 4) = (unat n + 3) div 4" by (simp add: unat_div_ceil)
  then show u: "unat (target_winners n) = (unat n + 3) div 4"
    using assms by (simp add: target_winners_def max_def word_le_nat_alt)
  show "0 < unat (target_winners n)" "unat (target_winners n) \<le> unat n" using assms u by auto
qed

text \<open>At least a quarter of the scores reach the threshold, and fewer than that exceed it.\<close>

lemma winning_threshold_quantile:
  fixes scores :: "u32 list"
  assumes desc: "\<And>i j. i \<le> j \<Longrightarrow> j < length scores \<Longrightarrow> scores ! j \<le> scores ! i"
    and n: "0 < unat n" "length scores = unat n"
  defines "thr \<equiv> winning_threshold n scores"
  shows "unat (target_winners n) \<le> length (filter (\<lambda>x. thr \<le> x) scores)"
    and "length (filter (\<lambda>x. thr < x) scores) < unat (target_winners n)"
proof -
  define w where "w = unat (target_winners n)"
  have w: "0 < w" "w \<le> length scores" using unat_target_winners [OF n(1)] n(2) by (simp_all add: w_def)
  have "unat (target_winners n - 1) = w - 1" using w(1) unfolding w_def by (rule unat_sub_1)
  moreover have "w - 1 < length scores" using w by linarith
  ultimately have thr: "thr = scores ! (w - 1)"
    by (simp only: thr_def winning_threshold_def Let_def if_True)
  have "{..<w} \<subseteq> {i. i < length scores \<and> thr \<le> scores ! i}" using w desc by (auto simp: thr)
  then have "card {..<w} \<le> card {i. i < length scores \<and> thr \<le> scores ! i}" by (intro card_mono) simp_all
  then show "unat (target_winners n) \<le> length (filter (\<lambda>x. thr \<le> x) scores)"
    by (simp add: length_filter_conv_card w_def)
  have "{i. i < length scores \<and> thr < scores ! i} \<subseteq> {..<w - 1}"
  proof
    fix i assume i: "i \<in> {i. i < length scores \<and> thr < scores ! i}"
    then have "\<not> w - 1 \<le> i" using desc [of "w - 1" i] by (auto simp: thr)
    then show "i \<in> {..<w - 1}" by simp
  qed
  then have "card {i. i < length scores \<and> thr < scores ! i} \<le> card {..<w - 1}" by (intro card_mono) simp_all
  then show "length (filter (\<lambda>x. thr < x) scores) < unat (target_winners n)"
    using w by (simp add: length_filter_conv_card w_def)
qed

section \<open>The money\<close>

lemma move_0 [simp]: "move_lamports x y 0 s = s"
  by (simp add: move_lamports_def debit_def credit_def)

lemma house_fee_le_pool:
  assumes "calc_house_fee t = Inr fee" "t_house_fee_bps t \<le> 10000"
  shows "unat fee = unat (t_pool t) * unat (t_house_fee_bps t) div 10000" "unat fee \<le> unat (t_pool t)"
proof -
  obtain m where m: "checked_mul (t_pool t) (ucast (t_house_fee_bps t)) = Some m" "fee = m div 10000"
    using assms(1) by (auto simp: calc_house_fee_def and_then_Inr_iff ok_or_Inr_iff checked_div_def)
  then show eq: "unat fee = unat (t_pool t) * unat (t_house_fee_bps t) div 10000"
    using checked_mul_SomeD(2) [OF m(1)] by (simp add: unat_div_word)
  have "unat (t_pool t) * unat (t_house_fee_bps t) \<le> unat (t_pool t) * 10000"
    using assms(2) by (intro mult_le_mono2) (simp add: word_le_nat_alt)
  then have "unat (t_pool t) * unat (t_house_fee_bps t) div 10000 \<le> unat (t_pool t) * 10000 div 10000"
    by (rule div_le_mono)
  then show "unat fee \<le> unat (t_pool t)" unfolding eq by simp
qed

lemma add_fees_Inr_iff:
  "add_fees a c = Inr c' \<longleftrightarrow>
     unat (c_accumulated_fees c) + unat a < 2 ^ 64 \<and> c' = c\<lparr>c_accumulated_fees := c_accumulated_fees c + a\<rparr>"
  by (auto simp: add_fees_def and_then_Inr_iff ok_or_Inr_iff checked_add_def split: if_splits)

text \<open>A successful distribution, with the amounts named.\<close>

lemma finalize_winnersE:
  assumes "finalize_winners env ck tk op n c t s = Inr (c', t', s')"
  obtains thr winners house_fee raw per_winner fee_total s1 actual where
    "thr = winning_threshold (t_participant_count t) (sorted_scores t)"
    "winners = count_winners thr (sorted_scores t)" "winners \<noteq> 0"
    "calc_house_fee t = Inr house_fee"
    "raw = min (saturating_sub (saturating_sub (t_pool t) house_fee) (t_operator_costs t))
       (transferable_lamports env tk n s)"
    "per_winner = raw div ucast winners"
    "checked_add house_fee (raw - per_winner * ucast winners) = Some fee_total"
    "add_fees fee_total c = Inr c'"
    "s1 = move_lamports tk ck fee_total s"
    "actual = min (t_operator_costs t) (transferable_lamports env tk n s1)"
    "s' = move_lamports tk op actual s1"
    "t' = t\<lparr>t_min_winning_score := thr, t_winner_count := winners,
            t_winner_pool := per_winner * ucast winners,
            t_payout_started_at := unix_timestamp env, t_state := Payout\<rparr>"
proof -
  have skip: "(if 0 < a \<and> 0 < min a d then move_lamports x y (min a d) s else s) = move_lamports x y (min a d) s"
    for a d x y s
    by (auto simp: word_gt_0)
  show ?thesis
    using assms unfolding finalize_winners_def Let_def skip
    by (elim effect_elims Pair_inject) (rule that; (assumption | rule refl | simp)?)
qed

lemma unat_div_mult:
  fixes a b :: "'a::len word"
  shows "unat (a div b * b) = unat a div unat b * unat b" "unat (a - a div b * b) = unat a mod unat b"
proof -
  have "unat a div unat b * unat b \<le> unat a" by simp
  then have lt: "unat (a div b) * unat b < 2 ^ LENGTH('a)"
    using le_less_trans [OF _ unat_less_length [of a]] by (simp add: unat_div_word)
  then show eq: "unat (a div b * b) = unat a div unat b * unat b" by (simp add: word_nat)
  then have "a div b * b \<le> a" by (simp add: word_le_nat_alt)
  then show "unat (a - a div b * b) = unat a mod unat b"
    by (simp add: unat_sub_no_wrap eq minus_div_mult_eq_mod unat_mod_word)
qed

lemma unat_transferable: "unat (transferable_lamports env k n s) = unat (lamports s k) - unat (minimum_balance env n)"
  by (simp add: transferable_lamports_def unat_saturating_sub)

text \<open>
  How finalization splits what a tournament can spare, over natural numbers: the house's part, the
  reimbursement of the operator, and the share of a winner. With players the house gets its fee and the
  remainder of the division, and the operator what is left above that up to the costs; without players
  the operator comes first and the house gets all the rest.
\<close>

definition payout_split :: "Tournament \<Rightarrow> nat \<Rightarrow> nat \<Rightarrow> nat \<Rightarrow> nat \<times> nat \<times> nat" where
  "payout_split t costs spare winners =
     (if t_participant_count t = 0 then (spare - min costs spare, min costs spare, 0)
      else
        let house = unat (t_pool t) * unat (t_house_fee_bps t) div 10000;
            raw = min (unat (t_pool t) - house - costs) spare;
            fees = house + raw mod winners
        in (fees, min costs (spare - fees), raw div winners))"

lemma payout_split_costs [simp]: "payout_split (t\<lparr>t_operator_costs := x\<rparr>) = payout_split t"
  by (simp add: payout_split_def fun_eq_iff)

lemma payout_split_empty: "t_participant_count t = 0 \<Longrightarrow> payout_split t c s m = payout_split t c s m'"
  by (simp add: payout_split_def)

text \<open>
  The accounting of a distribution: what leaves the tournament account, and what stays for the
  winners. \<open>bal\<close> is the balance of the account before, \<open>bal'\<close> after it.
\<close>

lemma finalize_winners_accounting:
  assumes fin: "finalize_winners env ck tk op n c t s = Inr (c', t', s')"
    and fee: "t_house_fee_bps t \<le> 10000" and keys: "tk \<noteq> ck" "tk \<noteq> op" "ck \<noteq> op" and funded: "funded s"
    and bal: "unat rent + unat (t_pool t) \<le> unat (lamports s tk)"
    and rent: "unat rent \<le> unat (minimum_balance env n)"
  obtains fees reimbursed where
    "unat (lamports s' tk) + fees + reimbursed = unat (lamports s tk)"
    "unat (lamports s' ck) = unat (lamports s ck) + fees"
    "unat (lamports s' op) = unat (lamports s op) + reimbursed"
    "unat (c_accumulated_fees c') = unat (c_accumulated_fees c) + fees"
    "c' = c\<lparr>c_accumulated_fees := c_accumulated_fees c'\<rparr>" "t_id t' = t_id t" "t_bump t' = t_bump t"
    "unat rent + unat (t_winner_pool t') \<le> unat (lamports s' tk)"
    "unat (t_winner_pool t') = unat (prize_share t') * unat (t_winner_count t')"
    "fees + reimbursed + unat (t_winner_pool t') \<le> unat (t_pool t) + unat (t_operator_costs t)"
    "reimbursed \<le> unat (t_operator_costs t)"
    "lamport_supply s' = lamport_supply s" "funded s'" "accounts s' = accounts s"
    "\<forall>k. k \<noteq> tk \<and> k \<noteq> ck \<and> k \<noteq> op \<longrightarrow> lamports s' k = lamports s k"
    "t_participant_count t \<noteq> 0 \<longrightarrow> payout_split t (unat (t_operator_costs t))
       (unat (lamports s tk) - unat (minimum_balance env n)) (unat (t_winner_count t')) = (fees, reimbursed, unat (prize_share t'))"
proof -
  obtain thr winners house_fee raw per_winner fee_total s1 actual where
    f: "winners \<noteq> 0" "calc_house_fee t = Inr house_fee"
    "raw = min (saturating_sub (saturating_sub (t_pool t) house_fee) (t_operator_costs t)) (transferable_lamports env tk n s)"
    "per_winner = raw div ucast winners"
    "checked_add house_fee (raw - per_winner * ucast winners) = Some fee_total"
    "add_fees fee_total c = Inr c'"
    "s1 = move_lamports tk ck fee_total s"
    "actual = min (t_operator_costs t) (transferable_lamports env tk n s1)"
    "s' = move_lamports tk op actual s1"
    "t' = t\<lparr>t_min_winning_score := thr, t_winner_count := winners, t_winner_pool := per_winner * ucast winners,
       t_payout_started_at := unix_timestamp env, t_state := Payout\<rparr>"
    using fin by (rule finalize_winnersE)
  define R where "R = unat raw"
  define W where "W = unat winners"
  have W: "0 < W" using f(1) by (simp add: W_def unat_gt_0)
  have wu: "unat (ucast winners :: u64) = W" by (simp add: W_def)
  note hf = house_fee_le_pool(2) [OF f(2) fee]
  have R: "R \<le> unat (t_pool t) - unat house_fee - unat (t_operator_costs t)"
    by (simp add: R_def f(3) unat_min_word unat_saturating_sub)
  have dust: "unat (raw - per_winner * ucast winners) = R mod W"
    using unat_div_mult(2) [of raw "ucast winners"] by (simp add: f(4) wu R_def)
  have pool': "unat (per_winner * ucast winners) = R div W * W"
    using unat_div_mult(1) [of raw "ucast winners"] by (simp add: f(4) wu R_def)
  have split: "R div W * W + R mod W = R" by simp
  have ft: "unat fee_total = unat house_fee + R mod W" using checked_add_SomeD(2) [OF f(5)] dust by simp
  have "unat fee_total \<le> unat (t_pool t)" using ft hf R split by linarith
  then have le1: "fee_total \<le> lamports s tk" using bal by (simp add: word_le_nat_alt)
  note m1 = unat_move_from [OF keys(1) le1] unat_move_to [OF funded keys(1) le1]
  have funded1: "funded s1" unfolding f(7) by (rule funded_move [OF funded le1])
  have b1: "unat (lamports s1 tk) = unat (lamports s tk) - unat fee_total" using m1(1) by (simp add: f(7))
  have act: "unat actual \<le> unat (t_operator_costs t)" "unat actual \<le> unat (lamports s1 tk) - unat (minimum_balance env n)"
    by (simp_all add: f(8) unat_min_word unat_transferable)
  then have le2: "actual \<le> lamports s1 tk" by (simp add: word_le_nat_alt)
  note m2 = unat_move_from [OF keys(2) le2] unat_move_to [OF funded1 keys(2) le2]
  have b2: "unat (lamports s' tk) = unat (lamports s tk) - unat fee_total - unat actual"
    using m2(1) b1 by (simp add: f(9))
  have fees': "unat (c_accumulated_fees c') = unat (c_accumulated_fees c) + unat fee_total"
    using f(6) by (auto simp: add_fees_Inr_iff word_nat)
  have wp: "unat (t_winner_pool t') = R div W * W" using pool' by (simp add: f(10))
  have share: "unat (prize_share t') = R div W"
    using W by (simp add: prize_share_def f(10) unat_div_word pool' wu)
  have hf1: "unat house_fee = unat (t_pool t) * unat (t_house_fee_bps t) div 10000" by (rule house_fee_le_pool(1) [OF f(2) fee])
  have R1: "R = min (unat (t_pool t) - unat house_fee - unat (t_operator_costs t)) (unat (lamports s tk) - unat (minimum_balance env n))"
    by (simp add: R_def f(3) unat_min_word unat_saturating_sub unat_transferable)
  have a1: "unat actual = min (unat (t_operator_costs t)) (unat (lamports s tk) - unat (minimum_balance env n) - unat fee_total)"
    by (simp add: f(8) unat_min_word unat_transferable b1 diff_commute)
  have amounts: "t_participant_count t \<noteq> 0 \<longrightarrow> payout_split t (unat (t_operator_costs t))
      (unat (lamports s tk) - unat (minimum_balance env n)) (unat (t_winner_count t')) = (unat fee_total, unat actual, unat (prize_share t'))"
  proof
    assume pos: "t_participant_count t \<noteq> 0"
    have wc: "unat (t_winner_count t') = W" by (simp add: f(10) W_def)
    show "payout_split t (unat (t_operator_costs t)) (unat (lamports s tk) - unat (minimum_balance env n))
        (unat (t_winner_count t')) = (unat fee_total, unat actual, unat (prize_share t'))"
      using pos by (simp only: payout_split_def Let_def hf1 [symmetric] R1 [symmetric] wc ft [symmetric] share a1 if_False)
  qed
  show ?thesis
  proof (rule that [of "unat fee_total" "unat actual"])
    show "unat (lamports s' tk) + unat fee_total + unat actual = unat (lamports s tk)"
      using b2 le1 le2 b1 by (simp add: word_le_nat_alt)
    show "unat (lamports s' ck) = unat (lamports s ck) + unat fee_total"
      using m1(2) keys by (simp add: f(7,9) move_other)
    show "unat (lamports s' op) = unat (lamports s op) + unat actual"
      using m2(2) keys by (simp add: f(7,9) move_other)
    show "unat (t_winner_pool t') = unat (prize_share t') * unat (t_winner_count t')"
      using pool' share by (simp add: f(10) W_def)
    show "unat rent + unat (t_winner_pool t') \<le> unat (lamports s' tk)"
    proof (cases "R = 0")
      case True
      then have "unat (t_winner_pool t') = 0" using pool' by (simp add: f(10))
      moreover have "unat rent \<le> unat (lamports s1 tk)" using b1 bal ft hf True by simp
      ultimately show ?thesis using b2 b1 act(2) rent by simp
    next
      case False
      then show ?thesis using wp b2 bal ft R split act(1) by linarith
    qed
    show "unat fee_total + unat actual + unat (t_winner_pool t') \<le> unat (t_pool t) + unat (t_operator_costs t)"
      using ft wp R split hf act(1) by linarith
    show "lamport_supply s' = lamport_supply s"
      by (simp add: f(7,9) supply_move [OF funded1 le2, unfolded f(7)] supply_move [OF funded le1])
    show "funded s'" unfolding f(9) by (rule funded_move [OF funded1 le2])
    show "\<forall>k. k \<noteq> tk \<and> k \<noteq> ck \<and> k \<noteq> op \<longrightarrow> lamports s' k = lamports s k"
      by (simp add: f(7,9) move_other)
    show "t_participant_count t \<noteq> 0 \<longrightarrow> payout_split t (unat (t_operator_costs t))
        (unat (lamports s tk) - unat (minimum_balance env n)) (unat (t_winner_count t')) = (unat fee_total, unat actual, unat (prize_share t'))"
      by (rule amounts)
  qed (use act fees' f(6,7,9,10) in \<open>auto simp: add_fees_Inr_iff\<close>)
qed

section \<open>Into the payout phase\<close>

lemma card_winner_keys:
  assumes "tournament_inv key rent t n ents bal" "t_state t \<noteq> Payout"
  shows "unat (count_winners thr (sorted_scores t)) = card {ek. \<exists>e. ents ek = Some e \<and> thr \<le> e_score e}"
    (is "_ = card ?K")
proof -
  have "length (filter (\<lambda>x. thr \<le> x) (sorted_scores t)) = card ?K"
    using length_filter_sorted_scores [of t "\<lambda>x. thr \<le> x"] card_entries_slots [OF assms, of "\<lambda>x. thr \<le> x"] assms(1)
    by (simp add: tournament_inv_def vectors_ok_def)
  moreover have "card ?K \<le> card (dom ents)" by (intro card_mono) auto
  moreover have "card (dom ents) \<le> 65535"
    using card_entries_le_slots [OF assms(1)] assms(1) by (simp add: tournament_inv_def vectors_ok_def)
  ultimately show ?thesis by (simp add: count_winners_def unat_of_nat)
qed

lemma tournament_inv_into_payout:
  assumes inv: "tournament_inv key rent t n ents bal" and st: "t_state t \<noteq> Payout"
    and same: "t_players t' = t_players t" "t_scores t' = t_scores t" "t_strategies t' = t_strategies t"
      "t_house_fee_bps t' = t_house_fee_bps t" "t_entries_remaining t' = t_entries_remaining t"
    and st': "t_state t' = Payout"
    and funds: "unat rent + unat (prize_share t') * card (winner_keys t' ents) \<le> unat bal'"
  shows "tournament_inv key rent t' n ents bal'"
  using inv same st' funds
  by (simp add: tournament_inv_def vectors_ok_def entry_ok_def funds_ok_def phase_ok_def)

lemma tournament_inv_finalize_winners:
  assumes fin: "finalize_winners env ck tk op n c (t\<lparr>t_operator_costs := costs\<rparr>) s = Inr (c', t', s')"
    and inv: "tournament_inv key rent t n ents (lamports s tk)" and st: "t_state t = Running"
    and keys: "tk \<noteq> ck" "tk \<noteq> op" "ck \<noteq> op" and funded: "funded s"
    and rent: "unat rent \<le> unat (minimum_balance env n)"
  shows "tournament_inv key rent t' n ents (lamports s' tk)"
proof -
  let ?t = "t\<lparr>t_operator_costs := costs\<rparr>"
  have st': "t_state ?t \<noteq> Payout" using st by simp
  have inv': "tournament_inv key rent ?t n ents (lamports s tk)"
    using inv st by (intro tournament_inv_bookkeeping [OF inv]) (simp_all add: tournament_inv_def phase_ok_def)
  have fee: "t_house_fee_bps ?t \<le> 10000" using inv by (simp add: tournament_inv_def vectors_ok_def)
  obtain thr winners wpool where t': "t' = ?t\<lparr>t_min_winning_score := thr, t_winner_count := winners,
      t_winner_pool := wpool, t_payout_started_at := unix_timestamp env, t_state := Payout\<rparr>"
    and winners: "winners = count_winners thr (sorted_scores ?t)"
    using fin by (rule finalize_winnersE)
  note acc = inv_before_payout(4) [OF inv' st']
  obtain fees reimbursed where
    funds: "unat rent + unat (t_winner_pool t') \<le> unat (lamports s' tk)"
    "unat (t_winner_pool t') = unat (prize_share t') * unat (t_winner_count t')"
    using fin fee keys funded acc rent by (rule finalize_winners_accounting)
  have "card (winner_keys t' ents) = unat (t_winner_count t')"
    using card_winner_keys [OF inv' st', of thr] by (simp add: t' winners winner_keys_def)
  with funds have "unat rent + unat (prize_share t') * card (winner_keys t' ents) \<le> unat (lamports s' tk)"
    by simp
  then show ?thesis by (intro tournament_inv_into_payout [OF inv' st']) (simp_all add: t')
qed

text \<open>Without active players the operator is paid from what exceeds the rent, the house gets the rest.\<close>

lemma finalize_empty_accounting:
  assumes fin: "finalize_empty env ck tk op n c t s = Inr (c', t', s')"
    and keys: "tk \<noteq> ck" "tk \<noteq> op" "ck \<noteq> op" and funded: "funded s"
  obtains fees reimbursed where
    "unat (lamports s' tk) + fees + reimbursed = unat (lamports s tk)"
    "unat (lamports s' ck) = unat (lamports s ck) + fees"
    "unat (lamports s' op) = unat (lamports s op) + reimbursed"
    "unat (c_accumulated_fees c') = unat (c_accumulated_fees c) + fees"
    "c' = c\<lparr>c_accumulated_fees := c_accumulated_fees c'\<rparr>"
    "t' = t\<lparr>t_winner_count := 0, t_winner_pool := 0, t_min_winning_score := 0,
            t_payout_started_at := unix_timestamp env, t_state := Payout\<rparr>"
    "min (unat (lamports s tk)) (unat (minimum_balance env n)) \<le> unat (lamports s' tk)"
    "lamport_supply s' = lamport_supply s" "funded s'" "accounts s' = accounts s"
    "\<forall>k. k \<noteq> tk \<and> k \<noteq> ck \<and> k \<noteq> op \<longrightarrow> lamports s' k = lamports s k"
    "t_participant_count t = 0 \<longrightarrow> payout_split t (unat (t_operator_costs t))
       (unat (lamports s tk) - unat (minimum_balance env n)) m = (fees, reimbursed, 0)"
proof -
  define r where "r = min (t_operator_costs t) (transferable_lamports env tk n s)"
  define s1 where "s1 = move_lamports tk op r s"
  define q where "q = transferable_lamports env tk n s1"
  have skip: "(if 0 < r then move_lamports tk op r s else s) = s1"
    by (auto simp: s1_def word_gt_0)
  have t': "t' = t\<lparr>t_winner_count := 0, t_winner_pool := 0, t_min_winning_score := 0,
            t_payout_started_at := unix_timestamp env, t_state := Payout\<rparr>"
    and s': "s' = move_lamports tk ck q s1"
    and c': "c' = c\<lparr>c_accumulated_fees := c_accumulated_fees c'\<rparr>"
      "unat (c_accumulated_fees c') = unat (c_accumulated_fees c) + unat q"
    using fin unfolding finalize_empty_def Let_def r_def [symmetric] skip q_def [symmetric]
    by (auto simp: and_then_Inr_iff add_fees_Inr_iff word_nat word_gt_0 split: if_splits)
  have le1: "r \<le> lamports s tk" by (simp add: r_def word_le_nat_alt unat_min_word unat_transferable)
  note m1 = unat_move_from [OF keys(2) le1] unat_move_to [OF funded keys(2) le1]
  have funded1: "funded s1" unfolding s1_def by (rule funded_move [OF funded le1])
  have le2: "q \<le> lamports s1 tk" by (simp add: q_def word_le_nat_alt unat_transferable)
  note m2 = unat_move_from [OF keys(1) le2] unat_move_to [OF funded1 keys(1) le2]
  have b1: "unat (lamports s1 tk) = unat (lamports s tk) - unat r" using m1(1) by (simp add: s1_def)
  have b2: "unat (lamports s' tk) = unat (lamports s1 tk) - unat q" using m2(1) by (simp add: s')
  have r: "unat r \<le> unat (lamports s tk) - unat (minimum_balance env n)"
    by (simp add: r_def unat_min_word unat_transferable)
  have q: "unat q = unat (lamports s1 tk) - unat (minimum_balance env n)" by (simp add: q_def unat_transferable)
  have r1: "unat r = min (unat (t_operator_costs t)) (unat (lamports s tk) - unat (minimum_balance env n))"
    by (simp add: r_def unat_min_word unat_transferable)
  then have q1: "unat q = unat (lamports s tk) - unat (minimum_balance env n) - unat r" using q b1 r by linarith
  show ?thesis
  proof (rule that [of "unat q" "unat r"])
    show "t_participant_count t = 0 \<longrightarrow> payout_split t (unat (t_operator_costs t))
        (unat (lamports s tk) - unat (minimum_balance env n)) m = (unat q, unat r, 0)"
      by (simp add: payout_split_def r1 q1)
    show "unat (lamports s' tk) + unat q + unat r = unat (lamports s tk)" using b1 b2 r q by linarith
    show "min (unat (lamports s tk)) (unat (minimum_balance env n)) \<le> unat (lamports s' tk)"
      using b1 b2 r q by linarith
    show "unat (lamports s' ck) = unat (lamports s ck) + unat q"
      using m2(2) keys by (simp add: s' s1_def move_other)
    show "unat (lamports s' op) = unat (lamports s op) + unat r"
      using m1(2) keys by (simp add: s' s1_def move_other)
    show "lamport_supply s' = lamport_supply s"
      unfolding s' supply_move [OF funded1 le2] unfolding s1_def supply_move [OF funded le1] ..
    show "funded s'" unfolding s' by (rule funded_move [OF funded1 le2])
    show "\<forall>k. k \<noteq> tk \<and> k \<noteq> ck \<and> k \<noteq> op \<longrightarrow> lamports s' k = lamports s k"
      by (simp add: s' s1_def move_other)
  qed (use c' t' in \<open>simp_all add: s' s1_def\<close>)
qed

lemma tournament_inv_finalize_empty:
  assumes fin: "finalize_empty env ck tk op n c (t\<lparr>t_operator_costs := costs\<rparr>) s = Inr (c', t', s')"
    and inv: "tournament_inv key rent t n ents (lamports s tk)" and st: "t_state t = Running"
    and keys: "tk \<noteq> ck" "tk \<noteq> op" "ck \<noteq> op" and funded: "funded s"
    and rent: "unat rent \<le> unat (minimum_balance env n)"
  shows "tournament_inv key rent t' n ents (lamports s' tk)"
proof -
  let ?t = "t\<lparr>t_operator_costs := costs\<rparr>"
  obtain fees reimbursed where
    t': "t' = ?t\<lparr>t_winner_count := 0, t_winner_pool := 0, t_min_winning_score := 0,
            t_payout_started_at := unix_timestamp env, t_state := Payout\<rparr>"
    and b: "min (unat (lamports s tk)) (unat (minimum_balance env n)) \<le> unat (lamports s' tk)"
    using fin keys funded by (rule finalize_empty_accounting)
  have "unat rent \<le> unat (lamports s' tk)"
    using b rent inv_before_payout(4) [OF inv] st by simp
  then show ?thesis
    using st by (intro tournament_inv_into_payout [OF inv]) (simp_all add: t' prize_share_def)
qed

section \<open>Closing entries in the payout phase\<close>

lemma tournament_inv_close_entry:
  assumes inv: "tournament_inv key rent t n ents bal" and st: "t_state t = Payout"
    and e: "ents ek = Some e"
    and bal: "unat bal \<le> unat bal' + (if t_min_winning_score t \<le> e_score e then unat (prize_share t) else 0)"
    and t': "t' = t\<lparr>t_claims_processed := m, t_entries_remaining := t_entries_remaining t - 1\<rparr>"
  shows "tournament_inv key rent t' n (ents(ek := None)) bal'"
proof (rule tournament_invI)
  let ?ents = "ents(ek := None)"
  have old: "ents dk = Some d" if "?ents dk = Some d" for dk d using that by (simp split: if_splits)
  have dom': "card (dom ?ents) = card (dom ents) - 1" and pos: "0 < card (dom ents)"
    using card_dom_delete [of ents, OF e] card_dom_pos [of ents, OF e] by simp_all
  show "vectors_ok t' n" using inv by (simp add: tournament_inv_def vectors_ok_def t')
  show "entry_ok key t' dk d" if "?ents dk = Some d" for dk d
    using tournament_inv_entry [OF inv old [OF that]] by (simp add: entry_ok_def t')
  show "unat (t_entries_remaining t') = card (dom ?ents)"
    using inv pos dom' by (simp add: tournament_inv_def t' unat_sub_1)
  show "phase_ok t' ?ents" using st by (simp add: phase_ok_def t')
  have funds: "unat rent + unat (prize_share t) * card (winner_keys t ents) \<le> unat bal"
    using inv st by (simp add: tournament_inv_def funds_ok_def)
  have wk: "winner_keys t' ?ents = winner_keys t ents - {ek}" by (auto simp: winner_keys_def t')
  have "unat rent + unat (prize_share t) * card (winner_keys t ents - {ek}) \<le> unat bal'"
  proof (cases "t_min_winning_score t \<le> e_score e")
    case True
    then have "ek \<in> winner_keys t ents" using e by (auto simp: winner_keys_def)
    then have "card (winner_keys t ents) = card (winner_keys t ents - {ek}) + 1"
      by (metis Suc_eq_plus1 card_Suc_Diff1 finite)
    with True funds bal show ?thesis by simp
  next
    case False
    then have "winner_keys t ents - {ek} = winner_keys t ents" using e by (auto simp: winner_keys_def)
    with False funds bal show ?thesis by simp
  qed
  then show "funds_ok rent t' ?ents bal'"
    using st by (simp add: funds_ok_def wk prize_share_def) (simp add: t')
qed

lemma prize_available:
  assumes "tournament_inv key rent t n ents bal" "t_state t = Payout" "ents ek = Some e"
    and "t_min_winning_score t \<le> e_score e"
  shows "unat rent + unat (prize_share t) \<le> unat bal"
proof -
  have "ek \<in> winner_keys t ents" using assms(3,4) by (auto simp: winner_keys_def)
  then have "1 \<le> card (winner_keys t ents)" by (simp add: card_gt_0_iff Suc_le_eq) blast
  then have "unat (prize_share t) * 1 \<le> unat (prize_share t) * card (winner_keys t ents)"
    by (rule mult_le_mono2)
  moreover have "unat rent + unat (prize_share t) * card (winner_keys t ents) \<le> unat bal"
    using assms(1,2) by (simp add: tournament_inv_def funds_ok_def)
  ultimately show ?thesis by linarith
qed

end
