(* ===== verification/Arena_Machine.thy ===== *)
theory Arena_Machine
  imports Finalize_Correct
begin

text \<open>
  The program as a machine on ledgers: the instructions of the program module (\<^verbatim>\<open>lib.rs\<close>) with
  their dispatch, the step relation, and the invariant of a whole ledger.
\<close>

section \<open>Instructions\<close>

datatype Instruction =
    InitializeConfig Pubkey Pubkey Pubkey InitializeConfigParams
  | UpdateConfig Pubkey Pubkey UpdateConfigParams
  | WithdrawFees Pubkey Pubkey
  | EnterTournament Pubkey Pubkey Pubkey Pubkey "u8 list"
  | RevealStrategy Pubkey Pubkey Pubkey ArenaStrategy "u8 list" "u8 list option"
  | ClaimRefund Pubkey Pubkey Pubkey
  | ClaimPayout Pubkey Pubkey Pubkey
  | CloseRegistration Pubkey Pubkey Pubkey
  | CloseReveal Pubkey Pubkey "Pubkey option" "Pubkey option" Pubkey
  | ForfeitUnrevealed Pubkey Pubkey Pubkey Pubkey
  | RunMatches Pubkey Pubkey Pubkey "Pubkey list"
  | FinalizeTournament Pubkey Pubkey Pubkey Pubkey
  | CloseEntry Pubkey Pubkey Pubkey Pubkey Pubkey
  | CloseTournament Pubkey Pubkey Pubkey

fun dispatch :: "Env \<Rightarrow> Instruction \<Rightarrow> Ledger \<Rightarrow> Error + Ledger" where
  "dispatch env (InitializeConfig ck tk admin params) s = initialize_config env ck tk admin params s"
| "dispatch env (UpdateConfig ck admin params) s = update_config env ck admin params s"
| "dispatch env (WithdrawFees ck admin) s = withdraw_fees env ck admin s"
| "dispatch env (EnterTournament ck tk ek player commitment) s = enter_tournament env ck tk ek player commitment s"
| "dispatch env (RevealStrategy ek tk player strategy salt code) s = reveal_strategy env ek tk player strategy salt code s"
| "dispatch env (ClaimRefund tk ek player) s = claim_refund env tk ek player s"
| "dispatch env (ClaimPayout tk ek player) s = claim_payout env tk ek player s"
| "dispatch env (CloseRegistration ck tk operator) s = close_registration env ck tk operator s"
| "dispatch env (CloseReveal ck tk re rp operator) s = close_reveal env ck tk re rp operator s"
| "dispatch env (ForfeitUnrevealed ck ek tk operator) s = forfeit_unrevealed env ck ek tk operator s"
| "dispatch env (RunMatches ck tk operator accs) s = run_matches env ck tk operator accs s"
| "dispatch env (FinalizeTournament ck tk nk operator) s = finalize_tournament env ck tk nk operator s"
| "dispatch env (CloseEntry ck tk ek player operator) s = close_entry env ck tk ek player operator s"
| "dispatch env (CloseTournament ck tk operator) s = close_tournament env ck tk operator s"

section \<open>The network around the program\<close>

text \<open>
  What stays the same in all transactions: the derivation of program addresses and the rent. What
  the program relies on: nobody can sign for a derived address or for the default key, rent grows
  with the size, and a payer who tops up an account makes it rent exempt.
\<close>

record Network =
  derive :: "u8 list list \<Rightarrow> Pubkey \<times> u8"
  rent_of :: "nat \<Rightarrow> u64"

definition address :: "Network \<Rightarrow> u8 list list \<Rightarrow> Pubkey" where
  "address net seeds = fst (derive net seeds)"

definition entry_key :: "Network \<Rightarrow> Pubkey \<Rightarrow> Pubkey \<Rightarrow> Pubkey" where
  "entry_key net tk player = address net (entry_seeds tk player)"

definition network_ok :: "Network \<Rightarrow> bool" where
  "network_ok net \<longleftrightarrow> mono (\<lambda>n. unat (rent_of net n))"

definition env_ok :: "Network \<Rightarrow> Env \<Rightarrow> bool" where
  "env_ok net env \<longleftrightarrow>
     find_program_address env = derive net \<and> minimum_balance env = rent_of net \<and>
     (\<forall>seeds. \<not> is_signer env (address net seeds)) \<and> \<not> is_signer env default_pubkey \<and>
     (\<forall>n bal. unat (rent_of net n) \<le> unat bal + unat (rent_top_up env n bal))"

text \<open>
  An operator who closes the reveal phase names the entry of this tournament. The program checks
  only the player and the index of the entry, so this is an assumption about the operator.
\<close>

definition honest :: "Network \<Rightarrow> Instruction \<Rightarrow> bool" where
  "honest net ix \<longleftrightarrow>
     (case ix of
        CloseReveal ck tk (Some ek) (Some player) operator \<Rightarrow> ek = entry_key net tk player
      | _ \<Rightarrow> True)"

text \<open>
  A step is an instruction of the program that succeeds, or a transfer from a wallet to any address,
  which anybody can make without the program.
\<close>

definition wallet :: "Network \<Rightarrow> Pubkey \<Rightarrow> bool" where
  "wallet net k \<longleftrightarrow> (\<forall>seeds. k \<noteq> address net seeds)"

inductive step :: "Network \<Rightarrow> Ledger \<Rightarrow> Ledger \<Rightarrow> bool" for net where
  execute: "env_ok net env \<Longrightarrow> honest net ix \<Longrightarrow> dispatch env ix s = Inr s' \<Longrightarrow> step net s s'"
| deposit: "wallet net p \<Longrightarrow> system_transfer p k amount s = Inr s' \<Longrightarrow> step net s s'"

inductive_cases stepE: "step net s s'"

inductive reachable :: "Network \<Rightarrow> Ledger \<Rightarrow> bool" for net where
  initial: "accounts s = Map.empty \<Longrightarrow> funded s \<Longrightarrow> reachable net s"
| more: "reachable net s \<Longrightarrow> step net s s' \<Longrightarrow> reachable net s'"

section \<open>The invariant of a ledger\<close>

definition entries_of :: "Ledger \<Rightarrow> Pubkey \<Rightarrow> entry_map" where
  "entries_of s tk ek =
     (case accounts s ek of
        Some (EntryData e) \<Rightarrow> if e_tournament e = tk then Some e else None
      | _ \<Rightarrow> None)"

definition tournament_account_ok :: "Network \<Rightarrow> Ledger \<Rightarrow> Pubkey \<Rightarrow> Tournament \<Rightarrow> nat \<Rightarrow> bool" where
  "tournament_account_ok net s tk t n \<longleftrightarrow>
     tk = address net (tournament_seeds (t_id t)) \<and> t_bump t = snd (derive net (tournament_seeds (t_id t))) \<and>
     tournament_inv (entry_key net tk) (rent_of net BASE_SPACE) t n (entries_of s tk) (lamports s tk)"

definition entry_account_ok :: "Network \<Rightarrow> Ledger \<Rightarrow> Pubkey \<Rightarrow> Entry \<Rightarrow> bool" where
  "entry_account_ok net s ek e \<longleftrightarrow>
     (\<exists>t n. accounts s (e_tournament e) = Some (TournamentData t n)) \<and>
     ek = entry_key net (e_tournament e) (e_player e) \<and>
     e_bump e = snd (derive net (entry_seeds (e_tournament e) (e_player e))) \<and> wallet net (e_player e) \<and>
     rent_of net ENTRY_LEN \<le> lamports s ek"

definition config_account_ok :: "Network \<Rightarrow> Ledger \<Rightarrow> Pubkey \<Rightarrow> Config \<Rightarrow> bool" where
  "config_account_ok net s ck c \<longleftrightarrow>
     ck = address net config_seeds \<and> c_bump c = snd (derive net config_seeds) \<and> config_ok c \<and>
     unat (rent_of net CONFIG_LEN) + unat (c_accumulated_fees c) \<le> unat (lamports s ck)"

fun account_ok :: "Network \<Rightarrow> Ledger \<Rightarrow> Pubkey \<Rightarrow> AccountData \<Rightarrow> bool" where
  "account_ok net s k (ConfigData c) = config_account_ok net s k c"
| "account_ok net s k (TournamentData t n) = tournament_account_ok net s k t n"
| "account_ok net s k (EntryData e) = entry_account_ok net s k e"

definition ledger_inv :: "Network \<Rightarrow> Ledger \<Rightarrow> bool" where
  "ledger_inv net s \<longleftrightarrow> funded s \<and> (\<forall>k d. accounts s k = Some d \<longrightarrow> account_ok net s k d)"

end
