(* ===== verification/Ledger_Inv.thy ===== *)
theory Ledger_Inv
  imports Arena_Machine
begin

text \<open>
  The ledger invariant is kept by every instruction. The general lemmas say which part of a ledger
  an account depends on; then there is one lemma per handler.
\<close>

section \<open>What an account depends on\<close>

lemma tournament_inv_mono:
  "tournament_inv key rent t n ents bal \<Longrightarrow> bal \<le> bal' \<Longrightarrow> tournament_inv key rent t n ents bal'"
  by (auto simp: tournament_inv_def funds_ok_def word_le_nat_alt)

lemma account_ok_mono:
  assumes "account_ok net s k d" "lamports s k \<le> lamports s' k" "entries_of s' k = entries_of s k"
    and "\<And>e. d = EntryData e \<Longrightarrow> \<exists>t n. accounts s' (e_tournament e) = Some (TournamentData t n)"
  shows "account_ok net s' k d"
  using assms
  by (cases d) (auto simp: config_account_ok_def tournament_account_ok_def entry_account_ok_def word_le_nat_alt
      intro: tournament_inv_mono)

lemma entries_of_iff: "entries_of s tk ek = Some e \<longleftrightarrow> accounts s ek = Some (EntryData e) \<and> e_tournament e = tk"
  by (auto simp: entries_of_def split: option.splits AccountData.splits)

lemma entries_of_cong:
  assumes "\<And>ek e. e_tournament e = tk \<Longrightarrow> accounts s' ek = Some (EntryData e) \<longleftrightarrow> accounts s ek = Some (EntryData e)"
  shows "entries_of s' tk = entries_of s tk"
proof (rule ext)
  fix ek
  have "entries_of s' tk ek = Some e \<longleftrightarrow> entries_of s tk ek = Some e" for e
    using assms by (auto simp: entries_of_iff)
  then show "entries_of s' tk ek = entries_of s tk ek"
    by (metis option.exhaust)
qed

lemma ledger_inv_funded: "ledger_inv net s \<Longrightarrow> funded s"
  by (simp add: ledger_inv_def)

lemma ledger_inv_account: "ledger_inv net s \<Longrightarrow> accounts s k = Some d \<Longrightarrow> account_ok net s k d"
  by (simp add: ledger_inv_def)

lemma ledger_inv_tournament:
  "ledger_inv net s \<Longrightarrow> accounts s tk = Some (TournamentData t n) \<Longrightarrow> tournament_account_ok net s tk t n"
  using ledger_inv_account by fastforce

lemma ledger_inv_config:
  "ledger_inv net s \<Longrightarrow> accounts s ck = Some (ConfigData c) \<Longrightarrow> config_account_ok net s ck c"
  using ledger_inv_account by fastforce

lemma ledger_inv_entry:
  "ledger_inv net s \<Longrightarrow> accounts s ek = Some (EntryData e) \<Longrightarrow> entry_account_ok net s ek e"
  using ledger_inv_account by fastforce

section \<open>Updates\<close>

text \<open>Lamports that only grow on the program's accounts.\<close>

lemma ledger_inv_lamports:
  assumes "ledger_inv net s" "accounts s' = accounts s" "funded s'"
    and "\<And>k. accounts s k \<noteq> None \<Longrightarrow> lamports s k \<le> lamports s' k"
  shows "ledger_inv net s'"
  unfolding ledger_inv_def
proof (intro conjI allI impI)
  fix k d assume d: "accounts s' k = Some d"
  show "account_ok net s' k d"
  proof (rule account_ok_mono)
    show ok: "account_ok net s k d" using ledger_inv_account [OF assms(1)] d assms(2) by simp
    show "lamports s k \<le> lamports s' k" using assms(2,4) d by simp
    show "entries_of s' k = entries_of s k" by (rule entries_of_cong) (simp add: assms(2))
    show "\<exists>t n. accounts s' (e_tournament e) = Some (TournamentData t n)" if "d = EntryData e" for e
      using ok that by (simp add: entry_account_ok_def assms(2))
  qed
qed (rule assms(3))

text \<open>The configuration account.\<close>

lemma ledger_inv_store_config:
  assumes inv: "ledger_inv net s" and c: "accounts s ck = Some (ConfigData c)"
    and acc: "accounts s' = (accounts s)(ck \<mapsto> ConfigData c')"
    and ok: "config_account_ok net s' ck c'" and funded: "funded s'"
    and lam: "\<And>k. accounts s k \<noteq> None \<Longrightarrow> k \<noteq> ck \<Longrightarrow> lamports s k \<le> lamports s' k"
  shows "ledger_inv net s'"
  unfolding ledger_inv_def
proof (intro conjI allI impI)
  fix k d assume d: "accounts s' k = Some d"
  show "account_ok net s' k d"
  proof (cases "k = ck")
    case True
    with d acc have "d = ConfigData c'" by simp
    with True ok show ?thesis by simp
  next
    case False
    with d acc have old: "accounts s k = Some d" by simp
    then have ok': "account_ok net s k d" by (rule ledger_inv_account [OF inv])
    then show ?thesis
    proof (rule account_ok_mono)
      show "lamports s k \<le> lamports s' k" using lam False old by simp
      show "entries_of s' k = entries_of s k" using c by (intro entries_of_cong) (auto simp: acc)
      show "\<exists>t n. accounts s' (e_tournament e) = Some (TournamentData t n)" if "d = EntryData e" for e
        using ok' that c by (auto simp: entry_account_ok_def acc)
    qed
  qed
qed (rule funded)

text \<open>A new tournament account.\<close>

lemma no_orphans:
  assumes "ledger_inv net s" "\<And>t n. accounts s tk \<noteq> Some (TournamentData t n)"
  shows "entries_of s tk = Map.empty"
proof (rule ext)
  fix ek
  show "entries_of s tk ek = None"
  proof (cases "entries_of s tk ek")
    case (Some e)
    then have "accounts s ek = Some (EntryData e)" "e_tournament e = tk" by (simp_all add: entries_of_iff)
    with ledger_inv_entry [OF assms(1) this(1)] assms(2) show ?thesis by (auto simp: entry_account_ok_def)
  qed
qed

lemma ledger_inv_store_new:
  assumes inv: "ledger_inv net s" and new: "accounts s k = None"
    and d: "account_ok net (store k d s) k d" "\<And>e. d \<noteq> EntryData e"
  shows "ledger_inv net (store k d s)"
  unfolding ledger_inv_def
proof (intro conjI allI impI)
  let ?s = "store k d s"
  show "funded ?s" using ledger_inv_funded [OF inv] by simp
  fix k' d' assume d': "accounts ?s k' = Some d'"
  show "account_ok net ?s k' d'"
  proof (cases "k' = k")
    case True
    with d' d show ?thesis by simp
  next
    case False
    with d' have ok': "account_ok net s k' d'" using ledger_inv_account [OF inv] by simp
    then show ?thesis
    proof (rule account_ok_mono)
      show "entries_of ?s k' = entries_of s k'" using new d(2) by (intro entries_of_cong) auto
      show "\<exists>t n. accounts ?s (e_tournament e) = Some (TournamentData t n)" if "d' = EntryData e" for e
        using ok' that new by (auto simp: entry_account_ok_def)
    qed simp
  qed
qed

text \<open>
  A tournament account together with some of its entries: \<open>K\<close> are the entry addresses touched,
  \<open>ents'\<close> the open entries afterwards.
\<close>

lemma ledger_inv_update:
  assumes inv: "ledger_inv net s" and t: "accounts s tk = Some (TournamentData t n)"
    and K: "tk \<notin> K" "\<And>k. k \<in> K \<Longrightarrow> accounts s k = None \<or> entries_of s tk k \<noteq> None"
    and acc: "\<And>k. accounts s' k = (if k = tk then Some (TournamentData t' n')
        else if k \<in> K then map_option EntryData (ents' k) else accounts s k)"
    and ents: "\<And>k. k \<notin> K \<Longrightarrow> ents' k = entries_of s tk k"
    and new: "\<And>k e. k \<in> K \<Longrightarrow> ents' k = Some e \<Longrightarrow>
        e_tournament e = tk \<and> k = entry_key net tk (e_player e) \<and>
        e_bump e = snd (derive net (entry_seeds tk (e_player e))) \<and> wallet net (e_player e) \<and>
        rent_of net ENTRY_LEN \<le> lamports s' k"
    and id: "t_id t' = t_id t" "t_bump t' = t_bump t"
    and tinv: "tournament_inv (entry_key net tk) (rent_of net BASE_SPACE) t' n' ents' (lamports s' tk)"
    and funded: "funded s'"
    and lam: "\<And>k. accounts s k \<noteq> None \<Longrightarrow> k \<noteq> tk \<Longrightarrow> k \<notin> K \<Longrightarrow> lamports s k \<le> lamports s' k"
  shows "ledger_inv net s'"
  unfolding ledger_inv_def
proof (intro conjI allI impI)
  note tok = ledger_inv_tournament [OF inv t]
  have ents': "entries_of s' tk = ents'"
  proof (rule ext)
    fix k
    show "entries_of s' tk k = ents' k"
    proof (cases "k \<in> K")
      case True
      then have "accounts s' k = map_option EntryData (ents' k)" using K(1) by (auto simp: acc)
      with new [OF True] show ?thesis by (cases "ents' k") (auto simp: entries_of_def)
    next
      case False
      then have "entries_of s' tk k = entries_of s tk k" using t by (auto simp: entries_of_def acc)
      with ents [OF False] show ?thesis by simp
    qed
  qed
  have keep: "\<exists>u m. accounts s' k = Some (TournamentData u m)" if "accounts s k = Some (TournamentData u m)" for k u m
    using that K(2) [of k] by (auto simp: acc entries_of_iff)
  fix k d assume d: "accounts s' k = Some d"
  consider "k = tk" | "k \<noteq> tk" "k \<in> K" | "k \<noteq> tk" "k \<notin> K" by blast
  then show "account_ok net s' k d"
  proof cases
    case 1
    with d acc [of tk] have "d = TournamentData t' n'" by simp
    with 1 tok id tinv ents' show ?thesis by (auto simp: tournament_account_ok_def)
  next
    case 2
    then obtain e where e: "ents' k = Some e" "d = EntryData e" using d acc [of k] by auto
    with new [OF 2(2) e(1)] keep [OF t] show ?thesis by (auto simp: entry_account_ok_def)
  next
    case 3
    then have old: "accounts s k = Some d" using d acc by simp
    then have ok: "account_ok net s k d" by (rule ledger_inv_account [OF inv])
    then show ?thesis
    proof (rule account_ok_mono)
      show "lamports s k \<le> lamports s' k" using lam 3 old by simp
      show "entries_of s' k = entries_of s k"
      proof (rule entries_of_cong)
        fix ek and e :: Entry assume e: "e_tournament e = k"
        show "accounts s' ek = Some (EntryData e) \<longleftrightarrow> accounts s ek = Some (EntryData e)"
          using e 3(1) t K(2) [of ek] new [of ek e] by (auto simp: acc entries_of_iff)
      qed
      show "\<exists>u m. accounts s' (e_tournament e) = Some (TournamentData u m)" if "d = EntryData e" for e
        using ok that keep by (fastforce simp: entry_account_ok_def)
    qed
  qed
qed (rule funded)

section \<open>Wallets\<close>

lemma signer_wallet: "env_ok net env \<Longrightarrow> is_signer env p \<Longrightarrow> wallet net p \<and> p \<noteq> default_pubkey"
  by (auto simp: env_ok_def wallet_def)

lemma wallet_no_account:
  assumes "ledger_inv net s" "wallet net p"
  shows "accounts s p = None"
proof (cases "accounts s p")
  case (Some d)
  then have "account_ok net s p d" by (rule ledger_inv_account [OF assms(1)])
  with assms(2) show ?thesis
    by (cases d) (auto simp: wallet_def config_account_ok_def tournament_account_ok_def entry_account_ok_def entry_key_def)
qed

lemma wallet_neq:
  assumes "ledger_inv net s" "wallet net p" "accounts s k \<noteq> None"
  shows "k \<noteq> p"
  using wallet_no_account [OF assms(1,2)] assms(3) by auto

lemma move_mono:
  assumes "funded s" "a \<le> lamports s x" "k \<noteq> x"
  shows "lamports s k \<le> lamports (move_lamports x y a s) k"
proof (cases "k = y")
  case True
  with assms unat_move_to [OF assms(1), of x y a] show ?thesis by (simp add: word_le_nat_alt)
qed (use assms in \<open>simp add: move_other\<close>)

section \<open>The administrator's instructions\<close>

lemma ledger_inv_update_config:
  assumes inv: "ledger_inv net s" and ix: "update_config env ck admin params s = Inr s'"
  shows "ledger_inv net s'"
proof -
  obtain c c' where c: "accounts s ck = Some (ConfigData c)" "apply_update params c = Inr c'"
    "s' = store ck (ConfigData c') s"
    using ix by (rule update_configE)
  note ok = ledger_inv_config [OF inv c(1)]
  have "update_keeps c c'" using c(2) ok by (simp add: apply_update_keeps config_account_ok_def)
  with ok have "config_account_ok net s' ck c'" by (auto simp: config_account_ok_def update_keeps_def c(3))
  then show ?thesis
    using ledger_inv_funded [OF inv] by (intro ledger_inv_store_config [OF inv c(1)]) (simp_all add: c(3))
qed

lemma ledger_inv_withdraw_fees:
  assumes inv: "ledger_inv net s" and env: "env_ok net env" and ix: "withdraw_fees env ck admin s = Inr s'"
  shows "ledger_inv net s'"
proof -
  obtain c amount where c: "accounts s ck = Some (ConfigData c)" "is_signer env admin"
    and amount: "amount = min (c_accumulated_fees c) (saturating_sub (lamports s ck) (minimum_balance env CONFIG_LEN))"
    and s': "s' = move_lamports ck admin amount (store ck (ConfigData (c\<lparr>c_accumulated_fees := c_accumulated_fees c - amount\<rparr>)) s)"
    using ix by (rule withdraw_feesE)
  let ?s = "store ck (ConfigData (c\<lparr>c_accumulated_fees := c_accumulated_fees c - amount\<rparr>)) s"
  note ok = ledger_inv_config [OF inv c(1)]
  have admin: "wallet net admin" using signer_wallet [OF env c(2)] by simp
  have neq: "ck \<noteq> admin" using wallet_neq [OF inv admin] c(1) by simp
  have rent: "minimum_balance env = rent_of net" using env by (simp add: env_ok_def)
  have a: "unat amount \<le> unat (c_accumulated_fees c)" "unat amount \<le> unat (lamports s ck) - unat (rent_of net CONFIG_LEN)"
    by (simp_all add: amount rent unat_min_word unat_saturating_sub)
  then have le: "amount \<le> lamports ?s ck" "amount \<le> c_accumulated_fees c" by (simp_all add: word_le_nat_alt)
  have f: "funded ?s" using ledger_inv_funded [OF inv] by simp
  have bal: "unat (lamports s' ck) = unat (lamports s ck) - unat amount"
    using unat_move_from [OF neq le(1)] by (simp add: s')
  have fees: "unat (c_accumulated_fees c - amount) = unat (c_accumulated_fees c) - unat amount"
    using le(2) by (simp add: word_nat)
  show ?thesis
  proof (rule ledger_inv_store_config [OF inv c(1)])
    show "config_account_ok net s' ck (c\<lparr>c_accumulated_fees := c_accumulated_fees c - amount\<rparr>)"
      using ok bal fees a by (auto simp: config_account_ok_def config_ok_def)
    show "funded s'" unfolding s' by (rule funded_move [OF f le(1)])
    show "lamports s k \<le> lamports s' k" if "accounts s k \<noteq> None" "k \<noteq> ck" for k
      using move_mono [OF f le(1) that(2), of admin] by (simp add: s')
  qed (simp add: s')
qed

lemma env_rent_top_up:
  assumes "env_ok net env" "funded s" "wallet net p" "k = address net seeds"
    and "rent_top_up env m (lamports s k) \<le> lamports s p"
  shows "unat (rent_of net m) \<le> unat (lamports (move_lamports p k (rent_top_up env m (lamports s k)) s) k)"
proof -
  have "p \<noteq> k" using assms(3,4) by (auto simp: wallet_def)
  moreover have "unat (rent_of net m) \<le> unat (lamports s k) + unat (rent_top_up env m (lamports s k))"
    using assms(1) by (simp add: env_ok_def)
  ultimately show ?thesis using unat_move_to [OF assms(2) _ assms(5)] by simp
qed

text \<open>Paying from a wallet keeps the invariant.\<close>

lemma ledger_inv_pay:
  assumes "ledger_inv net s" "wallet net p" "a \<le> lamports s p"
  shows "ledger_inv net (move_lamports p k a s)"
  using assms
  by (intro ledger_inv_lamports [OF assms(1)])
    (simp_all add: funded_move ledger_inv_funded move_mono wallet_neq)

text \<open>Creating an account of the program: the payer is a wallet, the address is derived.\<close>

lemma ledger_inv_new_tournament:
  assumes inv: "ledger_inv net s" and env: "env_ok net env" and p: "wallet net p"
    and k: "find_program_address env (tournament_seeds tid) = (k, bump)" "accounts s k = None"
    and pay: "rent_top_up env BASE_SPACE (lamports s k) \<le> lamports s p" and c: "config_ok c"
  shows "ledger_inv net (store k (TournamentData (new_tournament tid c now bump) BASE_SPACE)
    (move_lamports p k (rent_top_up env BASE_SPACE (lamports s k)) s))"
proof (rule ledger_inv_store_new)
  let ?s = "move_lamports p k (rent_top_up env BASE_SPACE (lamports s k)) s"
  have d: "derive net (tournament_seeds tid) = (k, bump)" using k(1) env by (simp add: env_ok_def)
  then have addr: "k = address net (tournament_seeds tid)" by (simp add: address_def)
  show inv': "ledger_inv net ?s" by (rule ledger_inv_pay [OF inv p pay])
  have none: "entries_of (store k (TournamentData (new_tournament tid c now bump) BASE_SPACE) ?s) k = Map.empty"
    using no_orphans [OF inv, of k] k(2) by (auto simp: entries_of_def fun_eq_iff)
  have "unat (rent_of net BASE_SPACE) \<le> unat (lamports ?s k)"
    by (rule env_rent_top_up [OF env ledger_inv_funded [OF inv] p addr pay])
  then show "account_ok net (store k (TournamentData (new_tournament tid c now bump) BASE_SPACE) ?s) k
      (TournamentData (new_tournament tid c now bump) BASE_SPACE)"
    using c addr d none
    by (simp add: tournament_account_ok_def tournament_inv_new config_ok_def) (simp add: new_tournament_def)
qed (simp_all add: k(2))

lemma ledger_inv_initialize_config:
  assumes inv: "ledger_inv net s" and env: "env_ok net env" and ix: "initialize_config env ck tk admin params s = Inr s'"
  shows "ledger_inv net s'"
proof -
  obtain bump bump' c t s1 s2 where h: "is_signer env admin"
    "ck = fst (find_program_address env config_seeds)" "bump = snd (find_program_address env config_seeds)"
    "tk = fst (find_program_address env (tournament_seeds 0))" "bump' = snd (find_program_address env (tournament_seeds 0))"
    "c = initial_config admin params bump" "t = new_tournament 0 c (unix_timestamp env) bump'"
    "accounts s ck = None" "rent_top_up env CONFIG_LEN (lamports s ck) \<le> lamports s admin"
    "s1 = store ck (ConfigData c) (move_lamports admin ck (rent_top_up env CONFIG_LEN (lamports s ck)) s)"
    "accounts s1 tk = None" "rent_top_up env BASE_SPACE (lamports s1 tk) \<le> lamports s1 admin"
    "s2 = store tk (TournamentData t BASE_SPACE) (move_lamports admin tk (rent_top_up env BASE_SPACE (lamports s1 tk)) s1)"
    and p: "2 \<le> ip_min_participants params" "ip_min_participants params mod 2 = 0" "0 < ip_stake params"
    "0 < sint (ip_registration_duration params)" "0 < ip_matches_per_player params" "0 < sint (ip_reveal_duration params)"
    and s': "s' = s2"
    using ix by (rule initialize_configE)
  have w: "wallet net admin" using signer_wallet [OF env h(1)] by simp
  have c: "config_ok c" using p by (simp add: h(6) initial_config_def config_ok_def)
  have d: "derive net config_seeds = (ck, bump)" using env h(2,3) by (simp add: env_ok_def)
  then have addr: "ck = address net config_seeds" by (simp add: address_def)
  have "ledger_inv net s1"
    unfolding h(10)
  proof (rule ledger_inv_store_new)
    let ?s = "move_lamports admin ck (rent_top_up env CONFIG_LEN (lamports s ck)) s"
    show "ledger_inv net ?s" by (rule ledger_inv_pay [OF inv w h(9)])
    have "unat (rent_of net CONFIG_LEN) \<le> unat (lamports ?s ck)"
      by (rule env_rent_top_up [OF env ledger_inv_funded [OF inv] w addr h(9)])
    with c d addr show "account_ok net (store ck (ConfigData c) ?s) ck (ConfigData c)"
      by (simp add: config_account_ok_def) (simp add: h(6) initial_config_def)
  qed (simp_all add: h(8))
  then have "ledger_inv net s2"
    unfolding h(13) h(7) by (rule ledger_inv_new_tournament [OF _ env w _ h(11,12) c]) (simp add: h(4,5))
  then show ?thesis by (simp add: s')
qed

end
