(* ===== verification/Ledger_Inv_Player.thy ===== *)
theory Ledger_Inv_Player
  imports Ledger_Inv
begin

text \<open>The players' instructions keep the ledger invariant.\<close>

lemma tournament_inv_of:
  "ledger_inv net s \<Longrightarrow> accounts s tk = Some (TournamentData t n) \<Longrightarrow>
     tournament_inv (entry_key net tk) (rent_of net BASE_SPACE) t n (entries_of s tk) (lamports s tk)"
  using ledger_inv_tournament by (simp add: tournament_account_ok_def)

lemma ledger_inv_enter:
  assumes inv: "ledger_inv net s" and env: "env_ok net env"
    and ix: "enter_tournament env ck tk ek p commitment s = Inr s'"
  shows "ledger_inv net s'"
proof -
  obtain c t n bump s1 s2 s3 where "accounts s ck = Some (ConfigData c)" and h:
    "accounts s tk = Some (TournamentData t n)" "is_signer env p"
    "ek = fst (find_program_address env (entry_seeds tk p))" "bump = snd (find_program_address env (entry_seeds tk p))"
    "rent_top_up env (space_for_next_player t) (lamports s tk) \<le> lamports s p"
    "s1 = move_lamports p tk (rent_top_up env (space_for_next_player t) (lamports s tk)) s"
    "accounts s1 ek = None" "rent_top_up env ENTRY_LEN (lamports s1 ek) \<le> lamports s1 p"
    "s2 = store ek (EntryData (new_entry tk p (length (t_players t)) commitment (unix_timestamp env) bump))
            (move_lamports p ek (rent_top_up env ENTRY_LEN (lamports s1 ek)) s1)"
    "t_state t = Registration" "length (t_players t) < unat (c_max_participants c)"
    "t_stake t \<le> lamports s2 p" "s3 = move_lamports p tk (t_stake t) s2"
    "s' = store tk (TournamentData (register_player p t) (space_for_next_player t)) s3"
    using ix by (rule enter_tournamentE)
  let ?e = "new_entry tk p (length (t_players t)) commitment (unix_timestamp env) bump"
  have p: "wallet net p" "p \<noteq> default_pubkey" using signer_wallet [OF env h(2)] by simp_all
  have d: "derive net (entry_seeds tk p) = (ek, bump)" using env h(3,4) by (simp add: env_ok_def)
  then have ek: "ek = entry_key net tk p" by (simp add: entry_key_def address_def)
  have none: "accounts s ek = None" using h(7) by (simp add: h(6))
  have neq: "p \<noteq> tk" "p \<noteq> ek" "ek \<noteq> tk"
    using wallet_no_account [OF inv p(1)] h(1) none p(1) ek by (auto simp: wallet_def entry_key_def)
  have f0: "funded s" by (rule ledger_inv_funded [OF inv])
  have f1: "funded s1" unfolding h(6) by (rule funded_move [OF f0 h(5)])
  have f2: "funded s2" unfolding h(9) using funded_move [OF f1 h(8)] by simp
  have f3: "funded s'" unfolding h(13,14) using funded_move [OF f2 h(12)] by simp
  have mono: "lamports s k \<le> lamports s2 k" if "k \<noteq> p" for k
    using move_mono [OF f0 h(5) that, of tk] move_mono [OF f1 h(8) that, of ek] by (simp add: h(6,9))
  have bal: "unat (lamports s tk) + unat (t_stake t) \<le> unat (lamports s' tk)"
    using unat_move_to [OF f2 neq(1) h(12)] mono [of tk] neq by (simp add: h(13,14) word_le_nat_alt)
  have "unat (rent_of net ENTRY_LEN) \<le> unat (lamports s2 ek)"
    using env_rent_top_up [OF env f1 p(1) _ h(8), of "entry_seeds tk p"] ek by (simp add: h(9) entry_key_def)
  then have rent: "rent_of net ENTRY_LEN \<le> lamports s' ek"
    using neq by (simp add: h(13,14) move_other word_le_nat_alt)
  have len: "length (t_players t) < 65535" using h(11) unat_less_length [of "c_max_participants c"] by simp
  have "entries_of s tk ek = None" using none by (simp add: entries_of_def)
  then have tinv: "tournament_inv (entry_key net tk) (rent_of net BASE_SPACE) (register_player p t)
      (space_for_next_player t) ((entries_of s tk)(ek \<mapsto> ?e)) (lamports s' tk)"
    using tournament_inv_enter [OF tournament_inv_of [OF inv h(1)] h(10) p(2) _ len bal] ek by simp
  show ?thesis
  proof (rule ledger_inv_update [OF inv h(1), where K = "{ek}" and ents' = "(entries_of s tk)(ek \<mapsto> ?e)"])
    show "accounts s' k = (if k = tk then Some (TournamentData (register_player p t) (space_for_next_player t))
        else if k \<in> {ek} then map_option EntryData (((entries_of s tk)(ek \<mapsto> ?e)) k) else accounts s k)" for k
      using neq by (simp add: h(6,9,13,14))
    show "lamports s k \<le> lamports s' k" if "accounts s k \<noteq> None" "k \<noteq> tk" "k \<notin> {ek}" for k
    proof -
      have "k \<noteq> p" by (rule wallet_neq [OF inv p(1) that(1)])
      with mono [of k] that show ?thesis by (simp add: h(13,14) move_other)
    qed
    show "e_tournament e = tk \<and> k = entry_key net tk (e_player e) \<and>
        e_bump e = snd (derive net (entry_seeds tk (e_player e))) \<and> wallet net (e_player e) \<and>
        rent_of net ENTRY_LEN \<le> lamports s' k"
      if "k \<in> {ek}" "((entries_of s tk)(ek \<mapsto> ?e)) k = Some e" for k e
      using that ek d p(1) rent by (auto simp: new_entry_def)
  qed (use tinv f3 none neq in \<open>simp_all add: register_player_def\<close>)
qed

text \<open>Revealing and forfeiting change one entry in place.\<close>

lemma ledger_inv_set_entry:
  assumes inv: "ledger_inv net s"
    and t: "accounts s tk = Some (TournamentData t n)" "t_state t = Reveal"
    and e: "accounts s ek = Some (EntryData e)" "e_tournament e = tk" "\<not> e_revealed e"
    and e': "e_tournament e' = tk" "e_player e' = e_player e" "e_index e' = e_index e" "e_score e' = e_score e"
      "e_paid_out e' = e_paid_out e" "e_strategy e' = strategy" "e_revealed e'" "e_bump e' = e_bump e"
  shows "ledger_inv net (store tk (TournamentData (set_strategy (unat (e_index e)) strategy (t\<lparr>t_operator_costs := costs\<rparr>)) n)
    (store ek (EntryData e') s))"
proof (rule ledger_inv_update [OF inv t(1), where K = "{ek}" and ents' = "(entries_of s tk)(ek \<mapsto> e')"])
  have ent: "entries_of s tk ek = Some e" using e by (simp add: entries_of_iff)
  then show "accounts s k = None \<or> entries_of s tk k \<noteq> None" if "k \<in> {ek}" for k using that by simp
  show "tk \<notin> {ek}" using e t by auto
  then show "accounts (store tk (TournamentData (set_strategy (unat (e_index e)) strategy (t\<lparr>t_operator_costs := costs\<rparr>)) n)
      (store ek (EntryData e') s)) k =
    (if k = tk then Some (TournamentData (set_strategy (unat (e_index e)) strategy (t\<lparr>t_operator_costs := costs\<rparr>)) n)
     else if k \<in> {ek} then map_option EntryData (((entries_of s tk)(ek \<mapsto> e')) k) else accounts s k)" for k
    by simp
  show "tournament_inv (entry_key net tk) (rent_of net BASE_SPACE)
    (set_strategy (unat (e_index e)) strategy (t\<lparr>t_operator_costs := costs\<rparr>)) n ((entries_of s tk)(ek \<mapsto> e'))
    (lamports (store tk (TournamentData (set_strategy (unat (e_index e)) strategy (t\<lparr>t_operator_costs := costs\<rparr>)) n)
      (store ek (EntryData e') s)) tk)"
    using tournament_inv_reveal [OF tournament_inv_of [OF inv t(1)] t(2) ent e(3) refl e'(2-7)] by simp
  show "e_tournament d = tk \<and> k = entry_key net tk (e_player d) \<and>
        e_bump d = snd (derive net (entry_seeds tk (e_player d))) \<and> wallet net (e_player d) \<and>
        rent_of net ENTRY_LEN \<le> lamports (store tk (TournamentData
          (set_strategy (unat (e_index e)) strategy (t\<lparr>t_operator_costs := costs\<rparr>)) n) (store ek (EntryData e') s)) k"
    if "k \<in> {ek}" "((entries_of s tk)(ek \<mapsto> e')) k = Some d" for k d
    using that e' ledger_inv_entry [OF inv e(1)] e(2) by (auto simp: entry_account_ok_def)
qed (use ledger_inv_funded [OF inv] in \<open>simp_all add: set_strategy_def\<close>)

lemma check_commitment_frame:
  assumes "check_commitment env strategy salt code e = Inr e'"
  shows "e_tournament e' = e_tournament e" "e_player e' = e_player e" "e_index e' = e_index e"
    "e_score e' = e_score e" "e_paid_out e' = e_paid_out e" "e_bump e' = e_bump e"
  using assms by (auto simp: check_commitment_def handler_iffs split: if_splits)

lemma ledger_inv_reveal:
  assumes inv: "ledger_inv net s" and ix: "reveal_strategy env ek tk p strategy salt code s = Inr s'"
  shows "ledger_inv net s'"
proof -
  obtain e t n e' where h: "accounts s ek = Some (EntryData e)" "accounts s tk = Some (TournamentData t n)"
    "e_tournament e = tk" "t_state t = Reveal" "\<not> e_revealed e"
    "check_commitment env strategy salt code e = Inr e'"
    "s' = store tk (TournamentData (set_strategy (unat (e_index e')) strategy t) n)
            (store ek (EntryData (e'\<lparr>e_strategy := strategy, e_revealed := True\<rparr>)) s)"
    using ix by (rule reveal_strategyE)
  note fr = check_commitment_frame [OF h(6)]
  show ?thesis
    using ledger_inv_set_entry [OF inv h(2,4,1,3,5), where e' = "e'\<lparr>e_strategy := strategy, e_revealed := True\<rparr>"
        and costs = "t_operator_costs t" and strategy = strategy] fr h(3)
    by (simp add: h(7))
qed

text \<open>Paying out of a tournament account to a wallet while an entry of it is closed.\<close>

lemma ledger_inv_close:
  assumes inv: "ledger_inv net s" and t: "accounts s tk = Some (TournamentData t n)"
    and e: "accounts s ek = Some (EntryData e)" "e_tournament e = tk"
    and id: "t_id t' = t_id t" "t_bump t' = t_bump t"
    and s1: "accounts s1 = accounts s" "funded s1"
      "\<And>k. accounts s k \<noteq> None \<Longrightarrow> k \<noteq> tk \<Longrightarrow> lamports s k \<le> lamports s1 k"
    and p: "wallet net p"
    and tinv: "tournament_inv (entry_key net tk) (rent_of net BASE_SPACE) t' n ((entries_of s tk)(ek := None)) (lamports s1 tk)"
  shows "ledger_inv net (close_account ek p (store tk (TournamentData t' n) s1))"
proof (rule ledger_inv_update [OF inv t, where K = "{ek}" and ents' = "(entries_of s tk)(ek := None)"])
  let ?s = "close_account ek p (store tk (TournamentData t' n) s1)"
  have ent: "entries_of s tk ek = Some e" using e by (simp add: entries_of_iff)
  show neq: "tk \<notin> {ek}" using e t by auto
  have ps: "tk \<noteq> p" "ek \<noteq> p" using wallet_neq [OF inv p, of tk] wallet_neq [OF inv p, of ek] t e by simp_all
  show "accounts s k = None \<or> entries_of s tk k \<noteq> None" if "k \<in> {ek}" for k using that ent by simp
  show "accounts ?s k = (if k = tk then Some (TournamentData t' n)
      else if k \<in> {ek} then map_option EntryData (((entries_of s tk)(ek := None)) k) else accounts s k)" for k
    using neq s1(1) by simp
  show "funded ?s" using s1(2) by (simp add: close_account_def funded_move)
  show "tournament_inv (entry_key net tk) (rent_of net BASE_SPACE) t' n ((entries_of s tk)(ek := None)) (lamports ?s tk)"
    using tinv neq ps by (simp add: move_other)
  show "lamports s k \<le> lamports ?s k" if "accounts s k \<noteq> None" "k \<noteq> tk" "k \<notin> {ek}" for k
  proof -
    have "k \<noteq> p" by (rule wallet_neq [OF inv p that(1)])
    with s1(3) [OF that(1,2)] that(3) show ?thesis by (simp add: move_other)
  qed
  show "e_tournament d = tk \<and> k = entry_key net tk (e_player d) \<and>
        e_bump d = snd (derive net (entry_seeds tk (e_player d))) \<and> wallet net (e_player d) \<and>
        rent_of net ENTRY_LEN \<le> lamports ?s k"
    if "k \<in> {ek}" "((entries_of s tk)(ek := None)) k = Some d" for k d
    using that by simp
qed (use id in simp_all)

lemma move_from_tournament:
  assumes inv: "ledger_inv net s" and t: "accounts s tk = Some (TournamentData t n)" and p: "wallet net p"
    and a: "a \<le> lamports s tk"
  shows "accounts (move_lamports tk p a s) = accounts s" "funded (move_lamports tk p a s)"
    "\<And>k. accounts s k \<noteq> None \<Longrightarrow> k \<noteq> tk \<Longrightarrow> lamports s k \<le> lamports (move_lamports tk p a s) k"
    "unat (lamports (move_lamports tk p a s) tk) = unat (lamports s tk) - unat a"
proof -
  have f: "funded s" by (rule ledger_inv_funded [OF inv])
  have "tk \<noteq> p" using wallet_neq [OF inv p, of tk] t by simp
  then show "unat (lamports (move_lamports tk p a s) tk) = unat (lamports s tk) - unat a"
    using a by (rule unat_move_from)
  show "funded (move_lamports tk p a s)" using f a by (rule funded_move)
  show "lamports s k \<le> lamports (move_lamports tk p a s) k" if "accounts s k \<noteq> None" "k \<noteq> tk" for k
    using f a that(2) by (rule move_mono)
qed simp

lemma phase_ok_refund:
  assumes "phase_ok t ents" "t_state t = Registration"
  shows "phase_ok (refund_slot i t) (ents(ek := None))"
  using assms by (auto simp: phase_ok_def refund_slot_def clear_slot_def revealed_keys_def)

lemma ledger_inv_refund:
  assumes inv: "ledger_inv net s" and env: "env_ok net env" and ix: "claim_refund env tk ek p s = Inr s'"
  shows "ledger_inv net s'"
proof -
  obtain e t n where h: "accounts s tk = Some (TournamentData t n)" "accounts s ek = Some (EntryData e)"
    "is_signer env p" "e_tournament e = tk" "t_state t = Registration"
    "s' = close_account ek p (store tk (TournamentData (refund_slot (unat (e_index e)) t) n)
            (move_lamports tk p (t_stake t) s))"
    using ix by (auto elim!: claim_refundE simp: refund_slot_def clear_slot_def)
  have p: "wallet net p" using signer_wallet [OF env h(3)] by simp
  note tinv = tournament_inv_of [OF inv h(1)]
  have ent: "entries_of s tk ek = Some e" using h by (simp add: entries_of_iff)
  have np: "t_state t \<noteq> Payout" using h(5) by simp
  have a: "t_stake t \<le> lamports s tk" using stake_le_pool(2) [OF tinv np ent] by (simp add: word_le_nat_alt)
  note mv = move_from_tournament [OF inv h(1) p a]
  have "tournament_inv (entry_key net tk) (rent_of net BASE_SPACE) (refund_slot (unat (e_index e)) t) n
      ((entries_of s tk)(ek := None)) (lamports (move_lamports tk p (t_stake t) s) tk)"
  proof (rule tournament_inv_refund [OF tinv np ent refl])
    show "phase_ok (refund_slot (unat (e_index e)) t) ((entries_of s tk)(ek := None))"
      using tinv h(5) by (intro phase_ok_refund) (simp_all add: tournament_inv_def)
    show "refund_slot (unat (e_index e)) t = (refund_slot (unat (e_index e)) t)\<lparr>t_reveals_completed := t_reveals_completed t\<rparr>"
      by (simp add: refund_slot_def clear_slot_def)
  qed (use mv(4) in simp)
  then show ?thesis
    unfolding h(6) using ledger_inv_close [OF inv h(1,2,4) _ _ mv(1-3) p]
    by (simp add: refund_slot_def clear_slot_def)
qed

lemma ledger_inv_payout:
  assumes inv: "ledger_inv net s" and env: "env_ok net env" and ix: "claim_payout env tk ek p s = Inr s'"
  shows "ledger_inv net s'"
proof -
  obtain e t n payout t' where h: "accounts s tk = Some (TournamentData t n)" "accounts s ek = Some (EntryData e)"
    "is_signer env p" "e_tournament e = tk" "t_state t = Payout" "t_min_winning_score t \<le> e_score e"
    "payout = t_winner_pool t div ucast (t_winner_count t)"
    "t' = t\<lparr>t_claims_processed := t_claims_processed t + 1, t_entries_remaining := t_entries_remaining t - 1\<rparr>"
    "s' = close_account ek p (store tk (TournamentData t' n)
            (store ek (EntryData (e\<lparr>e_paid_out := True\<rparr>)) (move_lamports tk p payout s)))"
    using ix by (rule claim_payoutE)
  have p: "wallet net p" using signer_wallet [OF env h(3)] by simp
  note tinv = tournament_inv_of [OF inv h(1)]
  have ent: "entries_of s tk ek = Some e" using h by (simp add: entries_of_iff)
  have share: "payout = prize_share t" by (simp add: h(7) prize_share_def)
  have a: "payout \<le> lamports s tk"
    using prize_available [OF tinv h(5) ent h(6)] by (simp add: word_le_nat_alt share)
  note mv = move_from_tournament [OF inv h(1) p a]
  have "tournament_inv (entry_key net tk) (rent_of net BASE_SPACE) t' n
      ((entries_of s tk)(ek := None)) (lamports (move_lamports tk p payout s) tk)"
    using mv(4) a h(6) by (intro tournament_inv_close_entry [OF tinv h(5) ent _ h(8)]) (simp add: share word_le_nat_alt)
  then have "ledger_inv net (close_account ek p (store tk (TournamentData t' n) (move_lamports tk p payout s)))"
    using ledger_inv_close [OF inv h(1,2,4) _ _ mv(1-3) p] by (simp add: h(8))
  moreover have "s' = close_account ek p (store tk (TournamentData t' n) (move_lamports tk p payout s))"
    by (simp add: h(9) close_account_def remove_account_def store_def move_lamports_def debit_def credit_def fun_eq_iff)
  ultimately show ?thesis by simp
qed

end
