(* ===== verification/Ledger_Inv_Operator.thy ===== *)
theory Ledger_Inv_Operator
  imports Ledger_Inv_Player
begin

text \<open>The operator's instructions keep the ledger invariant.\<close>

section \<open>Changes of the tournament account alone\<close>

lemma ledger_inv_store_tournament:
  assumes inv: "ledger_inv net s" and t: "accounts s tk = Some (TournamentData t n)"
    and id: "t_id t' = t_id t" "t_bump t' = t_bump t"
    and tinv: "tournament_inv (entry_key net tk) (rent_of net BASE_SPACE) t' n (entries_of s tk) (lamports s tk)"
  shows "ledger_inv net (store tk (TournamentData t' n) s)"
  by (rule ledger_inv_update [OF inv t, where K = "{}" and ents' = "entries_of s tk"])
    (use id tinv ledger_inv_funded [OF inv] in simp_all)

lemma ledger_inv_close_registration:
  assumes inv: "ledger_inv net s" and ix: "close_registration env ck tk op s = Inr s'"
  shows "ledger_inv net s'"
proof -
  obtain c t n costs where "accounts s ck = Some (ConfigData c)"
    and h: "accounts s tk = Some (TournamentData t n)" "t_state t = Registration"
    "s' = store tk (TournamentData (t\<lparr>t_operator_costs := costs, t_state := Reveal,
            t_reveal_ends := unix_timestamp env + t_reveal_duration t\<rparr>) n) s"
    using ix by (rule close_registrationE)
  show ?thesis
    unfolding h(3)
    by (rule ledger_inv_store_tournament [OF inv h(1)])
      (simp_all add: tournament_inv_close_registration [OF tournament_inv_of [OF inv h(1)] h(2)])
qed

lemma ledger_inv_forfeit:
  assumes inv: "ledger_inv net s" and ix: "forfeit_unrevealed env ck ek tk op s = Inr s'"
  shows "ledger_inv net s'"
proof -
  obtain c e t n costs strategy where "accounts s ck = Some (ConfigData c)"
    and h: "accounts s ek = Some (EntryData e)" "accounts s tk = Some (TournamentData t n)"
    "e_tournament e = tk" "t_state t = Reveal" "\<not> e_revealed e"
    "s' = store tk (TournamentData (set_strategy (unat (e_index e)) strategy (t\<lparr>t_operator_costs := costs\<rparr>)) n)
            (store ek (EntryData (e\<lparr>e_strategy := strategy, e_revealed := True\<rparr>)) s)"
    using ix by (rule forfeit_unrevealedE)
  show ?thesis
    unfolding h(6) by (rule ledger_inv_set_entry [OF inv h(2,4,1,3,5)]) (simp_all add: h(3))
qed

section \<open>Closing the reveal phase\<close>

lemma rposition_Some:
  assumes "rposition P xs = Some i"
  shows "i < length xs" "P (xs ! i)"
proof -
  have "filter (\<lambda>j. P (xs ! j)) [0..<length xs] \<noteq> []" "i = last (filter (\<lambda>j. P (xs ! j)) [0..<length xs])"
    using assms by (auto simp: rposition_def split: list.splits)
  then have "i \<in> set (filter (\<lambda>j. P (xs ! j)) [0..<length xs])" using last_in_set by blast
  then show "i < length xs" "P (xs ! i)" by simp_all
qed

text \<open>The open entry of an occupied slot is at the derived address.\<close>

lemma entry_of_slot:
  assumes tinv: "tournament_inv (entry_key net tk) rent t n (entries_of s tk) bal" and st: "t_state t \<noteq> Payout"
    and i: "i < length (t_players t)" "t_players t ! i \<noteq> default_pubkey"
  obtains e where "accounts s (entry_key net tk (t_players t ! i)) = Some (EntryData e)" "e_tournament e = tk"
    "unat (e_index e) = i" "e_player e = t_players t ! i"
proof -
  obtain ek e where e: "entries_of s tk ek = Some e" "unat (e_index e) = i"
    using inv_before_payout(5) [OF tinv st] i by (auto simp: slots_filled_def)
  with tournament_inv_entry [OF tinv e(1)] have "ek = entry_key net tk (t_players t ! i)" "e_player e = t_players t ! i"
    by (auto simp: entry_ok_def)
  with e that show ?thesis by (simp add: entries_of_iff)
qed

lemma tournament_inv_costs:
  assumes "tournament_inv key rent t n ents bal" "t_state t \<noteq> Payout"
  shows "tournament_inv key rent (t\<lparr>t_operator_costs := costs\<rparr>) n ents bal"
  using assms
  by (intro tournament_inv_bookkeeping [OF assms(1)])
    (simp_all add: tournament_inv_def phase_ok_def split: TournamentState.splits)

lemma store_store [simp]: "store k d (store k d' s) = store k d s"
  by (simp add: store_def)

lemma tournament_inv_refund_reveal:
  assumes tinv: "tournament_inv key rent t n ents bal" and st: "t_state t = Reveal"
    and all: "t_reveals_completed t = t_participant_count t" and e: "ents ek = Some e"
    and bal: "unat bal - unat (t_stake t) \<le> unat bal'"
    and t': "t' = (refund_slot (unat (e_index e)) t)\<lparr>t_reveals_completed := t_reveals_completed t - 1\<rparr>"
  shows "tournament_inv key rent t' n (ents(ek := None)) bal'" "revealed_keys (ents(ek := None)) = dom (ents(ek := None))"
proof -
  have np: "t_state t \<noteq> Payout" using st by simp
  note rk = all_entries_revealed [OF tinv st all]
  moreover have "revealed_keys (ents(ek := None)) = revealed_keys ents - {ek}"
    by (auto simp: revealed_keys_def)
  ultimately show rk': "revealed_keys (ents(ek := None)) = dom (ents(ek := None))" by simp
  have "unat (t_reveals_completed t) = card (dom ents)" using inv_before_payout(1) [OF tinv np] all by simp
  then have "unat (t_reveals_completed t - 1) = card (dom (ents(ek := None)))"
    using card_dom_pos [of ents, OF e] card_dom_delete [of ents, OF e] by (simp add: unat_sub_1)
  then have "phase_ok t' (ents(ek := None))"
    unfolding phase_ok_def rk' using st tinv by (simp add: t' refund_slot_def clear_slot_def tournament_inv_def phase_ok_def)
  then show "tournament_inv key rent t' n (ents(ek := None)) bal'"
    by (rule tournament_inv_refund [OF tinv np e refl bal _ t'])
qed

text \<open>Starting the matches, on a ledger where the tournament account already holds \<open>t\<close>.\<close>

lemma ledger_inv_start:
  assumes inv: "ledger_inv net s" and t: "accounts s tk = Some (TournamentData t n)" "t_state t = Reveal"
    and all: "revealed_keys (entries_of s tk) = dom (entries_of s tk)"
  shows "t_participant_count t = 0 \<Longrightarrow> ledger_inv net (store tk (TournamentData (start_empty t) n) s)"
    "ledger_inv net (store tk (TournamentData (start_running h t) n) s)"
proof -
  note ti = tournament_inv_of [OF inv t(1)]
  show "ledger_inv net (store tk (TournamentData (start_empty t) n) s)" if "t_participant_count t = 0"
    using ledger_inv_store_tournament [OF inv t(1) _ _ tournament_inv_start_empty [OF ti t(2) all that]]
    by (simp add: start_empty_def)
  show "ledger_inv net (store tk (TournamentData (start_running h t) n) s)"
    using ledger_inv_store_tournament [OF inv t(1) _ _ tournament_inv_start_running [OF ti t(2) all]]
    by (simp add: start_running_def Let_def)
qed

text \<open>The refund of the odd player, with the entry that belongs to the slot.\<close>

lemma ledger_inv_refund_odd:
  assumes inv: "ledger_inv net s" and t0: "accounts s tk = Some (TournamentData t0 n)" "t_id t = t_id t0" "t_bump t = t_bump t0"
    and tinv: "tournament_inv (entry_key net tk) (rent_of net BASE_SPACE) t n (entries_of s tk) (lamports s tk)"
    and st: "t_state t = Reveal" and all: "t_reveals_completed t = t_participant_count t"
    and odd: "refund_odd tk (Some (entry_key net tk p)) (Some p) t s = Inr (t2, s2)"
  shows "ledger_inv net (store tk (TournamentData t2 n) s2)" "t_state t2 = Reveal"
    "revealed_keys (entries_of (store tk (TournamentData t2 n) s2) tk) = dom (entries_of (store tk (TournamentData t2 n) s2) tk)"
proof -
  define ek where "ek = entry_key net tk p"
  obtain i where o: "rposition (\<lambda>pk. pk \<noteq> default_pubkey) (t_players t) = Some i" "p = t_players t ! i"
    "t2 = (refund_slot i t)\<lparr>t_reveals_completed := t_reveals_completed t - 1\<rparr>"
    "s2 = close_account ek p (move_lamports tk p (t_stake t) s)"
    using odd by (auto elim!: refund_oddE simp: refund_slot_def clear_slot_def ek_def)
  note pos = rposition_Some [OF o(1)]
  obtain e where e: "accounts s ek = Some (EntryData e)" "e_tournament e = tk" "unat (e_index e) = i" "e_player e = p"
    using entry_of_slot [OF tinv, of i] pos st by (auto simp: ek_def o(2))
  have ent: "entries_of s tk ek = Some e" using e by (simp add: entries_of_iff)
  have w: "wallet net p" using ledger_inv_entry [OF inv e(1)] e(4) by (simp add: entry_account_ok_def)
  have a: "t_stake t \<le> lamports s tk"
    using stake_le_pool(2) [OF tinv _ ent] st by (simp add: word_le_nat_alt)
  note mv = move_from_tournament [OF inv t0(1) w a]
  have bal: "unat (lamports s tk) - unat (t_stake t) \<le> unat (lamports (move_lamports tk p (t_stake t) s) tk)"
    using mv(4) by simp
  have t2: "t2 = (refund_slot (unat (e_index e)) t)\<lparr>t_reveals_completed := t_reveals_completed t - 1\<rparr>"
    by (simp add: o(3) e(3))
  note ti2 = tournament_inv_refund_reveal [OF tinv st all ent bal t2]
  have neq: "tk \<noteq> ek" using e(1) t0(1) by auto
  have eq: "close_account ek p (store tk (TournamentData t2 n) (move_lamports tk p (t_stake t) s)) = store tk (TournamentData t2 n) s2"
    using neq by (simp add: o(4) close_account_def remove_account_def store_def move_lamports_def debit_def credit_def fun_upd_twist)
  show "ledger_inv net (store tk (TournamentData t2 n) s2)"
    using ledger_inv_close [OF inv t0(1) e(1,2) _ _ mv(1-3) w ti2(1)] eq by (simp add: o(3) refund_slot_def clear_slot_def t0)
  show "t_state t2 = Reveal" using st by (simp add: o(3) refund_slot_def clear_slot_def)
  have "entries_of (store tk (TournamentData t2 n) s2) tk = (entries_of s tk)(ek := None)"
    using neq by (auto simp: entries_of_def o(4) t0(1) fun_eq_iff)
  with ti2(2) show "revealed_keys (entries_of (store tk (TournamentData t2 n) s2) tk) =
      dom (entries_of (store tk (TournamentData t2 n) s2) tk)" by simp
qed

lemma ledger_inv_close_reveal:
  assumes inv: "ledger_inv net s" and honest: "honest net (CloseReveal ck tk re rp op)"
    and ix: "close_reveal env ck tk re rp op s = Inr s'"
  shows "ledger_inv net s'"
proof -
  obtain c t n costs t1 where "accounts s ck = Some (ConfigData c)"
    and h: "accounts s tk = Some (TournamentData t n)" "t_state t = Reveal"
    "t1 = t\<lparr>t_operator_costs := costs\<rparr>" "t_reveals_completed t1 = t_participant_count t1"
    and res: "(if t_participant_count t1 = 0
      then Inr (store tk (TournamentData (start_empty t1) n) s)
      else and_then (if t_participant_count t1 mod 2 = 1 then refund_odd tk re rp t1 s else Inr (t1, s)) (\<lambda>(t, s).
        if t_participant_count t = 0 then Inr (store tk (TournamentData (start_empty t) n) s)
        else check (48 \<le> length (slot_hashes env)) (Arena SlotHashUnavailable)
          (Inr (store tk (TournamentData (start_running (take 32 (drop 16 (slot_hashes env))) t) n) s)))) = Inr s'"
    using ix by (rule close_revealE)
  have st1: "t_state t1 = Reveal" by (simp add: h(2,3))
  define s1 where "s1 = store tk (TournamentData t1 n) s"
  have tinv: "tournament_inv (entry_key net tk) (rent_of net BASE_SPACE) t1 n (entries_of s tk) (lamports s tk)"
    using tournament_inv_costs [OF tournament_inv_of [OF inv h(1)]] h(2) by (simp add: h(3))
  have inv1: "ledger_inv net s1" "accounts s1 tk = Some (TournamentData t1 n)"
    using ledger_inv_store_tournament [OF inv h(1) _ _ tinv] by (simp_all add: s1_def h(3))
  have all1: "revealed_keys (entries_of s1 tk) = dom (entries_of s1 tk)"
    using all_entries_revealed [OF tinv st1 h(4)] h(1)
    by (subst (1 2) entries_of_cong [of tk s1 s]) (auto simp: s1_def)
  show ?thesis
  proof (cases "t_participant_count t1 mod 2 = 1 \<and> t_participant_count t1 \<noteq> 0")
    case False
    with res ledger_inv_start [OF inv1 st1 all1] show ?thesis
      by (auto simp: check_Inr_iff s1_def split: if_splits)
  next
    case True
    then obtain t2 s2 where odd: "refund_odd tk re rp t1 s = Inr (t2, s2)"
      and s': "t_participant_count t2 = 0 \<and> s' = store tk (TournamentData (start_empty t2) n) s2 \<or>
        s' = store tk (TournamentData (start_running (take 32 (drop 16 (slot_hashes env))) t2) n) s2"
      using res by (auto simp: and_then_Inr_iff check_Inr_iff split: if_splits)
    obtain p where p: "re = Some (entry_key net tk p)" "rp = Some p"
      using odd honest by (auto elim!: refund_oddE simp: honest_def)
    note r = ledger_inv_refund_odd [OF inv h(1) _ _ tinv st1 h(4) odd [unfolded p]]
    with ledger_inv_start [OF r(1) _ r(2,3)] s' show ?thesis by (auto simp: h(3))
  qed
qed

end
