(* ===== verification/Ledger_Inv_Payout.thy ===== *)
theory Ledger_Inv_Payout
  imports Ledger_Inv_Operator
begin

text \<open>
  Running the matches, finalizing, and closing entries and tournaments keep the ledger invariant;
  with this every instruction does, and every reachable ledger satisfies it.
\<close>

section \<open>Matches\<close>

lemma find_entry_account_Inr:
  "find_entry_account env accs tk p = Inr k \<Longrightarrow> k = fst (find_program_address env (entry_seeds tk p))"
  by (auto simp: find_entry_account_def Let_def case_prod_beta ok_or_Inr_iff find_Some_iff)

lemma find_entry_account_mem: "find_entry_account env accs tk p = Inr k \<Longrightarrow> k \<in> set accs"
  by (auto simp: find_entry_account_def Let_def case_prod_beta ok_or_Inr_iff find_Some_iff in_set_conv_nth)

lemma deserialize_entry_Inr_iff: "deserialize_entry s k = Inr e \<longleftrightarrow> accounts s k = Some (EntryData e)"
  by (auto simp: deserialize_entry_def split: option.splits AccountData.splits)

lemma add_result_Inr_iff:
  "add_result x e = Inr e' \<longleftrightarrow> (\<exists>v. checked_add (e_score e) x = Some v \<and>
     e' = e\<lparr>e_score := v, e_matches_played := e_matches_played e + 1\<rparr>)"
  by (auto simp: add_result_def and_then_Inr_iff ok_or_Inr_iff)

lemma add_score_Inr_iff:
  "add_score i x xs = Inr ys \<longleftrightarrow> i < length xs \<and> (\<exists>v. checked_add (xs ! i) x = Some v \<and> ys = xs[i := v])"
  by (auto simp: add_score_def check_Inr_iff and_then_Inr_iff ok_or_Inr_iff)

lemma run_one_matchE:
  assumes "run_one_match env accs tk i (t, s) = Inr (t', s')"
  obtains (skip) "t' = t\<lparr>t_matches_completed := t_matches_completed t + 1\<rparr>" "s' = s"
  | (play) ia ib ka kb ea eb sa sb r ea' eb' sc sc' where
    "get_pairing_for_match (t_participant_count t) (t_matches_per_player t) (t_randomness_seed t) i = Some (Some (ia, ib))"
    "unat ia < length (t_players t)" "unat ib < length (t_players t)"
    "t_players t ! unat ia \<noteq> default_pubkey" "t_players t ! unat ib \<noteq> default_pubkey"
    "ka = fst (find_program_address env (entry_seeds tk (t_players t ! unat ia)))"
    "kb = fst (find_program_address env (entry_seeds tk (t_players t ! unat ib)))"
    "accounts s ka = Some (EntryData ea)" "accounts s kb = Some (EntryData eb)" "e_index ea = ia" "e_index eb = ib"
    "entry_strategy ea = Inr sa" "entry_strategy eb = Inr sb"
    "r = run_match sa sb (t_randomness_seed t) i (t_participant_count t)"
    "add_result (total_score_a r) ea = Inr ea'" "add_result (total_score_b r) eb = Inr eb'"
    "add_score (unat ia) (total_score_a r) (t_scores t) = Inr sc" "add_score (unat ib) (total_score_b r) sc = Inr sc'"
    "t' = t\<lparr>t_scores := sc', t_matches_completed := t_matches_completed t + 1\<rparr>"
    "s' = store kb (EntryData eb') (store ka (EntryData ea') s)"
    "ka \<in> set accs" "kb \<in> set accs"
proof -
  obtain ia ib where g: "get_pairing_for_match (t_participant_count t) (t_matches_per_player t) (t_randomness_seed t) i = Some (Some (ia, ib))"
    "unat ia < length (t_players t)" "unat ib < length (t_players t)"
    using assms by (auto simp: run_one_match_def and_then_Inr_iff ok_or_Inr_iff check_Inr_iff)
  show ?thesis
  proof (cases "t_players t ! unat ia = default_pubkey \<or> t_players t ! unat ib = default_pubkey")
    case True
    with assms g show ?thesis by (intro skip) (auto simp: run_one_match_def)
  next
    case False
    with assms g obtain ka kb ea eb sa sb r ea' eb' sc sc' where
      f: "find_entry_account env accs tk (t_players t ! unat ia) = Inr ka"
      "find_entry_account env accs tk (t_players t ! unat ib) = Inr kb"
      "deserialize_entry s ka = Inr ea" "deserialize_entry s kb = Inr eb"
      and p: "e_index ea = ia" "e_index eb = ib" "entry_strategy ea = Inr sa" "entry_strategy eb = Inr sb"
      "r = run_match sa sb (t_randomness_seed t) i (t_participant_count t)"
      "add_result (total_score_a r) ea = Inr ea'" "add_result (total_score_b r) eb = Inr eb'"
      "add_score (unat ia) (total_score_a r) (t_scores t) = Inr sc" "add_score (unat ib) (total_score_b r) sc = Inr sc'"
      "t' = t\<lparr>t_scores := sc', t_matches_completed := t_matches_completed t + 1\<rparr>"
      "s' = store kb (EntryData eb') (store ka (EntryData ea') s)"
      by (auto simp: run_one_match_def Let_def and_then_Inr_iff check_Inr_iff)
    show ?thesis
      by (rule play [OF g _ _ find_entry_account_Inr [OF f(1)] find_entry_account_Inr [OF f(2)] _ _ p
          find_entry_account_mem [OF f(1)] find_entry_account_mem [OF f(2)]])
        (use False f(3,4) in \<open>simp_all add: deserialize_entry_Inr_iff\<close>)
  qed
qed

text \<open>
  One iteration, on the ledger that would be stored: the tournament account is written back only
  after the whole batch, but no iteration reads it.
\<close>

lemma ledger_inv_run_one_match:
  assumes env: "env_ok net env" and inv: "ledger_inv net (store tk (TournamentData t n) s)"
    and st: "t_state t = Running" "t_matches_completed t < t_matches_total t"
    and run: "run_one_match env accs tk i (t, s) = Inr (t', s')"
  shows "ledger_inv net (store tk (TournamentData t' n) s')"
    "t_state t' = Running" "t_matches_total t' = t_matches_total t" "t_matches_completed t' = t_matches_completed t + 1"
proof -
  let ?s = "store tk (TournamentData t n) s"
  have t: "accounts ?s tk = Some (TournamentData t n)" by simp
  note tinv = tournament_inv_of [OF inv t]
  have np: "t_state t \<noteq> Payout" using st by simp
  show "ledger_inv net (store tk (TournamentData t' n) s')"
    using run
  proof (cases rule: run_one_matchE)
    case skip
    then show ?thesis
      using ledger_inv_store_tournament [OF inv t _ _ tournament_inv_skip_match [OF tinv st]] by simp
  next
    case (play ia ib ka kb ea eb sa sb r ea' eb' sc sc')
    have key: "find_program_address env seeds = derive net seeds" for seeds using env by (simp add: env_ok_def)
    have k: "ka = entry_key net tk (t_players t ! unat ia)" "kb = entry_key net tk (t_players t ! unat ib)"
      using play(6,7) by (simp_all add: key entry_key_def address_def)
    obtain da where da: "accounts ?s ka = Some (EntryData da)" "e_tournament da = tk" "unat (e_index da) = unat ia"
      using entry_of_slot [OF tinv np play(2,4)] k(1) by auto
    obtain db where db: "accounts ?s kb = Some (EntryData db)" "e_tournament db = tk" "unat (e_index db) = unat ib"
      using entry_of_slot [OF tinv np play(3,5)] k(2) by auto
    have neq: "ka \<noteq> tk" "kb \<noteq> tk" using da(1) db(1) by auto
    then have eq: "da = ea" "db = eb" using da(1) db(1) play(8,9) by simp_all
    have ents: "entries_of ?s tk ka = Some ea" "entries_of ?s tk kb = Some eb"
      using da db eq by (simp_all add: entries_of_iff del: accounts_store)
    have sync: "t_scores t ! unat ia = e_score ea" "t_scores t ! unat ib = e_score eb"
      using tournament_inv_entry [OF tinv ents(1)] tournament_inv_entry [OF tinv ents(2)] play(10,11)
      by (simp_all add: entry_ok_def)
    have small: "unat (t_participant_count t) \<le> 65535"
      using inv_before_payout(1) [OF tinv np] card_entries_le_slots [OF tinv] tinv
      by (simp add: tournament_inv_def vectors_ok_def)
    have deg: "degree_ok (t_participant_count t) (t_matches_per_player t)"
      using tinv st by (simp add: tournament_inv_def phase_ok_def)
    have ab: "ia < ib" by (rule pairing_distinct(1) [OF play(1) deg small])
    then have idx: "e_index ea \<noteq> e_index eb" "unat ia \<noteq> unat ib"
      using play(10,11) by (auto simp: word_less_nat_alt)
    obtain va vb where v: "checked_add (e_score ea) (total_score_a r) = Some va" "checked_add (e_score eb) (total_score_b r) = Some vb"
      and e': "ea' = ea\<lparr>e_score := va, e_matches_played := e_matches_played ea + 1\<rparr>"
        "eb' = eb\<lparr>e_score := vb, e_matches_played := e_matches_played eb + 1\<rparr>"
      using play(15,16) by (auto simp: add_result_Inr_iff)
    have sc': "sc' = (t_scores t)[unat (e_index ea) := va, unat (e_index eb) := vb]"
      using play(10,11,17,18) v sync idx(2) by (auto simp: add_score_Inr_iff)
    note tinv' = tournament_inv_match [OF tinv st ents idx(1) e']
    show ?thesis
    proof (rule ledger_inv_update [OF inv t, where K = "{ka, kb}" and ents' = "(entries_of ?s tk)(ka \<mapsto> ea', kb \<mapsto> eb')"])
      show "tournament_inv (entry_key net tk) (rent_of net BASE_SPACE) t' n ((entries_of ?s tk)(ka \<mapsto> ea', kb \<mapsto> eb'))
          (lamports (store tk (TournamentData t' n) s') tk)"
        using tinv' by (simp add: play(19,20) sc')
      show "accounts (store tk (TournamentData t' n) s') k = (if k = tk then Some (TournamentData t' n)
          else if k \<in> {ka, kb} then map_option EntryData (((entries_of ?s tk)(ka \<mapsto> ea', kb \<mapsto> eb')) k)
          else accounts ?s k)" for k
        using neq by (auto simp: play(20))
      show "e_tournament d = tk \<and> k = entry_key net tk (e_player d) \<and>
          e_bump d = snd (derive net (entry_seeds tk (e_player d))) \<and> wallet net (e_player d) \<and>
          rent_of net ENTRY_LEN \<le> lamports (store tk (TournamentData t' n) s') k"
        if "k \<in> {ka, kb}" "((entries_of ?s tk)(ka \<mapsto> ea', kb \<mapsto> eb')) k = Some d" for k d
        using that ledger_inv_entry [OF inv da(1)] ledger_inv_entry [OF inv db(1)] da(2) db(2) eq e'
        by (auto simp: entry_account_ok_def play(20) split: if_splits)
      show "funded (store tk (TournamentData t' n) s')" using ledger_inv_funded [OF inv] by (simp add: play(20))
      show "lamports ?s k \<le> lamports (store tk (TournamentData t' n) s') k" for k by (simp add: play(20))
    qed (use neq ents play(19) in auto)
  qed
qed (use run st in \<open>auto elim!: run_one_matchE\<close>)

lemma ledger_inv_run_batch:
  assumes env: "env_ok net env"
    and "ledger_inv net (store tk (TournamentData t n) s)" "t_state t = Running"
    and "unat (t_matches_completed t) + length is \<le> unat (t_matches_total t)"
    and "run_batch env accs tk is (t, s) = Inr (t', s')"
  shows "ledger_inv net (store tk (TournamentData t' n) s') \<and> t_state t' = Running \<and>
    t_matches_total t' = t_matches_total t \<and>
    unat (t_matches_completed t') = unat (t_matches_completed t) + length is"
  using assms(2-)
proof (induction "is" arbitrary: t s)
  case (Cons i "is")
  obtain t1 s1 where one: "run_one_match env accs tk i (t, s) = Inr (t1, s1)"
    and rest: "run_batch env accs tk is (t1, s1) = Inr (t', s')"
    using Cons.prems(4) by (auto simp: and_then_Inr_iff)
  have lt: "t_matches_completed t < t_matches_total t" using Cons.prems(3) by (simp add: word_less_nat_alt)
  note r = ledger_inv_run_one_match [OF env Cons.prems(1,2) lt one]
  have "unat (t_matches_completed t) + 1 < 2 ^ 32"
    using lt unat_less_length [of "t_matches_total t"] by (simp add: word_less_nat_alt)
  then have "unat (t_matches_completed t1) = unat (t_matches_completed t) + 1" by (simp add: r(4) word_nat)
  with Cons.IH [OF r(1,2) _ rest] Cons.prems(3) r(3) show ?case by simp
qed simp

lemma ledger_inv_run_matches:
  assumes inv: "ledger_inv net s" and env: "env_ok net env" and ix: "run_matches env ck tk op accs s = Inr s'"
  shows "ledger_inv net s'"
  using ix
proof (cases rule: run_matchesE)
  case (1 c t n m)
  with inv show ?thesis by simp
next
  case (2 c t n m costs t' s1)
  note tinv = tournament_inv_of [OF inv 2(2)]
  let ?t = "t\<lparr>t_operator_costs := costs\<rparr>"
  have "ledger_inv net (store tk (TournamentData ?t n) s)"
    using ledger_inv_store_tournament [OF inv 2(2) _ _ tournament_inv_costs [OF tinv]] 2(6) by simp
  moreover have "t_matches_completed t \<le> t_matches_total t"
    using tinv 2(6) by (simp add: tournament_inv_def phase_ok_def)
  then have "unat (t_matches_completed t) + unat m \<le> unat (t_matches_total t)"
    by (simp add: 2(7) unat_min_word word_nat word_le_nat_alt)
  ultimately show ?thesis
    using ledger_inv_run_batch [OF env _ _ _ 2(11)] 2(6) by (simp add: 2(12))
qed

section \<open>Finalization\<close>

definition finalize_any ::
  "Env \<Rightarrow> Pubkey \<Rightarrow> Pubkey \<Rightarrow> Pubkey \<Rightarrow> nat \<Rightarrow> Config \<Rightarrow> Tournament \<Rightarrow> Ledger \<Rightarrow> Error + Config \<times> Tournament \<times> Ledger" where
  "finalize_any env ck tk op n c t s =
     (if t_participant_count t = 0 then finalize_empty else finalize_winners) env ck tk op n c t s"

lemma finalize_winners_share:
  assumes "finalize_winners env ck tk op n c t s = Inr (c', t', s')" "t_house_fee_bps t \<le> 10000"
  shows "unat (prize_share t') = (min (unat (t_pool t) - unat (t_pool t) * unat (t_house_fee_bps t) div 10000 - unat (t_operator_costs t))
    (unat (lamports s tk) - unat (minimum_balance env n))) div unat (t_winner_count t')"
proof -
  obtain thr winners house_fee raw per_winner where
    f: "winners \<noteq> 0" "calc_house_fee t = Inr house_fee"
    "raw = min (saturating_sub (saturating_sub (t_pool t) house_fee) (t_operator_costs t)) (transferable_lamports env tk n s)"
    "per_winner = raw div ucast winners"
    "t' = t\<lparr>t_min_winning_score := thr, t_winner_count := winners, t_winner_pool := per_winner * ucast winners,
       t_payout_started_at := unix_timestamp env, t_state := Payout\<rparr>"
    using assms(1) by (rule finalize_winnersE)
  have w: "unat (ucast winners :: u64) = unat winners" "0 < unat winners" using f(1) by (simp_all add: unat_gt_0)
  have "unat (per_winner * ucast winners) = unat raw div unat winners * unat winners"
    using unat_div_mult(1) [of raw "ucast winners"] by (simp add: f(4) w(1))
  then have "unat (prize_share t') = unat raw div unat winners"
    using w by (simp add: prize_share_def f(5) unat_div_word)
  then show ?thesis
    using house_fee_le_pool(1) [OF f(2) assms(2)]
    by (simp add: f(5) f(3) unat_min_word unat_saturating_sub unat_transferable)
qed

lemma finalize_any_effect:
  assumes fin: "finalize_any env ck tk op n c (t\<lparr>t_operator_costs := costs\<rparr>) s = Inr (c', t', s')"
    and inv: "tournament_inv key rent t n ents (lamports s tk)" and st: "t_state t = Running"
    and keys: "tk \<noteq> ck" "tk \<noteq> op" "ck \<noteq> op" and funded: "funded s"
    and rent: "unat rent \<le> unat (minimum_balance env n)"
  obtains fees reimbursed where
    "tournament_inv key rent t' n ents (lamports s' tk)" "t_id t' = t_id t" "t_bump t' = t_bump t"
    "c' = c\<lparr>c_accumulated_fees := c_accumulated_fees c'\<rparr>"
    "unat (c_accumulated_fees c') = unat (c_accumulated_fees c) + fees"
    "unat (lamports s' ck) = unat (lamports s ck) + fees"
    "lamport_supply s' = lamport_supply s" "funded s'" "accounts s' = accounts s"
    "\<forall>k. k \<noteq> tk \<and> k \<noteq> ck \<and> k \<noteq> op \<longrightarrow> lamports s' k = lamports s k"
    "unat (lamports s' tk) + fees + reimbursed = unat (lamports s tk)" "t_state t' = Payout"
    "t_participant_count t \<noteq> 0 \<longrightarrow> unat (prize_share t') = (min (unat (t_pool t) - unat (t_pool t) * unat (t_house_fee_bps t) div 10000 - unat costs)
       (unat (lamports s tk) - unat (minimum_balance env n))) div unat (t_winner_count t')"
    "unat (lamports s' op) = unat (lamports s op) + reimbursed"
    "payout_split t (unat costs) (unat (lamports s tk) - unat (minimum_balance env n)) (unat (t_winner_count t')) =
       (fees, reimbursed, unat (prize_share t'))"
    "t_participant_count t = 0 \<longrightarrow> unat (minimum_balance env n) \<le> unat (lamports s tk) \<longrightarrow>
       unat (minimum_balance env n) \<le> unat (lamports s' tk)"
proof (cases "t_participant_count t = 0")
  case True
  then have fin': "finalize_empty env ck tk op n c (t\<lparr>t_operator_costs := costs\<rparr>) s = Inr (c', t', s')"
    using fin by (simp add: finalize_any_def)
  note tinv = tournament_inv_finalize_empty [OF fin' inv st keys funded rent]
  obtain fees reimbursed where
    "unat (lamports s' tk) + fees + reimbursed = unat (lamports s tk)"
    "unat (lamports s' ck) = unat (lamports s ck) + fees"
    "unat (lamports s' op) = unat (lamports s op) + reimbursed"
    "unat (c_accumulated_fees c') = unat (c_accumulated_fees c) + fees"
    "c' = c\<lparr>c_accumulated_fees := c_accumulated_fees c'\<rparr>"
    "t' = t\<lparr>t_operator_costs := costs, t_winner_count := 0, t_winner_pool := 0, t_min_winning_score := 0,
            t_payout_started_at := unix_timestamp env, t_state := Payout\<rparr>"
    "lamport_supply s' = lamport_supply s" "funded s'" "accounts s' = accounts s"
    "min (unat (lamports s tk)) (unat (minimum_balance env n)) \<le> unat (lamports s' tk)"
    "\<forall>k. k \<noteq> tk \<and> k \<noteq> ck \<and> k \<noteq> op \<longrightarrow> lamports s' k = lamports s k"
    "t_participant_count (t\<lparr>t_operator_costs := costs\<rparr>) = 0 \<longrightarrow>
       payout_split (t\<lparr>t_operator_costs := costs\<rparr>) (unat (t_operator_costs (t\<lparr>t_operator_costs := costs\<rparr>)))
         (unat (lamports s tk) - unat (minimum_balance env n)) 0 = (fees, reimbursed, 0)"
    using fin' keys funded by (rule finalize_empty_accounting)
  with tinv True show ?thesis
    using payout_split_empty [OF True, of "unat costs" _ "unat (t_winner_count t')" 0]
    by (intro that [of fees reimbursed]) (simp_all add: prize_share_def, linarith)
next
  case False
  then have fin': "finalize_winners env ck tk op n c (t\<lparr>t_operator_costs := costs\<rparr>) s = Inr (c', t', s')"
    using fin by (simp add: finalize_any_def)
  note tinv = tournament_inv_finalize_winners [OF fin' inv st keys funded rent]
  have fee: "t_house_fee_bps (t\<lparr>t_operator_costs := costs\<rparr>) \<le> 10000"
    using inv by (simp add: tournament_inv_def vectors_ok_def)
  have bal: "unat rent + unat (t_pool (t\<lparr>t_operator_costs := costs\<rparr>)) \<le> unat (lamports s tk)"
    using inv_before_payout(4) [OF inv] st by simp
  obtain fees reimbursed where
    "unat (lamports s' tk) + fees + reimbursed = unat (lamports s tk)"
    "unat (lamports s' ck) = unat (lamports s ck) + fees"
    "unat (lamports s' op) = unat (lamports s op) + reimbursed"
    "unat (c_accumulated_fees c') = unat (c_accumulated_fees c) + fees"
    "c' = c\<lparr>c_accumulated_fees := c_accumulated_fees c'\<rparr>"
    "t_id t' = t_id (t\<lparr>t_operator_costs := costs\<rparr>)" "t_bump t' = t_bump (t\<lparr>t_operator_costs := costs\<rparr>)"
    "lamport_supply s' = lamport_supply s" "funded s'" "accounts s' = accounts s"
    "\<forall>k. k \<noteq> tk \<and> k \<noteq> ck \<and> k \<noteq> op \<longrightarrow> lamports s' k = lamports s k"
    "t_participant_count (t\<lparr>t_operator_costs := costs\<rparr>) \<noteq> 0 \<longrightarrow>
       payout_split (t\<lparr>t_operator_costs := costs\<rparr>) (unat (t_operator_costs (t\<lparr>t_operator_costs := costs\<rparr>)))
         (unat (lamports s tk) - unat (minimum_balance env n)) (unat (t_winner_count t')) = (fees, reimbursed, unat (prize_share t'))"
    using fin' fee keys funded bal rent by (rule finalize_winners_accounting)
  moreover have "t_state t' = Payout" using fin' by (rule finalize_winnersE) simp
  moreover note finalize_winners_share [OF fin' fee]
  ultimately show ?thesis using tinv False
    by (intro that [of fees reimbursed]) simp_all
qed

text \<open>A finalization, from the creation of the next tournament to the books of the old one.\<close>

lemma finalize_tournament_effect:
  assumes net: "network_ok net" and inv: "ledger_inv net s" and env: "env_ok net env"
    and ix: "finalize_tournament env ck tk nk op s = Inr s'"
  obtains c t n s1 c' t' s2 fees reimbursed bump costs where
    "ledger_inv net s1" "lamport_supply s1 = lamport_supply s" "wallet net op" "tk \<noteq> ck"
    "accounts s1 ck = Some (ConfigData c)" "accounts s1 tk = Some (TournamentData t n)"
    "tournament_inv (entry_key net tk) (rent_of net BASE_SPACE) t' n (entries_of s1 tk) (lamports s2 tk)"
    "t_id t' = t_id t" "t_bump t' = t_bump t"
    "c' = c\<lparr>c_accumulated_fees := c_accumulated_fees c'\<rparr>"
    "unat (c_accumulated_fees c') = unat (c_accumulated_fees c) + fees"
    "unat (lamports s2 ck) = unat (lamports s1 ck) + fees"
    "lamport_supply s2 = lamport_supply s1" "funded s2" "accounts s2 = accounts s1"
    "\<forall>k. k \<noteq> tk \<and> k \<noteq> ck \<and> k \<noteq> op \<longrightarrow> lamports s2 k = lamports s1 k"
    "s' = store ck (ConfigData (c'\<lparr>c_current_tournament_id := c_current_tournament_id c + 1\<rparr>))
            (store tk (TournamentData t' n) s2)"
    "s1 = store nk (TournamentData (new_tournament (c_current_tournament_id c + 1) c (unix_timestamp env) bump) BASE_SPACE)
            (move_lamports op nk (rent_top_up env BASE_SPACE (lamports s nk)) s)"
    "accounts s nk = None" "final_operator_costs c t = Inr costs" "ck \<noteq> op" "tk \<noteq> op"
    "unat (lamports s2 tk) + fees + reimbursed = unat (lamports s1 tk)" "t_state t' = Payout"
    "t_participant_count t \<noteq> 0 \<longrightarrow> unat (prize_share t') = (min (unat (t_pool t) - unat (t_pool t) * unat (t_house_fee_bps t) div 10000 - unat costs)
       (unat (lamports s1 tk) - unat (minimum_balance env n))) div unat (t_winner_count t')"
    "unat (lamports s2 op) = unat (lamports s1 op) + reimbursed"
    "payout_split t (unat costs) (unat (lamports s1 tk) - unat (minimum_balance env n)) (unat (t_winner_count t')) =
       (fees, reimbursed, unat (prize_share t'))"
    "t_participant_count t = 0 \<longrightarrow> unat (minimum_balance env n) \<le> unat (lamports s1 tk) \<longrightarrow>
       unat (minimum_balance env n) \<le> unat (lamports s2 tk)"
    "rent_top_up env BASE_SPACE (lamports s nk) \<le> lamports s op" "nk \<noteq> op"
    "unat (lamports s1 nk) = unat (lamports s nk) + unat (rent_top_up env BASE_SPACE (lamports s nk))"
    "unat (rent_of net BASE_SPACE) \<le> unat (lamports s1 nk)"
proof -
  obtain c t n bump s1 costs c' t' s2 where h:
    "accounts s ck = Some (ConfigData c)" "accounts s tk = Some (TournamentData t n)" "is_signer env op"
    "nk = fst (find_program_address env (tournament_seeds (c_current_tournament_id c + 1)))"
    "bump = snd (find_program_address env (tournament_seeds (c_current_tournament_id c + 1)))"
    "accounts s nk = None" "rent_top_up env BASE_SPACE (lamports s nk) \<le> lamports s op"
    "s1 = store nk (TournamentData (new_tournament (c_current_tournament_id c + 1) c (unix_timestamp env) bump) BASE_SPACE)
            (move_lamports op nk (rent_top_up env BASE_SPACE (lamports s nk)) s)"
    "t_state t = Running" "final_operator_costs c t = Inr costs"
    "(if t_participant_count (t\<lparr>t_operator_costs := costs\<rparr>) = 0 then finalize_empty else finalize_winners) env ck tk op n c
       (t\<lparr>t_operator_costs := costs\<rparr>) s1 = Inr (c', t', s2)"
    "s' = store ck (ConfigData (c'\<lparr>c_current_tournament_id := c_current_tournament_id c + 1\<rparr>))
            (store tk (TournamentData t' n) s2)"
    using ix by (rule finalize_tournamentE)
  have w: "wallet net op" using signer_wallet [OF env h(3)] by simp
  have cok: "config_ok c" using ledger_inv_config [OF inv h(1)] by (simp add: config_account_ok_def)
  have inv1: "ledger_inv net s1"
    unfolding h(8) by (rule ledger_inv_new_tournament [OF inv env w _ h(6,7) cok]) (simp add: h(4,5))
  have total: "lamport_supply s1 = lamport_supply s"
    using supply_move [OF ledger_inv_funded [OF inv] h(7)] by (simp add: h(8))
  have acc1: "accounts s1 ck = Some (ConfigData c)" "accounts s1 tk = Some (TournamentData t n)"
    using h(1,2,6) by (auto simp: h(8))
  note tinv = tournament_inv_of [OF inv1 acc1(2)]
  have keys: "tk \<noteq> ck" "tk \<noteq> op" "ck \<noteq> op"
    using acc1 wallet_neq [OF inv1 w, of tk] wallet_neq [OF inv1 w, of ck] by auto
  have rent: "unat (rent_of net BASE_SPACE) \<le> unat (minimum_balance env n)"
    using net env tinv by (auto simp: network_ok_def env_ok_def tournament_inv_def vectors_ok_def intro: monoD)
  have fin: "finalize_any env ck tk op n c (t\<lparr>t_operator_costs := costs\<rparr>) s1 = Inr (c', t', s2)"
    using h(11) by (simp add: finalize_any_def)
  obtain fees reimbursed where f: "tournament_inv (entry_key net tk) (rent_of net BASE_SPACE) t' n (entries_of s1 tk) (lamports s2 tk)"
    "t_id t' = t_id t" "t_bump t' = t_bump t"
    "c' = c\<lparr>c_accumulated_fees := c_accumulated_fees c'\<rparr>"
    "unat (c_accumulated_fees c') = unat (c_accumulated_fees c) + fees"
    "unat (lamports s2 ck) = unat (lamports s1 ck) + fees"
    "lamport_supply s2 = lamport_supply s1" "funded s2" "accounts s2 = accounts s1"
    "\<forall>k. k \<noteq> tk \<and> k \<noteq> ck \<and> k \<noteq> op \<longrightarrow> lamports s2 k = lamports s1 k"
    "unat (lamports s2 tk) + fees + reimbursed = unat (lamports s1 tk)" "t_state t' = Payout"
    "t_participant_count t \<noteq> 0 \<longrightarrow> unat (prize_share t') = (min (unat (t_pool t) - unat (t_pool t) * unat (t_house_fee_bps t) div 10000 - unat costs)
       (unat (lamports s1 tk) - unat (minimum_balance env n))) div unat (t_winner_count t')"
    "unat (lamports s2 op) = unat (lamports s1 op) + reimbursed"
    "payout_split t (unat costs) (unat (lamports s1 tk) - unat (minimum_balance env n)) (unat (t_winner_count t')) =
       (fees, reimbursed, unat (prize_share t'))"
    "t_participant_count t = 0 \<longrightarrow> unat (minimum_balance env n) \<le> unat (lamports s1 tk) \<longrightarrow>
       unat (minimum_balance env n) \<le> unat (lamports s2 tk)"
    using fin tinv h(9) keys ledger_inv_funded [OF inv1] rent by (rule finalize_any_effect)
  have nk: "nk = address net (tournament_seeds (c_current_tournament_id c + 1))"
    using env by (simp add: h(4) env_ok_def address_def)
  then have neq: "nk \<noteq> op" using w by (auto simp: wallet_def)
  have pay: "unat (lamports s1 nk) = unat (lamports s nk) + unat (rent_top_up env BASE_SPACE (lamports s nk))"
    using unat_move_to [OF ledger_inv_funded [OF inv] _ h(7)] neq by (simp add: h(8))
  have top: "unat (rent_of net BASE_SPACE) \<le> unat (lamports s1 nk)"
    using env_rent_top_up [OF env ledger_inv_funded [OF inv] w nk h(7)] by (simp add: h(8))
  show ?thesis
    by (rule that [OF inv1 total w keys(1) acc1 f(1-10) h(12,8,6,10) keys(3,2) f(11-16) h(7) neq pay top])
qed

lemma ledger_inv_finalize:
  assumes net: "network_ok net" and inv: "ledger_inv net s" and env: "env_ok net env"
    and ix: "finalize_tournament env ck tk nk op s = Inr s'"
  shows "ledger_inv net s'"
proof -
  obtain c t n s1 c' t' s2 fees where
    inv1: "ledger_inv net s1" and "lamport_supply s1 = lamport_supply s" and w: "wallet net op" and neq: "tk \<noteq> ck"
    and acc1: "accounts s1 ck = Some (ConfigData c)" "accounts s1 tk = Some (TournamentData t n)"
    and f: "tournament_inv (entry_key net tk) (rent_of net BASE_SPACE) t' n (entries_of s1 tk) (lamports s2 tk)"
    "t_id t' = t_id t" "t_bump t' = t_bump t"
    "c' = c\<lparr>c_accumulated_fees := c_accumulated_fees c'\<rparr>"
    "unat (c_accumulated_fees c') = unat (c_accumulated_fees c) + fees"
    "unat (lamports s2 ck) = unat (lamports s1 ck) + fees"
    "lamport_supply s2 = lamport_supply s1" "funded s2" "accounts s2 = accounts s1"
    "\<forall>k. k \<noteq> tk \<and> k \<noteq> ck \<and> k \<noteq> op \<longrightarrow> lamports s2 k = lamports s1 k"
    and s': "s' = store ck (ConfigData (c'\<lparr>c_current_tournament_id := c_current_tournament_id c + 1\<rparr>))
            (store tk (TournamentData t' n) s2)"
    using net inv env ix by (rule finalize_tournament_effect)
  have mono: "lamports s1 k \<le> lamports s2 k" if "accounts s1 k \<noteq> None" "k \<noteq> tk" for k
    using that f(6,10) wallet_neq [OF inv1 w that(1)] by (cases "k = ck") (simp_all add: word_le_nat_alt)
  have inv2: "ledger_inv net (store tk (TournamentData t' n) s2)"
    by (rule ledger_inv_update [OF inv1 acc1(2), where K = "{}" and ents' = "entries_of s1 tk"])
      (use f mono in simp_all)
  have c': "config_account_ok net s2 ck (c'\<lparr>c_current_tournament_id := c_current_tournament_id c + 1\<rparr>)"
    using ledger_inv_config [OF inv1 acc1(1)] f(5,6)
    by (subst f(4)) (auto simp: config_account_ok_def config_ok_def)
  show ?thesis
    unfolding s'
    by (rule ledger_inv_store_config [OF inv2])
      (use acc1 neq c' f(8,9) in \<open>auto simp: config_account_ok_def\<close>)
qed

section \<open>Closing entries\<close>

lemma settle_entryE:
  assumes "settle_entry env ck tk p n c t s = Inr (c', t', s')"
  obtains (expired) transfer where
    "transfer = min (prize_share t) (transferable_lamports env tk n s)"
    "unat (c_accumulated_fees c) + unat transfer < 2 ^ 64"
    "c' = c\<lparr>c_accumulated_fees := c_accumulated_fees c + transfer\<rparr>" "t' = t" "s' = move_lamports tk ck transfer s"
  | (paid) transfer where
    "transfer = min (prize_share t) (transferable_lamports env tk n s)"
    "c' = c" "t' = t\<lparr>t_claims_processed := t_claims_processed t + 1\<rparr>" "s' = move_lamports tk p transfer s"
proof -
  define m where "m = min (prize_share t) (transferable_lamports env tk n s)"
  have skip: "(if 0 < m then move_lamports tk p m s else s) = move_lamports tk p m s"
    by (auto simp: word_gt_0)
  show ?thesis
  proof (cases "sint (t_payout_started_at t + CLAIM_EXPIRY_SECONDS) \<le> sint (unix_timestamp env)")
    case True
    then show ?thesis
      using assms unat_less_length [of "c_accumulated_fees c"]
      unfolding settle_entry_def Let_def prize_share_def [symmetric] m_def [symmetric]
      by (intro expired [of m]) (auto simp: m_def [symmetric] and_then_Inr_iff add_fees_Inr_iff word_gt_0 split: if_splits)
  next
    case False
    then show ?thesis
      using assms unfolding settle_entry_def Let_def prize_share_def [symmetric] m_def [symmetric] skip
      by (intro paid [of m]) (simp_all add: m_def)
  qed
qed

text \<open>What a settlement leaves, whoever gets the prize.\<close>

lemma settle_entry_effect:
  assumes inv: "ledger_inv net s" and c: "accounts s ck = Some (ConfigData c)"
    and t: "accounts s tk = Some (TournamentData t n)" and p: "wallet net p"
    and settle: "settle_entry env ck tk p n c t s = Inr (c', t', s')"
  obtains m where "t' = t\<lparr>t_claims_processed := m\<rparr>" "accounts s' = accounts s" "funded s'"
    "lamport_supply s' = lamport_supply s"
    "\<forall>k. accounts s k \<noteq> None \<and> k \<noteq> tk \<longrightarrow> lamports s k \<le> lamports s' k"
    "unat (lamports s tk) \<le> unat (lamports s' tk) + unat (prize_share t)"
    "config_account_ok net s' ck c'"
proof -
  have f: "funded s" by (rule ledger_inv_funded [OF inv])
  have keys: "tk \<noteq> ck" "tk \<noteq> p" "ck \<noteq> p"
    using c t wallet_neq [OF inv p, of tk] wallet_neq [OF inv p, of ck] by auto
  note cok = ledger_inv_config [OF inv c]
  define transfer where "transfer = min (prize_share t) (transferable_lamports env tk n s)"
  have le: "transfer \<le> lamports s tk" "unat transfer \<le> unat (prize_share t)"
    by (simp_all add: transfer_def word_le_nat_alt unat_min_word unat_transferable)
  have mv: "funded (move_lamports tk y transfer s)" "lamport_supply (move_lamports tk y transfer s) = lamport_supply s"
    "\<forall>k. accounts s k \<noteq> None \<and> k \<noteq> tk \<longrightarrow> lamports s k \<le> lamports (move_lamports tk y transfer s) k"
    for y
    using funded_move [OF f le(1)] supply_move [OF f le(1)] move_mono [OF f le(1)] by blast+
  have bal: "unat (lamports s tk) \<le> unat (lamports (move_lamports tk y transfer s) tk) + unat (prize_share t)" if "tk \<noteq> y" for y
    using unat_move_from [OF that le(1)] le by (simp add: word_le_nat_alt)
  show ?thesis
    using settle
  proof (cases rule: settle_entryE)
    case (expired x)
    have x: "x = transfer" by (simp add: expired(1) transfer_def)
    have "unat (c_accumulated_fees c + transfer) = unat (c_accumulated_fees c) + unat transfer"
      using expired(2) by (simp add: x word_nat)
    then have "config_account_ok net s' ck c'"
      using cok unat_move_to [OF f keys(1) le(1)] by (auto simp: expired(3,5) x config_account_ok_def config_ok_def)
    then show ?thesis
      using mv [of ck] bal [OF keys(1)] by (intro that [of "t_claims_processed t"]) (simp_all add: expired(4,5) x)
  next
    case (paid x)
    have x: "x = transfer" by (simp add: paid(1) transfer_def)
    have "config_account_ok net s' ck c'"
      using cok keys by (auto simp: paid(2,4) config_account_ok_def move_other)
    then show ?thesis
      using mv [of p] bal [OF keys(2)] by (intro that [of "t_claims_processed t + 1"]) (simp_all add: paid(3,4) x)
  qed
qed

lemma ledger_inv_close_entry:
  assumes inv: "ledger_inv net s" and ix: "close_entry env ck tk ek p op s = Inr s'"
  shows "ledger_inv net s'"
proof -
  obtain c e t n c' t' s1 where h:
    "accounts s ck = Some (ConfigData c)" "accounts s tk = Some (TournamentData t n)" "accounts s ek = Some (EntryData e)"
    "e_tournament e = tk" "p = e_player e" "t_state t = Payout"
    "(if \<not> e_paid_out e \<and> 0 < t_winner_count t \<and> t_min_winning_score t \<le> e_score e
      then settle_entry env ck tk p n c t s else Inr (c, t, s)) = Inr (c', t', s1)"
    "s' = close_account ek p (store ck (ConfigData c')
            (store tk (TournamentData (t'\<lparr>t_entries_remaining := t_entries_remaining t' - 1\<rparr>) n) s1))"
    using ix by (rule close_entryE)
  have p: "wallet net p" using ledger_inv_entry [OF inv h(3)] by (simp add: entry_account_ok_def h(5))
  note tinv = tournament_inv_of [OF inv h(2)]
  have ent: "entries_of s tk ek = Some e" using h(3,4) by (simp add: entries_of_iff)
  obtain m where m: "t' = t\<lparr>t_claims_processed := m\<rparr>" "accounts s1 = accounts s" "funded s1"
    "\<forall>k. accounts s k \<noteq> None \<and> k \<noteq> tk \<longrightarrow> lamports s k \<le> lamports s1 k"
    "unat (lamports s tk) \<le> unat (lamports s1 tk) + (if t_min_winning_score t \<le> e_score e then unat (prize_share t) else 0)"
    "config_account_ok net s1 ck c'"
  proof (cases "\<not> e_paid_out e \<and> 0 < t_winner_count t \<and> t_min_winning_score t \<le> e_score e")
    case True
    then have "settle_entry env ck tk p n c t s = Inr (c', t', s1)" using h(7) by simp
    then obtain m where "t' = t\<lparr>t_claims_processed := m\<rparr>" "accounts s1 = accounts s" "funded s1"
      "\<forall>k. accounts s k \<noteq> None \<and> k \<noteq> tk \<longrightarrow> lamports s k \<le> lamports s1 k"
      "unat (lamports s tk) \<le> unat (lamports s1 tk) + unat (prize_share t)" "config_account_ok net s1 ck c'"
      by (rule settle_entry_effect [OF inv h(1,2) p])
    with True show ?thesis by (intro that [of m]) simp_all
  next
    case False
    with h(7) have "c' = c" "t' = t" "s1 = s" by (auto split: if_splits)
    with ledger_inv_config [OF inv h(1)] ledger_inv_funded [OF inv] show ?thesis
      by (intro that [of "t_claims_processed t"]) simp_all
  qed
  let ?t = "t\<lparr>t_claims_processed := m, t_entries_remaining := t_entries_remaining t - 1\<rparr>"
  let ?s = "close_account ek p (store tk (TournamentData ?t n) s1)"
  have inv2: "ledger_inv net ?s"
    by (rule ledger_inv_close [OF inv h(2,3,4) _ _ m(2,3) _ p tournament_inv_close_entry [OF tinv h(6) ent m(5) refl]])
      (use m(4) in simp_all)
  have neq: "ck \<noteq> ek" "tk \<noteq> ek" "ck \<noteq> tk" "ck \<noteq> p"
    using h(1-3) wallet_neq [OF inv p, of ck] by auto
  have s': "s' = store ck (ConfigData c') ?s"
    using neq by (simp add: h(8) m(1) close_account_def remove_account_def store_def move_lamports_def debit_def credit_def fun_upd_twist)
  show ?thesis
    unfolding s'
    by (rule ledger_inv_store_config [OF inv2])
      (use neq h(1) m(2,6) ledger_inv_funded [OF inv2] in \<open>auto simp: config_account_ok_def move_other\<close>)
qed

section \<open>Closing tournaments\<close>

lemma ledger_inv_remove_tournament:
  assumes inv: "ledger_inv net s" and t: "accounts s tk = Some (TournamentData t n)" "entries_of s tk = Map.empty"
    and acc: "accounts s' = (accounts s)(tk := None)" and funded: "funded s'"
    and lam: "\<And>k. accounts s k \<noteq> None \<Longrightarrow> k \<noteq> tk \<Longrightarrow> lamports s k \<le> lamports s' k"
  shows "ledger_inv net s'"
  unfolding ledger_inv_def
proof (intro conjI allI impI)
  fix k d assume d: "accounts s' k = Some d"
  then have k: "k \<noteq> tk" "accounts s k = Some d" by (auto simp: acc split: if_splits)
  then have ok: "account_ok net s k d" by (intro ledger_inv_account [OF inv])
  then show "account_ok net s' k d"
  proof (rule account_ok_mono)
    show "lamports s k \<le> lamports s' k" using lam k by simp
    show "entries_of s' k = entries_of s k" using t(1) by (intro entries_of_cong) (auto simp: acc)
    show "\<exists>u m. accounts s' (e_tournament e) = Some (TournamentData u m)" if "d = EntryData e" for e
    proof -
      have "e_tournament e \<noteq> tk" using t(2) k(2) that entries_of_iff [of s tk k e] by auto
      with ok that show ?thesis by (simp add: entry_account_ok_def acc)
    qed
  qed
qed (rule funded)

lemma ledger_inv_close_tournament:
  assumes inv: "ledger_inv net s" and ix: "close_tournament env ck tk op s = Inr s'"
  shows "ledger_inv net s'"
proof -
  obtain c t n c' s1 where h: "accounts s ck = Some (ConfigData c)" "accounts s tk = Some (TournamentData t n)"
    "t_entries_remaining t = 0"
    "(if 0 < lamports s tk then and_then (add_fees (lamports s tk) c) (\<lambda>c. Inr (c, move_lamports tk ck (lamports s tk) s))
      else Inr (c, s)) = Inr (c', s1)"
    "s' = remove_account tk (store ck (ConfigData c') s1)"
    using ix by (rule close_tournamentE)
  have neq: "tk \<noteq> ck" using h(1,2) by auto
  have f: "funded s" by (rule ledger_inv_funded [OF inv])
  have s1: "s1 = move_lamports tk ck (lamports s tk) s" "c' = c\<lparr>c_accumulated_fees := c_accumulated_fees c + lamports s tk\<rparr>"
    "unat (c_accumulated_fees c') = unat (c_accumulated_fees c) + unat (lamports s tk)"
    using h(4) by (auto simp: and_then_Inr_iff add_fees_Inr_iff word_gt_0 word_nat split: if_splits)
  have "entries_of s tk = Map.empty"
    using tournament_inv_of [OF inv h(2)] h(3) by (simp add: tournament_inv_def)
  then have inv1: "ledger_inv net (remove_account tk (move_lamports tk ck (lamports s tk) s))"
    by (rule ledger_inv_remove_tournament [OF inv h(2)]) (simp_all add: funded_move f move_mono)
  have bal: "unat (lamports s1 ck) = unat (lamports s ck) + unat (lamports s tk)"
    using unat_move_to [OF f neq, of "lamports s tk"] by (simp add: s1(1))
  have "config_account_ok net s1 ck c'"
    using ledger_inv_config [OF inv h(1)] bal s1(3) by (auto simp: config_account_ok_def config_ok_def s1(2))
  then show ?thesis
    using h(1) neq funded_move [OF f, of "lamports s tk" tk ck]
    by (intro ledger_inv_store_config [OF inv1]) (auto simp: h(5) s1(1) config_account_ok_def)
qed

section \<open>Reachable ledgers\<close>

lemma ledger_inv_step:
  assumes "network_ok net" "ledger_inv net s" "step net s s'"
  shows "ledger_inv net s'"
  using assms(3)
proof cases
  case (execute env ix)
  then show ?thesis
    using assms(1,2)
    by (cases ix)
      (auto intro: ledger_inv_initialize_config ledger_inv_update_config ledger_inv_withdraw_fees ledger_inv_enter
        ledger_inv_reveal ledger_inv_refund ledger_inv_payout ledger_inv_close_registration ledger_inv_close_reveal
        ledger_inv_forfeit ledger_inv_run_matches ledger_inv_finalize ledger_inv_close_entry ledger_inv_close_tournament)
next
  case (deposit p k amount)
  then show ?thesis using ledger_inv_pay [OF assms(2)] by (simp add: system_transfer_Inr_iff)
qed

lemma reachable_inv:
  assumes "network_ok net" "reachable net s"
  shows "ledger_inv net s"
  using assms(2)
proof induction
  case (initial s)
  then show ?case by (simp add: ledger_inv_def)
next
  case (more s s')
  then show ?case using ledger_inv_step [OF assms(1)] by blast
qed

end
