(* ===== verification/Phases.thy ===== *)
theory Phases
  imports Ledger_Inv_Payout
begin

text \<open>
  The life of a tournament account: what an instruction can do to it. The terms a tournament was
  created with never change, its phase only advances one step at a time, the results of a player slot
  only grow, and the account disappears only from the payout phase with no entry left open.
\<close>

section \<open>One step of a tournament\<close>

fun phase_next :: "TournamentState \<Rightarrow> TournamentState \<Rightarrow> bool" where
  "phase_next Registration p \<longleftrightarrow> p = Registration \<or> p = Reveal"
| "phase_next Reveal p \<longleftrightarrow> p = Reveal \<or> p = Running"
| "phase_next Running p \<longleftrightarrow> p = Running \<or> p = Payout"
| "phase_next Payout p \<longleftrightarrow> p = Payout"

definition same_terms :: "Tournament \<Rightarrow> Tournament \<Rightarrow> bool" where
  "same_terms t t' \<longleftrightarrow>
     t_id t' = t_id t \<and> t_stake t' = t_stake t \<and> t_house_fee_bps t' = t_house_fee_bps t \<and>
     t_registration_duration t' = t_registration_duration t \<and> t_registration_ends t' = t_registration_ends t \<and>
     t_reveal_duration t' = t_reveal_duration t \<and> t_bump t' = t_bump t"

text \<open>What only certain phases may change.\<close>

definition phase_writes :: "Tournament \<Rightarrow> Tournament \<Rightarrow> bool" where
  "phase_writes t t' \<longleftrightarrow>
     (t_state t \<noteq> Registration \<longrightarrow> length (t_players t') = length (t_players t)) \<and>
     (t_state t \<noteq> Reveal \<longrightarrow> t_matches_per_player t' = t_matches_per_player t \<and>
        t_randomness_seed t' = t_randomness_seed t \<and> t_matches_total t' = t_matches_total t) \<and>
     (t_state t \<noteq> Running \<longrightarrow> t_winner_pool t' = t_winner_pool t \<and> t_winner_count t' = t_winner_count t \<and>
        t_min_winning_score t' = t_min_winning_score t \<and> t_payout_started_at t' = t_payout_started_at t) \<and>
     (t_state t \<in> {Running, Payout} \<longrightarrow> t_players t' = t_players t \<and> t_strategies t' = t_strategies t \<and> t_pool t' = t_pool t)"

definition tournament_step :: "Tournament \<Rightarrow> Tournament \<Rightarrow> bool" where
  "tournament_step t t' \<longleftrightarrow> phase_next (t_state t) (t_state t') \<and> same_terms t t' \<and> phase_writes t t'"

definition account_step :: "Tournament \<Rightarrow> AccountData option \<Rightarrow> bool" where
  "account_step t d \<longleftrightarrow>
     (case d of
        Some (TournamentData t' n') \<Rightarrow> tournament_step t t'
      | None \<Rightarrow> t_state t = Payout \<and> t_entries_remaining t = 0
      | _ \<Rightarrow> False)"

lemmas tournament_step_defs = tournament_step_def same_terms_def phase_writes_def

lemma phase_next_refl [simp]: "phase_next p p"
  by (cases p) simp_all

lemma phase_next_le: "phase_next p q \<Longrightarrow> p \<le> q"
  by (cases p) (auto simp: less_eq_TournamentState_def)

lemma tournament_step_refl [simp]: "tournament_step t t"
  by (simp add: tournament_step_defs)

lemma account_step_simps [simp]:
  "account_step t (Some (TournamentData t' n)) \<longleftrightarrow> tournament_step t t'"
  "account_step t None \<longleftrightarrow> t_state t = Payout \<and> t_entries_remaining t = 0"
  by (simp_all add: account_step_def)

section \<open>The handlers\<close>

lemma register_player_step: "t_state t = Registration \<Longrightarrow> tournament_step t (register_player p t)"
  by (simp add: tournament_step_defs register_player_def)

lemma set_strategy_step: "t_state t = Reveal \<Longrightarrow> tournament_step t (set_strategy i x (t\<lparr>t_operator_costs := c\<rparr>))"
  "t_state t = Reveal \<Longrightarrow> tournament_step t (set_strategy i x t)"
  by (simp_all add: tournament_step_defs set_strategy_def)

lemma refund_slot_step:
  "t_state t = Registration \<Longrightarrow> tournament_step t ((clear_slot i t)\<lparr>t_participant_count := a, t_entries_remaining := b, t_pool := c\<rparr>)"
  by (simp add: tournament_step_defs clear_slot_def)

lemma start_step:
  assumes "t_state t = Reveal" "t_state t1 = Reveal" "same_terms t t1" "length (t_players t1) = length (t_players t)"
    "t_winner_pool t1 = t_winner_pool t" "t_winner_count t1 = t_winner_count t"
    "t_min_winning_score t1 = t_min_winning_score t" "t_payout_started_at t1 = t_payout_started_at t"
  shows "tournament_step t (start_empty t1)" "tournament_step t (start_running h t1)"
  using assms by (simp_all add: tournament_step_defs start_empty_def start_running_def Let_def)

lemma initialize_config_step:
  assumes "initialize_config env ck tk admin params s = Inr s'" "accounts s k = Some (TournamentData t n)"
  shows "account_step t (accounts s' k)"
  using assms(1) by (rule initialize_configE) (use assms(2) in \<open>auto split: if_splits\<close>)

lemma enter_step:
  assumes "enter_tournament env ck tk ek p cm s = Inr s'" "accounts s k = Some (TournamentData t n)"
  shows "account_step t (accounts s' k)"
  using assms(1) by (rule enter_tournamentE) (use assms(2) in \<open>auto simp: register_player_step split: if_splits\<close>)

lemma reveal_step:
  assumes "reveal_strategy env ek tk p x salt code s = Inr s'" "accounts s k = Some (TournamentData t n)"
  shows "account_step t (accounts s' k)"
  using assms(1) by (rule reveal_strategyE) (use assms(2) in \<open>auto simp: set_strategy_step split: if_splits\<close>)

lemma forfeit_step:
  assumes "forfeit_unrevealed env ck ek tk op s = Inr s'" "accounts s k = Some (TournamentData t n)"
  shows "account_step t (accounts s' k)"
  using assms(1) by (rule forfeit_unrevealedE) (use assms(2) in \<open>auto simp: set_strategy_step split: if_splits\<close>)

lemma refund_step:
  assumes "claim_refund env tk ek p s = Inr s'" "accounts s k = Some (TournamentData t n)"
  shows "account_step t (accounts s' k)"
  using assms(1) by (rule claim_refundE) (use assms(2) in \<open>auto simp: refund_slot_step split: if_splits\<close>)

lemma payout_step:
  assumes "claim_payout env tk ek p s = Inr s'" "accounts s k = Some (TournamentData t n)"
  shows "account_step t (accounts s' k)"
  using assms(1) by (rule claim_payoutE) (use assms(2) in \<open>auto simp: tournament_step_defs split: if_splits\<close>)

lemma update_config_step:
  assumes "update_config env ck admin params s = Inr s'" "accounts s k = Some (TournamentData t n)"
  shows "account_step t (accounts s' k)"
  using assms(1) by (rule update_configE) (use assms(2) in \<open>auto split: if_splits\<close>)

lemma withdraw_fees_step:
  assumes "withdraw_fees env ck admin s = Inr s'" "accounts s k = Some (TournamentData t n)"
  shows "account_step t (accounts s' k)"
  using assms(1) by (rule withdraw_feesE) (use assms(2) in \<open>auto split: if_splits\<close>)

lemma close_registration_step:
  assumes "close_registration env ck tk op s = Inr s'" "accounts s k = Some (TournamentData t n)"
  shows "account_step t (accounts s' k)"
  using assms(1) by (rule close_registrationE) (use assms(2) in \<open>auto simp: tournament_step_defs split: if_splits\<close>)

lemma close_tournament_step:
  assumes "close_tournament env ck tk op s = Inr s'" "accounts s k = Some (TournamentData t n)"
  shows "account_step t (accounts s' k)"
  using assms(1) by (rule close_tournamentE) (use assms(2) in \<open>auto simp: and_then_Inr_iff split: if_splits\<close>)

lemma close_reveal_step:
  assumes ix: "close_reveal env ck tk re rp op s = Inr s'" and k: "accounts s k = Some (TournamentData t n)"
  shows "account_step t (accounts s' k)"
proof -
  obtain c u m costs u1 where "accounts s ck = Some (ConfigData c)"
    and h: "accounts s tk = Some (TournamentData u m)" "t_state u = Reveal" "u1 = u\<lparr>t_operator_costs := costs\<rparr>"
    "(if t_participant_count u1 = 0
      then Inr (store tk (TournamentData (start_empty u1) m) s)
      else and_then (if t_participant_count u1 mod 2 = 1 then refund_odd tk re rp u1 s else Inr (u1, s)) (\<lambda>(t, s).
        if t_participant_count t = 0 then Inr (store tk (TournamentData (start_empty t) m) s)
        else check (48 \<le> length (slot_hashes env)) (Arena SlotHashUnavailable)
          (Inr (store tk (TournamentData (start_running (take 32 (drop 16 (slot_hashes env))) t) m) s)))) = Inr s'"
    using ix by (rule close_revealE)
  define kept where "kept v \<longleftrightarrow> t_state v = Reveal \<and> same_terms u v \<and> length (t_players v) = length (t_players u) \<and>
    t_winner_pool v = t_winner_pool u \<and> t_winner_count v = t_winner_count u \<and>
    t_min_winning_score v = t_min_winning_score u \<and> t_payout_started_at v = t_payout_started_at u" for v
  have start: "tournament_step u (start_empty v)" "tournament_step u (start_running x v)" if "kept v" for v x
    using that h(2) by (auto simp: kept_def intro: start_step)
  have u1: "kept u1" by (simp add: kept_def h(2,3) same_terms_def)
  have odd: "kept v \<and> (\<forall>k t n. accounts s k = Some (TournamentData t n) \<longrightarrow> accounts s1 k = Some (TournamentData t n))"
    if "refund_odd tk re rp u1 s = Inr (v, s1)" for v s1
    using that by (rule refund_oddE) (use u1 in \<open>auto simp: kept_def same_terms_def clear_slot_def\<close>)
  have s': "\<exists>v x s1. kept v \<and> (\<forall>k t n. accounts s k = Some (TournamentData t n) \<longrightarrow> accounts s1 k = Some (TournamentData t n)) \<and>
      (s' = store tk (TournamentData (start_empty v) m) s1 \<or> s' = store tk (TournamentData (start_running x v) m) s1)"
  proof (cases "t_participant_count u1 \<noteq> 0 \<and> t_participant_count u1 mod 2 = 1")
    case True
    with h(4) obtain v s1 where "refund_odd tk re rp u1 s = Inr (v, s1)"
      "s' = store tk (TournamentData (start_empty v) m) s1 \<or>
       s' = store tk (TournamentData (start_running (take 32 (drop 16 (slot_hashes env))) v) m) s1"
      by (auto simp: and_then_Inr_iff check_Inr_iff split: if_splits)
    with odd show ?thesis by blast
  next
    case False
    with h(4) have "s' = store tk (TournamentData (start_empty u1) m) s \<or>
       s' = store tk (TournamentData (start_running (take 32 (drop 16 (slot_hashes env))) u1) m) s"
      by (auto simp: check_Inr_iff split: if_splits)
    with u1 show ?thesis by blast
  qed
  then obtain v x s1 where v: "kept v" "\<forall>k t n. accounts s k = Some (TournamentData t n) \<longrightarrow> accounts s1 k = Some (TournamentData t n)"
    and s': "s' = store tk (TournamentData (start_empty v) m) s1 \<or> s' = store tk (TournamentData (start_running x v) m) s1"
    by blast
  show ?thesis
    using s' start [OF v(1)] v(2) k h(1) by (cases "k = tk") auto
qed

text \<open>A batch of matches touches scores and entries only.\<close>

definition entries_only :: "Ledger \<Rightarrow> Ledger \<Rightarrow> bool" where
  "entries_only s s' \<longleftrightarrow> lamports s' = lamports s \<and>
     (\<forall>k. accounts s' k = accounts s k \<or>
        (\<exists>e e'. accounts s k = Some (EntryData e) \<and> accounts s' k = Some (EntryData e')))"

lemma entries_only_refl [simp]: "entries_only s s"
  by (simp add: entries_only_def)

lemma entries_only_trans: "entries_only s s1 \<Longrightarrow> entries_only s1 s2 \<Longrightarrow> entries_only s s2"
  unfolding entries_only_def by metis

lemma entries_only_store: "accounts s k = Some (EntryData e) \<Longrightarrow> entries_only s (store k (EntryData e') s)"
  by (simp add: entries_only_def)

lemma entries_only_tournament:
  assumes "entries_only s s'" "accounts s k = Some (TournamentData t n)"
  shows "accounts s' k = Some (TournamentData t n)"
proof -
  have "accounts s' k = accounts s k \<or> (\<exists>e e'. accounts s k = Some (EntryData e) \<and> accounts s' k = Some (EntryData e'))"
    using assms(1) by (simp add: entries_only_def)
  with assms(2) show ?thesis by simp
qed

lemma run_one_match_effect:
  assumes "run_one_match env accs tk i (t, s) = Inr (t', s')"
  shows "\<exists>sc. t' = t\<lparr>t_scores := sc, t_matches_completed := t_matches_completed t + 1\<rparr>" "entries_only s s'"
proof -
  have "(\<exists>sc. t' = t\<lparr>t_scores := sc, t_matches_completed := t_matches_completed t + 1\<rparr>) \<and> entries_only s s'"
    using assms
  proof (cases rule: run_one_matchE)
    case skip
    then show ?thesis by (auto intro!: exI [of _ "t_scores t"])
  next
    case (play ia ib ka kb ea eb sa sb r ea' eb' sc sc')
    have "entries_only s (store ka (EntryData ea') s)" by (rule entries_only_store [OF play(8)])
    moreover have "entries_only (store ka (EntryData ea') s) s'"
      using play(8,9) by (auto simp: play(20) entries_only_def)
    ultimately show ?thesis using play(19) entries_only_trans by blast
  qed
  then show "\<exists>sc. t' = t\<lparr>t_scores := sc, t_matches_completed := t_matches_completed t + 1\<rparr>" "entries_only s s'" by auto
qed

lemma run_batch_effect:
  assumes "run_batch env accs tk is (t, s) = Inr (t', s')"
  shows "(\<exists>sc. t' = t\<lparr>t_scores := sc, t_matches_completed := t_matches_completed t + of_nat (length is)\<rparr>) \<and> entries_only s s'"
  using assms
proof (induction "is" arbitrary: t s)
  case Nil
  then show ?case by (auto intro!: exI [of _ "t_scores t"])
next
  case (Cons i "is")
  then obtain t1 s1 where one: "run_one_match env accs tk i (t, s) = Inr (t1, s1)"
    and rest: "run_batch env accs tk is (t1, s1) = Inr (t', s')"
    by (auto simp: and_then_Inr_iff)
  show ?case
    using Cons.IH [OF rest] run_one_match_effect [OF one] by (auto simp: add.assoc intro: entries_only_trans)
qed

lemma run_matches_step:
  assumes "run_matches env ck tk op accs s = Inr s'" "accounts s k = Some (TournamentData t n)"
  shows "account_step t (accounts s' k)"
  using assms(1)
proof (cases rule: run_matchesE)
  case 1
  then show ?thesis using assms(2) by simp
next
  case (2 c u m r costs u' s1)
  have e: "\<exists>sc x. u' = u\<lparr>t_operator_costs := costs, t_scores := sc, t_matches_completed := x\<rparr>" "entries_only s s1"
    using run_batch_effect [OF 2(11)] by auto
  have "tournament_step u u'" using e(1) 2(6) by (auto simp: tournament_step_defs)
  moreover have "accounts s1 k = Some (TournamentData t n)"
    by (rule entries_only_tournament [OF e(2) assms(2)])
  ultimately show ?thesis using 2(2) assms(2) by (auto simp: 2(12))
qed

lemma finalize_any_step:
  assumes "finalize_any env ck tk op n c (t\<lparr>t_operator_costs := costs\<rparr>) s = Inr (c', t', s')" "t_state t = Running"
  shows "tournament_step t t'" "accounts s' = accounts s"
proof -
  have "tournament_step t t' \<and> accounts s' = accounts s"
    using assms
    by (auto simp: finalize_any_def finalize_empty_def finalize_winners_def Let_def check_Inr_iff and_then_Inr_iff
        tournament_step_defs split: if_splits)
  then show "tournament_step t t'" "accounts s' = accounts s" by auto
qed

lemma finalize_step:
  assumes ix: "finalize_tournament env ck tk nk op s = Inr s'" and k: "accounts s k = Some (TournamentData t n)"
  shows "account_step t (accounts s' k)"
  using ix
proof (rule finalize_tournamentE)
  fix c u m bump s1 costs c' u' s2
  assume h: "accounts s ck = Some (ConfigData c)" "accounts s tk = Some (TournamentData u m)" "accounts s nk = None"
    "t_state u = Running"
    "s1 = store nk (TournamentData (new_tournament (c_current_tournament_id c + 1) c (unix_timestamp env) bump) BASE_SPACE)
            (move_lamports op nk (rent_top_up env BASE_SPACE (lamports s nk)) s)"
    "(if t_participant_count (u\<lparr>t_operator_costs := costs\<rparr>) = 0 then finalize_empty else finalize_winners) env ck tk op m c
       (u\<lparr>t_operator_costs := costs\<rparr>) s1 = Inr (c', u', s2)"
    "s' = store ck (ConfigData (c'\<lparr>c_current_tournament_id := c_current_tournament_id c + 1\<rparr>))
            (store tk (TournamentData u' m) s2)"
  have "finalize_any env ck tk op m c (u\<lparr>t_operator_costs := costs\<rparr>) s1 = Inr (c', u', s2)"
    using h(6) by (simp add: finalize_any_def)
  note e = finalize_any_step [OF this h(4)]
  have "k \<noteq> nk" "k \<noteq> ck" using h(1,3) k by auto
  then show ?thesis using e(1) h(2) k by (auto simp: h(7) e(2) h(5))
qed

lemma close_entry_step:
  assumes ix: "close_entry env ck tk ek p op s = Inr s'" and k: "accounts s k = Some (TournamentData t n)"
  shows "account_step t (accounts s' k)"
  using ix
proof (rule close_entryE)
  fix c e u m c' u' s1
  assume h: "accounts s ck = Some (ConfigData c)" "accounts s tk = Some (TournamentData u m)"
    "accounts s ek = Some (EntryData e)" "t_state u = Payout"
    "(if \<not> e_paid_out e \<and> 0 < t_winner_count u \<and> t_min_winning_score u \<le> e_score e
      then settle_entry env ck tk p m c u s else Inr (c, u, s)) = Inr (c', u', s1)"
    "s' = close_account ek p (store ck (ConfigData c')
            (store tk (TournamentData (u'\<lparr>t_entries_remaining := t_entries_remaining u' - 1\<rparr>) m) s1))"
  have "(\<exists>x. u' = u\<lparr>t_claims_processed := x\<rparr>) \<and> accounts s1 = accounts s"
    using h(5)
    by (auto split: if_splits elim!: settle_entryE intro: exI [of _ "t_claims_processed u"])
  then have "tournament_step u (u'\<lparr>t_entries_remaining := t_entries_remaining u' - 1\<rparr>)" "accounts s1 = accounts s"
    using h(4) by (auto simp: tournament_step_defs)
  moreover have "k \<noteq> ck" "k \<noteq> ek" using h(1,3) k by auto
  ultimately show ?thesis using h(2) k by (auto simp: h(6))
qed

section \<open>The machine\<close>

lemma dispatch_step:
  assumes "dispatch env ix s = Inr s'" "accounts s k = Some (TournamentData t n)"
  shows "account_step t (accounts s' k)"
  using assms
  by (cases ix) (auto intro: initialize_config_step update_config_step withdraw_fees_step enter_step reveal_step
      refund_step payout_step close_registration_step close_reveal_step forfeit_step run_matches_step finalize_step
      close_entry_step close_tournament_step)

end
