(* ===== verification/Supply.thy ===== *)
theory Supply
  imports Phases
begin

text \<open>
  No instruction creates or destroys lamports. The handlers change balances by hand with wrapping
  arithmetic, so this needs the ledger invariant: every amount that is taken off an account is there.
\<close>

lemma supply_pay:
  assumes "funded s" "a \<le> lamports s x"
  shows "lamport_supply (move_lamports x y a s) = lamport_supply s \<and> funded (move_lamports x y a s)"
  using supply_move [OF assms] funded_move [OF assms] by simp

lemma supply_close_store:
  "funded s \<Longrightarrow> lamport_supply (close_account k y (store k' d s)) = lamport_supply s"
  by (simp add: supply_close)

lemma initialize_config_supply:
  assumes "funded s" "initialize_config env ck tk admin params s = Inr s'"
  shows "lamport_supply s' = lamport_supply s"
  using assms(2)
  by (rule initialize_configE) (use assms(1) in \<open>simp add: supply_pay\<close>)

lemma enter_supply:
  assumes "funded s" "enter_tournament env ck tk ek p cm s = Inr s'"
  shows "lamport_supply s' = lamport_supply s"
  using assms(2)
  by (rule enter_tournamentE) (use assms(1) in \<open>simp add: supply_pay\<close>)

lemma withdraw_fees_supply:
  assumes "funded s" "withdraw_fees env ck admin s = Inr s'"
  shows "lamport_supply s' = lamport_supply s"
  using assms(2)
proof (rule withdraw_feesE)
  fix c amount
  assume a: "amount = min (c_accumulated_fees c) (saturating_sub (lamports s ck) (minimum_balance env CONFIG_LEN))"
    and s': "s' = move_lamports ck admin amount (store ck (ConfigData (c\<lparr>c_accumulated_fees := c_accumulated_fees c - amount\<rparr>)) s)"
  have "amount \<le> lamports s ck"
    by (simp add: a word_le_nat_alt unat_min_word unat_saturating_sub)
  then show ?thesis using assms(1) by (simp add: s' supply_pay)
qed

lemma refund_supply:
  assumes inv: "ledger_inv net s" and ix: "claim_refund env tk ek p s = Inr s'"
  shows "lamport_supply s' = lamport_supply s"
proof -
  obtain e t n u where h: "accounts s tk = Some (TournamentData t n)" "accounts s ek = Some (EntryData e)"
    "e_tournament e = tk" "t_state t = Registration"
    "s' = close_account ek p (store tk (TournamentData u n) (move_lamports tk p (t_stake t) s))"
    using ix by (auto elim!: claim_refundE)
  have ent: "entries_of s tk ek = Some e" using h by (simp add: entries_of_iff)
  have "t_stake t \<le> lamports s tk"
    using stake_le_pool(2) [OF tournament_inv_of [OF inv h(1)] _ ent] h(4) by (simp add: word_le_nat_alt)
  then show ?thesis using ledger_inv_funded [OF inv] by (simp add: h(5) supply_close_store supply_pay)
qed

lemma payout_supply:
  assumes inv: "ledger_inv net s" and ix: "claim_payout env tk ek p s = Inr s'"
  shows "lamport_supply s' = lamport_supply s"
proof -
  obtain e t n u payout where h: "accounts s tk = Some (TournamentData t n)" "accounts s ek = Some (EntryData e)"
    "e_tournament e = tk" "t_state t = Payout" "t_min_winning_score t \<le> e_score e"
    "payout = prize_share t"
    "s' = close_account ek p (store tk (TournamentData u n)
            (store ek (EntryData (e\<lparr>e_paid_out := True\<rparr>)) (move_lamports tk p payout s)))"
    using ix by (auto elim!: claim_payoutE simp: prize_share_def)
  have ent: "entries_of s tk ek = Some e" using h by (simp add: entries_of_iff)
  have "payout \<le> lamports s tk"
    using prize_available [OF tournament_inv_of [OF inv h(1)] h(4) ent h(5)] by (simp add: h(6) word_le_nat_alt)
  then show ?thesis using ledger_inv_funded [OF inv] by (simp add: h(7) supply_close_store supply_pay)
qed

lemma close_reveal_supply:
  assumes inv: "ledger_inv net s" and ix: "close_reveal env ck tk re rp op s = Inr s'"
  shows "lamport_supply s' = lamport_supply s"
proof -
  obtain c t n costs t1 where "accounts s ck = Some (ConfigData c)"
    and h: "accounts s tk = Some (TournamentData t n)" "t_state t = Reveal" "t1 = t\<lparr>t_operator_costs := costs\<rparr>"
    and res: "(if t_participant_count t1 = 0
      then Inr (store tk (TournamentData (start_empty t1) n) s)
      else and_then (if t_participant_count t1 mod 2 = 1 then refund_odd tk re rp t1 s else Inr (t1, s)) (\<lambda>(t, s).
        if t_participant_count t = 0 then Inr (store tk (TournamentData (start_empty t) n) s)
        else check (48 \<le> length (slot_hashes env)) (Arena SlotHashUnavailable)
          (Inr (store tk (TournamentData (start_running (take 32 (drop 16 (slot_hashes env))) t) n) s)))) = Inr s'"
    using ix by (rule close_revealE)
  note f = ledger_inv_funded [OF inv] and ti = tournament_inv_of [OF inv h(1)]
  have odd: "lamport_supply s2 = lamport_supply s"
    if r: "refund_odd tk re rp t1 s = Inr (t2, s2)" and n: "t_participant_count t1 \<noteq> 0" for t2 s2
  proof -
    have "unat (t_participant_count t) \<noteq> 0" using n by (simp add: h(3) unat_eq_0)
    then have "0 < card (dom (entries_of s tk))" using inv_before_payout(1) [OF ti] h(2)
      by (metis TournamentState.distinct(9) gr0I)
    then obtain ek e where "entries_of s tk ek = Some e"
      by (metis card_gt_0_iff domD ex_in_conv)
    from stake_le_pool(2) [OF ti _ this] h(2) have "t_stake t1 \<le> lamports s tk" by (simp add: h(3) word_le_nat_alt)
    then show ?thesis using r f by (auto elim!: refund_oddE simp: supply_close supply_pay)
  qed
  show ?thesis
    using res odd by (auto simp: and_then_Inr_iff check_Inr_iff split: if_splits)
qed

lemma finalize_supply:
  assumes "network_ok net" "ledger_inv net s" "env_ok net env" "finalize_tournament env ck tk nk op s = Inr s'"
  shows "lamport_supply s' = lamport_supply s"
  using assms by (rule finalize_tournament_effect) simp

lemma close_entry_supply:
  assumes inv: "ledger_inv net s" and ix: "close_entry env ck tk ek p op s = Inr s'"
  shows "lamport_supply s' = lamport_supply s"
proof -
  obtain c e t n c' t' s1 where h:
    "accounts s ck = Some (ConfigData c)" "accounts s tk = Some (TournamentData t n)" "accounts s ek = Some (EntryData e)"
    "p = e_player e"
    "(if \<not> e_paid_out e \<and> 0 < t_winner_count t \<and> t_min_winning_score t \<le> e_score e
      then settle_entry env ck tk p n c t s else Inr (c, t, s)) = Inr (c', t', s1)"
    "s' = close_account ek p (store ck (ConfigData c')
            (store tk (TournamentData (t'\<lparr>t_entries_remaining := t_entries_remaining t' - 1\<rparr>) n) s1))"
    using ix by (rule close_entryE)
  have p: "wallet net p" using ledger_inv_entry [OF inv h(3)] by (simp add: entry_account_ok_def h(4))
  have "lamport_supply s1 = lamport_supply s \<and> funded s1"
  proof (cases "\<not> e_paid_out e \<and> 0 < t_winner_count t \<and> t_min_winning_score t \<le> e_score e")
    case True
    then have "settle_entry env ck tk p n c t s = Inr (c', t', s1)" using h(5) by simp
    then show ?thesis by (rule settle_entry_effect [OF inv h(1,2) p]) simp
  next
    case False
    with h(5) ledger_inv_funded [OF inv] show ?thesis by (auto split: if_splits)
  qed
  then show ?thesis by (simp add: h(6) supply_close_store)
qed

lemma close_tournament_supply:
  assumes "funded s" "close_tournament env ck tk op s = Inr s'"
  shows "lamport_supply s' = lamport_supply s"
  using assms(2)
  by (rule close_tournamentE)
    (use assms(1) in \<open>auto simp: and_then_Inr_iff supply_pay split: if_splits\<close>)

lemma run_matches_supply:
  assumes "run_matches env ck tk op accs s = Inr s'"
  shows "lamport_supply s' = lamport_supply s"
  using assms
proof (cases rule: run_matchesE)
  case (2 c t n m costs t' s1)
  then show ?thesis using run_batch_effect [OF 2(11)] by (simp add: 2(12) entries_only_def lamport_supply_def)
qed simp

lemma step_supply:
  assumes "network_ok net" "ledger_inv net s" "step net s s'"
  shows "lamport_supply s' = lamport_supply s"
  using assms(3)
proof cases
  case (execute env ix)
  note f = ledger_inv_funded [OF assms(2)]
  have plain: "update_config env ck admin params s = Inr s' \<Longrightarrow> ?thesis"
    "reveal_strategy env ek tk p x salt code s = Inr s' \<Longrightarrow> ?thesis"
    "close_registration env ck tk op s = Inr s' \<Longrightarrow> ?thesis"
    "forfeit_unrevealed env ck ek tk op s = Inr s' \<Longrightarrow> ?thesis"
    for ck admin params ek tk p x salt code op
    by (auto elim!: update_configE reveal_strategyE close_registrationE forfeit_unrevealedE)
  show ?thesis
    using execute
    by (cases ix) (auto intro: plain initialize_config_supply [OF f] enter_supply [OF f] withdraw_fees_supply [OF f]
        refund_supply [OF assms(2)] payout_supply [OF assms(2)] close_reveal_supply [OF assms(2)]
        finalize_supply [OF assms(1,2)] close_entry_supply [OF assms(2)] close_tournament_supply [OF f] run_matches_supply)
next
  case (deposit p k amount)
  then show ?thesis using supply_pay ledger_inv_funded [OF assms(2)] by (auto simp: system_transfer_Inr_iff)
qed

end
