(* ===== verification/Runtime.thy ===== *)
theory Runtime
  imports Supply
begin

text \<open>
  The transaction around an instruction. The runtime of the network looks at the accounts that a
  transaction names once the program has returned, and refuses the transaction if one of them would
  end below the rent for its data. A handler that succeeds can therefore still be refused. This theory
  states the documented rule, which instruction names which accounts, the instruction as the network
  executes it, and what the rule gives: an account of the program is always rent exempt.
\<close>

section \<open>The rule of the runtime\<close>

definition data_len :: "AccountData option \<Rightarrow> nat" where
  "data_len d =
     (case d of
        None \<Rightarrow> 0
      | Some (ConfigData c) \<Rightarrow> CONFIG_LEN
      | Some (TournamentData t n) \<Rightarrow> n
      | Some (EntryData e) \<Rightarrow> ENTRY_LEN)"

lemma data_len_simps [simp]:
  "data_len None = 0" "data_len (Some (ConfigData c)) = CONFIG_LEN" "data_len (Some (TournamentData t n)) = n"
  "data_len (Some (EntryData e)) = ENTRY_LEN"
  by (simp_all add: data_len_def)

datatype RentState = Uninitialized | RentPaying u64 nat | RentExempt

definition rent_state :: "Env \<Rightarrow> Ledger \<Rightarrow> Pubkey \<Rightarrow> RentState" where
  "rent_state env s k =
     (if lamports s k = 0 then Uninitialized
      else if minimum_balance env (data_len (accounts s k)) \<le> lamports s k then RentExempt
      else RentPaying (lamports s k) (data_len (accounts s k)))"

text \<open>An account may end empty or exempt; one below its rent may only stay so, not larger and not richer.\<close>

fun rent_transition :: "RentState \<Rightarrow> RentState \<Rightarrow> bool" where
  "rent_transition pre Uninitialized \<longleftrightarrow> True"
| "rent_transition pre RentExempt \<longleftrightarrow> True"
| "rent_transition (RentPaying l n) (RentPaying l' n') \<longleftrightarrow> n' = n \<and> l' \<le> l"
| "rent_transition pre (RentPaying l' n') \<longleftrightarrow> False"

lemma rent_transition_refl [simp]: "rent_transition r r"
  by (cases r) simp_all

section \<open>The accounts of an instruction\<close>

fun instruction_accounts :: "Instruction \<Rightarrow> Pubkey list" where
  "instruction_accounts (InitializeConfig ck tk admin params) = [ck, tk, admin]"
| "instruction_accounts (UpdateConfig ck admin params) = [ck, admin]"
| "instruction_accounts (WithdrawFees ck admin) = [ck, admin]"
| "instruction_accounts (EnterTournament ck tk ek player commitment) = [ck, tk, ek, player]"
| "instruction_accounts (RevealStrategy ek tk player strategy salt code) = [ek, tk, player]"
| "instruction_accounts (ClaimRefund tk ek player) = [tk, ek, player]"
| "instruction_accounts (ClaimPayout tk ek player) = [tk, ek, player]"
| "instruction_accounts (CloseRegistration ck tk operator) = [ck, tk, operator]"
| "instruction_accounts (CloseReveal ck tk re rp operator) =
     [ck, tk] @ case_option [] (\<lambda>k. [k]) re @ case_option [] (\<lambda>k. [k]) rp @ [operator]"
| "instruction_accounts (ForfeitUnrevealed ck ek tk operator) = [ck, ek, tk, operator]"
| "instruction_accounts (RunMatches ck tk operator accs) = [ck, tk, operator] @ accs"
| "instruction_accounts (FinalizeTournament ck tk nk operator) = [ck, tk, nk, operator]"
| "instruction_accounts (CloseEntry ck tk ek player operator) = [ck, tk, ek, player, operator]"
| "instruction_accounts (CloseTournament ck tk operator) = [ck, tk, operator]"

definition process :: "Env \<Rightarrow> Instruction \<Rightarrow> Ledger \<Rightarrow> Error + Ledger" where
  "process env ix s =
     and_then (dispatch env ix s) (\<lambda>s'.
     check (list_all (\<lambda>k. rent_transition (rent_state env s k) (rent_state env s' k)) (instruction_accounts ix))
       InsufficientFundsForRent (Inr s'))"

lemma process_dispatch: "process env ix s = Inr s' \<Longrightarrow> dispatch env ix s = Inr s'"
  by (auto simp: process_def and_then_Inr_iff check_Inr_iff)

lemma process_of_dispatch:
  "dispatch env ix s = Inr s' \<Longrightarrow>
     process env ix s =
       (if list_all (\<lambda>k. rent_transition (rent_state env s k) (rent_state env s' k)) (instruction_accounts ix)
        then Inr s' else Inl InsufficientFundsForRent)"
  by (simp add: process_def)

section \<open>An instruction changes only the accounts it names\<close>

definition unchanged :: "Pubkey \<Rightarrow> Ledger \<Rightarrow> Ledger \<Rightarrow> bool" where
  "unchanged k s s' \<longleftrightarrow> lamports s' k = lamports s k \<and> accounts s' k = accounts s k"

lemma unchanged_refl [simp]: "unchanged k s s"
  by (simp add: unchanged_def)

lemma unchanged_trans: "unchanged k s s1 \<Longrightarrow> unchanged k s1 s2 \<Longrightarrow> unchanged k s s2"
  by (simp add: unchanged_def)

lemma unchanged_ops [simp]:
  "k \<noteq> x \<Longrightarrow> unchanged k s (store x d s1) \<longleftrightarrow> unchanged k s s1"
  "k \<noteq> x \<Longrightarrow> k \<noteq> y \<Longrightarrow> unchanged k s (move_lamports x y a s1) \<longleftrightarrow> unchanged k s s1"
  "k \<noteq> x \<Longrightarrow> k \<noteq> y \<Longrightarrow> unchanged k s (close_account x y s1) \<longleftrightarrow> unchanged k s s1"
  "k \<noteq> x \<Longrightarrow> unchanged k s (remove_account x s1) \<longleftrightarrow> unchanged k s s1"
  by (simp_all add: unchanged_def move_other)

lemma run_one_match_unchanged:
  assumes "run_one_match env accs tk i (t, s) = Inr (t', s')" "k \<notin> set accs"
  shows "unchanged k s s'"
  using assms(1)
proof (cases rule: run_one_matchE)
  case (play ia ib ka kb ea eb sa sb r ea' eb' sc sc')
  have "k \<noteq> ka" "k \<noteq> kb" using play(21,22) assms(2) by auto
  then show ?thesis by (simp add: play(20))
qed simp

lemma run_batch_unchanged:
  "run_batch env accs tk is (t, s) = Inr (t', s') \<Longrightarrow> k \<notin> set accs \<Longrightarrow> unchanged k s s'"
proof (induction "is" arbitrary: t s)
  case (Cons i "is")
  then obtain t1 s1 where "run_one_match env accs tk i (t, s) = Inr (t1, s1)"
    and rest: "run_batch env accs tk is (t1, s1) = Inr (t', s')"
    by (auto simp: and_then_Inr_iff)
  then have "unchanged k s s1" using Cons.prems(2) by (blast intro: run_one_match_unchanged)
  then show ?case using Cons.IH [OF rest Cons.prems(2)] by (rule unchanged_trans)
qed simp

lemma close_reveal_unchanged:
  assumes "close_reveal env ck tk re rp op s = Inr s'" "k \<noteq> tk" "re \<noteq> Some k" "rp \<noteq> Some k"
  shows "unchanged k s s'"
  using assms(1)
proof (rule close_revealE)
  fix c t n costs t1
  assume r: "(if t_participant_count t1 = 0
      then Inr (store tk (TournamentData (start_empty t1) n) s)
      else and_then (if t_participant_count t1 mod 2 = 1 then refund_odd tk re rp t1 s else Inr (t1, s)) (\<lambda>(t, s).
        if t_participant_count t = 0 then Inr (store tk (TournamentData (start_empty t) n) s)
        else check (48 \<le> length (slot_hashes env)) (Arena SlotHashUnavailable)
          (Inr (store tk (TournamentData (start_running (take 32 (drop 16 (slot_hashes env))) t) n) s)))) = Inr s'"
  have "unchanged k s s1" if "refund_odd tk re rp t1 s = Inr (v, s1)" for v s1
    using that by (rule refund_oddE) (use assms(2-) in auto)
  with r assms(2) show ?thesis
    by (auto simp: and_then_Inr_iff check_Inr_iff split: if_splits)
qed

lemma finalize_unchanged:
  assumes "finalize_tournament env ck tk nk op s = Inr s'" "k \<notin> {ck, tk, nk, op}"
  shows "unchanged k s s'"
  using assms(1)
proof (rule finalize_tournamentE)
  fix c t n bump s1 costs c' t' s2
  assume s1: "s1 = store nk (TournamentData (new_tournament (c_current_tournament_id c + 1) c (unix_timestamp env) bump) BASE_SPACE)
      (move_lamports op nk (rent_top_up env BASE_SPACE (lamports s nk)) s)"
    and f: "(if t_participant_count (t\<lparr>t_operator_costs := costs\<rparr>) = 0 then finalize_empty else finalize_winners) env ck tk op n c
       (t\<lparr>t_operator_costs := costs\<rparr>) s1 = Inr (c', t', s2)"
    and s': "s' = store ck (ConfigData (c'\<lparr>c_current_tournament_id := c_current_tournament_id c + 1\<rparr>))
            (store tk (TournamentData t' n) s2)"
  have "unchanged k s1 s2"
    using f assms(2)
    by (auto simp: finalize_empty_def finalize_winners_def Let_def check_Inr_iff and_then_Inr_iff split: if_splits)
  moreover have "unchanged k s s1" using assms(2) by (simp add: s1)
  ultimately have "unchanged k s s2" by (blast intro: unchanged_trans)
  then show ?thesis using assms(2) by (simp add: s')
qed

lemma close_entry_unchanged:
  assumes "close_entry env ck tk ek p op s = Inr s'" "k \<notin> {ck, tk, ek, p}"
  shows "unchanged k s s'"
  using assms(1)
proof (rule close_entryE)
  fix c e t n c' t' s1
  assume f: "(if \<not> e_paid_out e \<and> 0 < t_winner_count t \<and> t_min_winning_score t \<le> e_score e
      then settle_entry env ck tk p n c t s else Inr (c, t, s)) = Inr (c', t', s1)"
    and s': "s' = close_account ek p (store ck (ConfigData c')
            (store tk (TournamentData (t'\<lparr>t_entries_remaining := t_entries_remaining t' - 1\<rparr>) n) s1))"
  have "unchanged k s s1" using f assms(2) by (auto elim!: settle_entryE split: if_splits)
  then show ?thesis using assms(2) by (simp add: s')
qed

lemma plain_unchanged:
  "initialize_config env ck tk admin params s = Inr s' \<Longrightarrow> k \<notin> {ck, tk, admin} \<Longrightarrow> unchanged k s s'"
  "update_config env ck admin params' s = Inr s' \<Longrightarrow> k \<notin> {ck, admin} \<Longrightarrow> unchanged k s s'"
  "withdraw_fees env ck admin s = Inr s' \<Longrightarrow> k \<notin> {ck, admin} \<Longrightarrow> unchanged k s s'"
  "enter_tournament env ck tk ek p cm s = Inr s' \<Longrightarrow> k \<notin> {ck, tk, ek, p} \<Longrightarrow> unchanged k s s'"
  "reveal_strategy env ek tk p st salt code s = Inr s' \<Longrightarrow> k \<notin> {tk, ek, p} \<Longrightarrow> unchanged k s s'"
  "claim_refund env tk ek p s = Inr s' \<Longrightarrow> k \<notin> {tk, ek, p} \<Longrightarrow> unchanged k s s'"
  "claim_payout env tk ek p s = Inr s' \<Longrightarrow> k \<notin> {tk, ek, p} \<Longrightarrow> unchanged k s s'"
  "close_registration env ck tk op s = Inr s' \<Longrightarrow> k \<notin> {ck, tk, op} \<Longrightarrow> unchanged k s s'"
  "forfeit_unrevealed env ck ek tk op s = Inr s' \<Longrightarrow> k \<notin> {ck, tk, ek, op} \<Longrightarrow> unchanged k s s'"
  "close_tournament env ck tk op s = Inr s' \<Longrightarrow> k \<notin> {ck, tk, op} \<Longrightarrow> unchanged k s s'"
  by (auto elim!: initialize_configE update_configE withdraw_feesE enter_tournamentE reveal_strategyE claim_refundE
      claim_payoutE close_registrationE forfeit_unrevealedE close_tournamentE simp: and_then_Inr_iff split: if_splits)

lemma run_matches_unchanged:
  assumes "run_matches env ck tk op accs s = Inr s'" "k \<noteq> tk" "k \<notin> set accs"
  shows "unchanged k s s'"
  using assms(1)
proof (cases rule: run_matchesE)
  case (2 c t n m costs t' s1)
  then show ?thesis using run_batch_unchanged [OF 2(11) assms(3)] assms(2) by simp
qed simp

text \<open>The frame of the whole program.\<close>

lemma dispatch_unchanged:
  assumes "dispatch env ix s = Inr s'" "k \<notin> set (instruction_accounts ix)"
  shows "unchanged k s s'"
proof (cases ix)
  case (CloseReveal ck tk re rp op)
  with assms show ?thesis by (intro close_reveal_unchanged [of env ck tk re rp op]) (auto split: option.splits)
qed (use assms in \<open>auto intro: plain_unchanged run_matches_unchanged finalize_unchanged close_entry_unchanged\<close>)

section \<open>When the rule is met\<close>

definition rent_kept :: "Env \<Rightarrow> Ledger \<Rightarrow> Ledger \<Rightarrow> Pubkey \<Rightarrow> bool" where
  "rent_kept env s s' k \<longleftrightarrow> rent_transition (rent_state env s k) (rent_state env s' k)"

lemma process_eq:
  "dispatch env ix s = Inr s' \<Longrightarrow>
     process env ix s = (if \<forall>k \<in> set (instruction_accounts ix). rent_kept env s s' k then Inr s' else Inl InsufficientFundsForRent)"
  by (simp add: process_of_dispatch rent_kept_def list_all_iff)

lemma process_Inr_iff:
  "process env ix s = Inr s' \<longleftrightarrow>
     dispatch env ix s = Inr s' \<and> (\<forall>k \<in> set (instruction_accounts ix). rent_kept env s s' k)"
  by (auto simp: process_def and_then_Inr_iff check_Inr_iff rent_kept_def list_all_iff)

lemma rent_kept_exempt: "minimum_balance env (data_len (accounts s' k)) \<le> lamports s' k \<Longrightarrow> rent_kept env s s' k"
  by (simp add: rent_kept_def rent_state_def)

lemma rent_kept_empty: "lamports s' k = 0 \<Longrightarrow> rent_kept env s s' k"
  by (simp add: rent_kept_def rent_state_def)

lemma rent_kept_same:
  "lamports s' k = lamports s k \<Longrightarrow> data_len (accounts s' k) = data_len (accounts s k) \<Longrightarrow> rent_kept env s s' k"
  by (simp add: rent_kept_def rent_state_def)

text \<open>An account that was exempt, or that had no data, must stay exempt or become empty.\<close>

lemma rent_kept_iff:
  assumes "minimum_balance env (data_len (accounts s k)) \<le> lamports s k \<or> data_len (accounts s k) \<noteq> data_len (accounts s' k)"
  shows "rent_kept env s s' k \<longleftrightarrow>
    lamports s' k = 0 \<or> minimum_balance env (data_len (accounts s' k)) \<le> lamports s' k"
  using assms by (auto simp: rent_kept_def rent_state_def)

text \<open>An instruction that moves no lamports and resizes no account is never refused.\<close>

lemma process_still:
  assumes "dispatch env ix s = Inr s'" "lamports s' = lamports s" "\<And>k. data_len (accounts s' k) = data_len (accounts s k)"
  shows "process env ix s = Inr s'"
  using assms by (simp add: process_Inr_iff rent_kept_same)

section \<open>The ledgers the network can reach\<close>

inductive live :: "Network \<Rightarrow> Ledger \<Rightarrow> bool" for net where
  begins: "accounts s = Map.empty \<Longrightarrow> funded s \<Longrightarrow> live net s"
| transact: "live net s \<Longrightarrow> env_ok net env \<Longrightarrow> honest net ix \<Longrightarrow> process env ix s = Inr s' \<Longrightarrow> live net s'"
| donate: "live net s \<Longrightarrow> wallet net p \<Longrightarrow> system_transfer p k amount s = Inr s' \<Longrightarrow> live net s'"

lemma live_reachable: "live net s \<Longrightarrow> reachable net s"
proof (induction rule: live.induct)
  case (transact s env ix s')
  then show ?case by (blast intro: reachable.more step.execute process_dispatch)
qed (blast intro: reachable.intros step.deposit)+

definition rent_exempt :: "Network \<Rightarrow> Ledger \<Rightarrow> bool" where
  "rent_exempt net s \<longleftrightarrow> (\<forall>k d. accounts s k = Some d \<longrightarrow> rent_of net (data_len (Some d)) \<le> lamports s k)"

lemma rent_of_mono: "network_ok net \<Longrightarrow> m \<le> n \<Longrightarrow> rent_of net m \<le> rent_of net n"
  by (auto simp: network_ok_def word_le_nat_alt dest: monoD)

text \<open>What the ledger invariant says on its own; only a tournament may have outgrown its rent.\<close>

lemma inv_rent:
  assumes "network_ok net" "0 < rent_of net 0" "ledger_inv net s" "accounts s k = Some d"
  shows "0 < data_len (Some d)" "lamports s k \<noteq> 0"
    "(\<And>t n. d \<noteq> TournamentData t n) \<Longrightarrow> rent_of net (data_len (Some d)) \<le> lamports s k"
proof -
  note ok = ledger_inv_account [OF assms(3,4)]
  have pos: "0 < unat (rent_of net m)" for m
    using rent_of_mono [OF assms(1), of 0 m] assms(2) by (simp add: word_le_nat_alt word_less_nat_alt)
  show "0 < data_len (Some d)"
    using ok by (cases d) (auto simp: tournament_account_ok_def tournament_inv_def vectors_ok_def CONFIG_LEN_def
        ENTRY_LEN_def BASE_SPACE_def)
  show exempt: "rent_of net (data_len (Some d)) \<le> lamports s k" if "\<And>t n. d \<noteq> TournamentData t n"
    using ok that by (cases d) (auto simp: config_account_ok_def entry_account_ok_def word_le_nat_alt)
  have "0 < unat (lamports s k)"
  proof (cases "\<exists>t n. d = TournamentData t n")
    case True
    then show ?thesis
      using ok pos [of BASE_SPACE]
      by (auto simp: tournament_account_ok_def tournament_inv_def funds_ok_def split: if_splits)
  next
    case False
    then show ?thesis using exempt pos [of "data_len (Some d)"] by (auto simp: word_le_nat_alt)
  qed
  then show "lamports s k \<noteq> 0" by auto
qed

lemma process_rent_exempt:
  assumes net: "network_ok net" "0 < rent_of net 0" and env: "env_ok net env"
    and inv: "ledger_inv net s'" and pre: "rent_exempt net s" and ix: "process env ix s = Inr s'"
  shows "rent_exempt net s'"
  unfolding rent_exempt_def
proof (intro allI impI)
  fix k d assume d: "accounts s' k = Some d"
  note inv_rent = inv_rent [OF net inv d]
  have rent: "minimum_balance env = rent_of net" using env by (simp add: env_ok_def)
  show "rent_of net (data_len (Some d)) \<le> lamports s' k"
  proof (cases "k \<in> set (instruction_accounts ix)")
    case False
    then have "unchanged k s s'" using ix by (intro dispatch_unchanged process_dispatch)
    then have "lamports s' k = lamports s k" "accounts s k = Some d" using d by (simp_all add: unchanged_def)
    then show ?thesis using pre by (simp add: rent_exempt_def)
  next
    case True
    have "minimum_balance env (data_len (accounts s k)) \<le> lamports s k \<or> data_len (accounts s k) \<noteq> data_len (accounts s' k)"
      using pre inv_rent(1) d by (cases "accounts s k") (simp_all add: rent rent_exempt_def)
    moreover have "rent_kept env s s' k" using ix True by (simp add: process_Inr_iff)
    ultimately show ?thesis using inv_rent(2) d by (simp add: rent_kept_iff rent)
  qed
qed

lemma live_rent_exempt:
  assumes net: "network_ok net" "0 < rent_of net 0" and s: "live net s"
  shows "rent_exempt net s"
  using s
proof (induction rule: live.induct)
  case (begins s)
  then show ?case by (simp add: rent_exempt_def)
next
  case (transact s env ix s')
  have "live net s'" by (rule live.transact [OF transact(1-4)])
  then have "ledger_inv net s'" by (intro reachable_inv [OF net(1)] live_reachable)
  then show ?case by (rule process_rent_exempt [OF net transact(2) _ transact(5,4)])
next
  case (donate s p k amount s')
  note inv = reachable_inv [OF net(1) live_reachable [OF donate(1)]]
  have s': "amount \<le> lamports s p" "s' = move_lamports p k amount s"
    using donate(3) by (simp_all add: system_transfer_Inr_iff)
  show ?case
    unfolding rent_exempt_def
  proof (intro allI impI)
    fix x d assume "accounts s' x = Some d"
    then have d: "accounts s x = Some d" by (simp add: s'(2))
    have "lamports s x \<le> lamports s' x"
      unfolding s'(2) using wallet_neq [OF inv donate(2), of x] d by (intro move_mono ledger_inv_funded [OF inv] s'(1)) simp
    with donate(4) d show "rent_of net (data_len (Some d)) \<le> lamports s' x"
      unfolding rent_exempt_def by (blast intro: order_trans)
  qed
qed

lemma live_rent_tournament:
  assumes "network_ok net" "0 < rent_of net 0" "live net s" "accounts s tk = Some (TournamentData t n)"
  shows "rent_of net n \<le> lamports s tk"
  using live_rent_exempt [OF assms(1-3)] assms(4) by (fastforce simp: rent_exempt_def)

end
