(* ===== verification/Scenario.thy ===== *)
theory Scenario
  imports Runtime
begin

text \<open>
  A concrete network and a run of the program on it, from an empty ledger to the payout phase of a
  tournament of two players. The run is evaluated by rewriting; it shows that the hypotheses of the
  properties about reachable ledgers can be met.
\<close>

section \<open>A network\<close>

text \<open>
  Derived addresses are odd and wallets are even; the derivation reads a few of the seed bytes, the
  hash is the identity, and the rent is the same for all sizes.
\<close>

definition demo_derive :: "u8 list list \<Rightarrow> Pubkey \<times> u8" where
  "demo_derive seeds =
     (case seeds of
        [_, tid] \<Rightarrow> (256 * ucast (hd tid) + 3, 255)
      | [_, tk, p] \<Rightarrow> (65536 * ucast (hd (tl tk)) + 256 * ucast (hd p) + 5, 255)
      | _ \<Rightarrow> (1, 255))"

definition demo_net :: Network where
  "demo_net = \<lparr>derive = demo_derive, rent_of = (\<lambda>_. 500)\<rparr>"

definition demo_env :: "i64 \<Rightarrow> Pubkey \<Rightarrow> Env" where
  "demo_env now signer = \<lparr>
     unix_timestamp = now, minimum_balance = (\<lambda>_. 500), rent_top_up = (\<lambda>n bal. 500 - min bal 500),
     sha256 = id, slot_hashes = replicate 48 0, find_program_address = demo_derive,
     create_program_address = (\<lambda>seeds bump. Some (fst (demo_derive seeds))),
     is_signer = (\<lambda>k. k = signer)\<rparr>"

lemma demo_derive_seeds:
  "demo_derive config_seeds = (1, 255)"
  "demo_derive (tournament_seeds tid) = (256 * ucast (ucast tid :: u8) + 3, 255)"
  "demo_derive (entry_seeds tk p) = (65536 * ucast (ucast (drop_bit 8 tk) :: u8) + 256 * ucast (ucast p :: u8) + 5, 255)"
  by (simp_all add: demo_derive_def config_seeds_def tournament_seeds_def u32_to_le_bytes_def
      entry_seeds_def pubkey_bytes_def upt_rec)

section \<open>The run\<close>

definition demo_params :: InitializeConfigParams where
  "demo_params = \<lparr>ip_operator = 4, ip_stake = 1000, ip_min_participants = 2, ip_max_participants = 10,
     ip_registration_duration = 100, ip_matches_per_player = 49, ip_reveal_duration = 100\<rparr>"

definition demo_wallets :: "Pubkey \<Rightarrow> u64" where
  "demo_wallets k = (if k \<in> {2, 4, 6, 8} then 1000000 else 0)"

definition demo_start :: Ledger where
  "demo_start = \<lparr>lamports = demo_wallets, accounts = Map.empty\<rparr>"

text \<open>Player 6 commits to defecting always, player 8 to a program of one instruction.\<close>

definition demo_commitment6 :: "u8 list" where
  "demo_commitment6 = 1 # replicate 16 0"

definition demo_commitment8 :: "u8 list" where
  "demo_commitment8 = 9 # 0 # replicate 16 0"

definition demo_setup :: "(Env \<times> Instruction) list" where
  "demo_setup =
    [(demo_env 0 2, InitializeConfig 1 3 2 demo_params),
     (demo_env 10 6, EnterTournament 1 3 1541 6 demo_commitment6),
     (demo_env 20 8, EnterTournament 1 3 2053 8 demo_commitment8)]"

definition demo_reveals :: "(Env \<times> Instruction) list" where
  "demo_reveals =
    [(demo_env 110 6, RevealStrategy 1541 3 6 Strategy_AlwaysDefect (replicate 16 0) None),
     (demo_env 120 8, RevealStrategy 2053 3 8 Strategy_Custom (replicate 16 0) (Some [0])),
     (demo_env 201 4, CloseReveal 1 3 None None 4)]"

definition demo_matches :: "(Env \<times> Instruction) list" where
  "demo_matches =
    [(demo_env 202 4, RunMatches 1 3 4 [1541, 2053]),
     (demo_env 203 4, FinalizeTournament 1 3 259 4)]"

fun run_all :: "(Env \<times> Instruction) list \<Rightarrow> Ledger \<Rightarrow> Error + Ledger" where
  "run_all [] s = Inr s"
| "run_all ((env, ix) # rest) s = and_then (dispatch env ix s) (run_all rest)"

section \<open>Evaluation\<close>

text \<open>Rewriting stays out of what follows a check or a bind until the first part is a value.\<close>

lemma and_then_weak_cong: "r = r' \<Longrightarrow> and_then r f = and_then r' f"
  by simp

lemma check_weak_cong: "c = c' \<Longrightarrow> check c e k = check c' e k"
  by simp

lemmas ledger_eval =
  load_config_def load_tournament_def load_entry_def store_def move_lamports_def debit_def credit_def
  system_transfer_def init_account_def realloc_account_def close_account_def remove_account_def
  seeds_ok_def demo_env_def demo_derive_seeds Let_def


section \<open>The ledgers on the way\<close>

definition demo_config :: Config where
  "demo_config = initial_config 2 demo_params 255"

definition demo_tournament :: Tournament where
  "demo_tournament = register_player 8 (register_player 6 (new_tournament 0 demo_config 0 255))"

definition demo_entry6 :: Entry where
  "demo_entry6 = new_entry 3 6 0 demo_commitment6 10 255"

definition demo_entry8 :: Entry where
  "demo_entry8 = new_entry 3 8 1 demo_commitment8 20 255"

text \<open>Registration is open and both players have entered.\<close>

definition demo_registered :: Ledger where
  "demo_registered = \<lparr>
     lamports = demo_wallets(1 := 500, 2 := 999000, 1541 := 500, 6 := 998500, 2053 := 500, 8 := 998500, 3 := 2500),
     accounts = [1 \<mapsto> ConfigData demo_config, 1541 \<mapsto> EntryData demo_entry6, 2053 \<mapsto> EntryData demo_entry8,
       3 \<mapsto> TournamentData demo_tournament (BASE_SPACE + 2 * BYTES_PER_PLAYER)]\<rparr>"

lemmas demo_states = demo_config_def demo_tournament_def demo_entry6_def demo_entry8_def
  initial_config_def new_tournament_def demo_params_def new_entry_def register_player_def BASE_SPACE_def BYTES_PER_PLAYER_def

lemma demo_setup_run: "run_all demo_setup demo_start = Inr demo_registered"
  by (simp add: demo_setup_def demo_start_def demo_registered_def demo_wallets_def initialize_config_def enter_tournament_def
      demo_states ledger_eval cong: and_then_weak_cong check_weak_cong)


text \<open>The reveal phase has begun.\<close>

definition demo_revealing :: Ledger where
  "demo_revealing = \<lparr>
     lamports = lamports demo_registered,
     accounts = [1 \<mapsto> ConfigData demo_config, 1541 \<mapsto> EntryData demo_entry6, 2053 \<mapsto> EntryData demo_entry8,
       3 \<mapsto> TournamentData (demo_tournament\<lparr>t_state := Reveal, t_reveal_ends := 200\<rparr>) (BASE_SPACE + 2 * BYTES_PER_PLAYER)]\<rparr>"

lemma demo_close_registration_run:
  "dispatch (demo_env 100 4) (CloseRegistration 1 3 4) demo_registered = Inr demo_revealing"
  by (simp add: demo_revealing_def demo_registered_def close_registration_def operator_accounts_def checked_add_def
      demo_states ledger_eval cong: and_then_weak_cong check_weak_cong)

text \<open>Everything is revealed and one match is to be played.\<close>

definition demo_running :: Ledger where
  "demo_running = \<lparr>
     lamports = lamports demo_registered,
     accounts = [1 \<mapsto> ConfigData demo_config,
       1541 \<mapsto> EntryData (demo_entry6\<lparr>e_strategy := Strategy_AlwaysDefect, e_revealed := True\<rparr>),
       2053 \<mapsto> EntryData (demo_entry8\<lparr>e_strategy := Strategy_Custom, e_revealed := True, e_bytecode_len := 1,
         e_bytecode := 0 # replicate 63 0\<rparr>),
       3 \<mapsto> TournamentData (demo_tournament\<lparr>t_state := Running, t_matches_per_player := 1, t_matches_total := 1,
         t_reveal_ends := 200, t_reveals_completed := 2, t_strategies := [1, 9]\<rparr>) (BASE_SPACE + 2 * BYTES_PER_PLAYER)]\<rparr>"

lemma mix_seed_zero: "mix_seed seed 0 = seed"
  by (simp add: mix_seed_def u32_to_le_bytes_def)

lemma two_players: "effective_k 2 k = 1" "calculate_match_count 2 1 seed = 1"
  by (simp_all add: effective_k_def calculate_match_count_def calculate_match_count_inner_def div_ceil_def)

lemmas reveal_eval = reveal_strategy_def check_commitment_def validate_bytecode_iff well_formed_def
  plain_ops_def MAX_BYTECODE_LEN_def custom_preimage_def builtin_preimage_def demo_commitment6_def
  demo_commitment8_def set_strategy_def

lemma demo_reveals_run: "run_all demo_reveals demo_revealing = Inr demo_running"
  by (simp add: demo_reveals_def demo_running_def demo_revealing_def demo_registered_def reveal_eval
      close_reveal_def operator_accounts_def checked_add_def start_running_def mix_seed_zero two_players
      demo_states ledger_eval cong: and_then_weak_cong check_weak_cong)

lemma demo_reveal_run:
  "\<exists>s'. reveal_strategy (demo_env 110 6) 1541 3 6 Strategy_AlwaysDefect (replicate 16 0) None demo_revealing = Inr s'"
  "\<exists>s'. reveal_strategy (demo_env 120 8) 2053 3 8 Strategy_Custom (replicate 16 0) (Some [0]) demo_revealing = Inr s'"
  by (simp_all add: demo_revealing_def demo_registered_def reveal_eval demo_states ledger_eval
      cong: and_then_weak_cong check_weak_cong)

text \<open>The seed of zeros leaves the generator in its absorbing state, so the match has twenty rounds.\<close>

lemma zero_seed: "rng_new (replicate 32 0) 0 = \<lparr>rng_state = 0\<rparr>"
proof -
  have "seed_mix (replicate 32 0) = 0" by (simp add: seed_mix_def numeral_eq_Suc)
  then have "rng_state (rng_new (replicate 32 0) 0) = 0"
    by (simp add: rng_new_def rng_state_warm_up xorshift_funpow_eq_0_iff)
  then show ?thesis by (cases "rng_new (replicate 32 0) 0") simp
qed

lemma zero_rounds: "determine_round_count \<lparr>rng_state = 0\<rparr> standard = (20, \<lparr>rng_state = 0\<rparr>)"
  by (simp add: determine_round_count_def round_count_loop.simps standard_def next_percent_def next_u32_def
      next_u64_def Let_def xorshift_def word_less_nat_alt)

lemma defect_cooperate_totals:
  fixes rng n
  defines "st \<equiv> play_rounds (Builtin (strategy_new AlwaysDefect)) (Custom [0]) rng n"
  shows "total_a st = of_nat n * 5" "total_b st = 0"
proof -
  have moves: "fst (execute_player_strategy (Builtin (strategy_new AlwaysDefect)) opp my r g) = Defect"
    "fst (execute_player_strategy (Custom [0]) opp my r g) = Cooperate" for opp my r g
    using always_cooperate_run [of opp my r g]
    by (simp_all add: execute_player_strategy_def execute_strategy_def strategy_new_def always_cooperate_code_def)
  show "total_a st = of_nat n * 5" unfolding st_def
    by (induction n) (simp_all add: play_rounds_Suc match_round_simps match_init_def moves distrib_right)
  show "total_b st = 0" unfolding st_def
    by (induction n) (simp_all add: play_rounds_Suc match_round_simps match_init_def moves)
qed

lemma demo_match:
  "total_score_a (run_match (Builtin (strategy_new AlwaysDefect)) (Custom [0]) (replicate 32 0) 0 2) = 100"
  "total_score_b (run_match (Builtin (strategy_new AlwaysDefect)) (Custom [0]) (replicate 32 0) 0 2) = 0"
  by (simp_all add: run_match_def round_config_def zero_seed zero_rounds defect_cooperate_totals)

lemma demo_pairing: "get_pairing_for_match 2 1 seed 0 = Some (Some (0, 1))"
proof -
  have "calculate_match_count_inner 2 1 = 1"
    using two_players(2) by (simp add: calculate_match_count_def)
  moreover have "unrank_pair 0 = Some (0, 1)"
    by (simp add: unrank_pair_def newton_loop.simps rank_down.simps rank_up.simps word_less_nat_alt)
  ultimately show ?thesis
    by (simp add: get_pairing_for_match_def feistel_permute_def canonical_to_pair_round_robin_def)
qed

text \<open>The tournament is over: player 6 has won the pool of both stakes.\<close>

definition demo_won :: Tournament where
  "demo_won = demo_tournament\<lparr>t_state := Payout, t_matches_per_player := 1, t_matches_total := 1,
     t_matches_completed := 1, t_min_winning_score := 100, t_winner_count := 1, t_winner_pool := 2000,
     t_payout_started_at := 203, t_reveal_ends := 200, t_reveals_completed := 2,
     t_scores := [100, 0], t_strategies := [1, 9]\<rparr>"

definition demo_winner :: Entry where
  "demo_winner = demo_entry6\<lparr>e_strategy := Strategy_AlwaysDefect, e_revealed := True, e_score := 100,
     e_matches_played := 1\<rparr>"

definition demo_paying :: Ledger where
  "demo_paying = \<lparr>
     lamports = demo_wallets(2 := 999000, 1541 := 500, 6 := 998500, 2053 := 500, 8 := 998500, 4 := 999500,
       259 := 500, 3 := 2500, 1 := 500),
     accounts = [1541 \<mapsto> EntryData demo_winner,
       2053 \<mapsto> EntryData (demo_entry8\<lparr>e_strategy := Strategy_Custom, e_revealed := True, e_bytecode_len := 1,
         e_bytecode := 0 # replicate 63 0, e_matches_played := 1\<rparr>),
       259 \<mapsto> TournamentData (new_tournament 1 demo_config 203 255) BASE_SPACE,
       3 \<mapsto> TournamentData demo_won (BASE_SPACE + 2 * BYTES_PER_PLAYER),
       1 \<mapsto> ConfigData (demo_config\<lparr>c_current_tournament_id := 1\<rparr>)]\<rparr>"

lemma demo_matches_run: "run_all demo_matches demo_running = Inr demo_paying"
  by (simp add: demo_wallets_def demo_matches_def demo_running_def demo_registered_def demo_paying_def demo_won_def
      demo_winner_def run_matches_def run_one_match_def MATCHES_PER_TX_def finalize_tournament_def
      final_operator_costs_def finalize_winners_def calc_house_fee_def find_entry_account_def deserialize_entry_def
      entry_strategy_def to_player_strategy_def add_result_def add_score_def sorted_scores_def target_winners_def
      winning_threshold_def count_winners_def div_ceil_def add_fees_def transferable_lamports_def
      operator_accounts_def checked_add_def checked_mul_def checked_div_def saturating_sub_def demo_match
      demo_pairing demo_states ledger_eval cong: and_then_weak_cong check_weak_cong)

text \<open>The ledger between the two instructions: the match is played and nothing is decided yet.\<close>

definition demo_played :: Ledger where
  "demo_played = demo_running\<lparr>accounts := (accounts demo_running)(
     1541 \<mapsto> EntryData demo_winner,
     2053 \<mapsto> EntryData (demo_entry8\<lparr>e_strategy := Strategy_Custom, e_revealed := True, e_bytecode_len := 1,
       e_bytecode := 0 # replicate 63 0, e_matches_played := 1\<rparr>),
     3 \<mapsto> TournamentData (demo_tournament\<lparr>t_state := Running, t_matches_per_player := 1, t_matches_total := 1,
       t_matches_completed := 1, t_reveal_ends := 200, t_reveals_completed := 2,
       t_scores := [100, 0], t_strategies := [1, 9]\<rparr>) (BASE_SPACE + 2 * BYTES_PER_PLAYER))\<rparr>"

lemma demo_match_run: "dispatch (demo_env 202 4) (RunMatches 1 3 4 [1541, 2053]) demo_running = Inr demo_played"
  by (simp add: demo_running_def demo_registered_def demo_played_def
      demo_winner_def run_matches_def run_one_match_def MATCHES_PER_TX_def find_entry_account_def deserialize_entry_def
      entry_strategy_def to_player_strategy_def add_result_def add_score_def
      operator_accounts_def checked_add_def demo_match demo_pairing demo_states ledger_eval
      cong: and_then_weak_cong check_weak_cong)

text \<open>The winner has claimed the prize and got the rent of the entry back.\<close>

definition demo_paid :: Ledger where
  "demo_paid = \<lparr>
     lamports = demo_wallets(2 := 999000, 2053 := 500, 8 := 998500, 4 := 999500, 259 := 500, 1 := 500,
       3 := 500, 1541 := 0, 6 := 1001000),
     accounts = (accounts demo_paying)(1541 := None, 3 \<mapsto> TournamentData (demo_won\<lparr>t_claims_processed := 1,
       t_entries_remaining := 1\<rparr>) (BASE_SPACE + 2 * BYTES_PER_PLAYER))\<rparr>"

lemma demo_claim_run: "dispatch (demo_env 300 6) (ClaimPayout 3 1541 6) demo_paying = Inr demo_paid"
  by (simp add: demo_paying_def demo_paid_def demo_won_def demo_winner_def claim_payout_def CLAIM_EXPIRY_SECONDS_def
      checked_div_def checked_sub_def demo_wallets_def demo_states ledger_eval
      cong: and_then_weak_cong check_weak_cong)

text \<open>The operator has closed the other entry and the tournament, whose rent went to the fees.\<close>

definition demo_cleanup :: "(Env \<times> Instruction) list" where
  "demo_cleanup =
    [(demo_env 310 4, CloseEntry 1 3 2053 8 4),
     (demo_env 320 4, CloseTournament 1 3 4)]"

definition demo_closed :: Ledger where
  "demo_closed = \<lparr>
     lamports = demo_wallets(2 := 999000, 4 := 999500, 259 := 500, 1541 := 0, 6 := 1001000, 2053 := 0,
       8 := 999000, 3 := 0, 1 := 1000),
     accounts = [259 \<mapsto> TournamentData (new_tournament 1 demo_config 203 255) BASE_SPACE,
       1 \<mapsto> ConfigData (demo_config\<lparr>c_current_tournament_id := 1, c_accumulated_fees := 500\<rparr>)]\<rparr>"

lemma demo_cleanup_run: "run_all demo_cleanup demo_paid = Inr demo_closed"
  by (simp add: demo_cleanup_def demo_paying_def demo_paid_def demo_closed_def demo_won_def demo_winner_def
      close_entry_def close_tournament_def operator_accounts_def
      checked_sub_def checked_add_def add_fees_def demo_wallets_def demo_states ledger_eval
      cong: and_then_weak_cong check_weak_cong)

section \<open>Reachability\<close>

lemma demo_network_ok: "network_ok demo_net"
  by (simp add: network_ok_def demo_net_def mono_def)

lemma demo_derive_odd: "odd (fst (demo_derive seeds))"
  by (auto simp: demo_derive_def split: list.split)

lemma demo_address_neq: "even p \<Longrightarrow> fst (demo_derive seeds) \<noteq> p"
  using demo_derive_odd [of seeds] by auto

lemma demo_env_ok: "even p \<Longrightarrow> p \<noteq> 0 \<Longrightarrow> env_ok demo_net (demo_env now p)"
  by (auto simp: env_ok_def demo_env_def demo_net_def address_def demo_address_neq unat_min_word word_nat min_def word_le_nat_alt)

lemma reachable_run_all:
  assumes "list_all (\<lambda>(env, ix). env_ok net env \<and> honest net ix) steps" "reachable net s" "run_all steps s = Inr s'"
  shows "reachable net s'"
  using assms
proof (induction steps arbitrary: s)
  case (Cons x steps)
  obtain env ix where x: "x = (env, ix)" by (cases x)
  from Cons.prems obtain s1 where s1: "dispatch env ix s = Inr s1" "run_all steps s1 = Inr s'"
    by (auto simp: x and_then_Inr_iff)
  have "step net s s1" using Cons.prems(1) s1(1) by (intro step.execute) (auto simp: x)
  then have "reachable net s1" by (rule reachable.more [OF Cons.prems(2)])
  then show ?case using Cons.IH [OF _ _ s1(2)] Cons.prems(1) by simp
qed simp

lemma demo_funded: "funded demo_start"
proof -
  have "lamport_supply demo_start = (\<Sum>k\<in>{2, 4, 6, 8}. unat (demo_wallets k))"
    unfolding lamport_supply_def demo_start_def
    by (simp only: Ledger.simps) (rule sum.mono_neutral_right; simp add: demo_wallets_def)
  also have "\<dots> = 4000000" by (simp add: demo_wallets_def)
  finally show ?thesis by (simp add: funded_def)
qed

lemma demo_registered_reachable: "reachable demo_net demo_registered"
proof (rule reachable_run_all [OF _ _ demo_setup_run])
  show "reachable demo_net demo_start"
    using demo_funded by (intro reachable.initial) (simp add: demo_start_def)
qed (simp add: demo_setup_def demo_env_ok honest_def)

lemma demo_revealing_reachable: "reachable demo_net demo_revealing"
  by (rule reachable.more [OF demo_registered_reachable step.execute [OF demo_env_ok _ demo_close_registration_run]])
    (simp_all add: honest_def)

lemma demo_running_reachable: "reachable demo_net demo_running"
  by (rule reachable_run_all [OF _ demo_revealing_reachable demo_reveals_run])
    (simp add: demo_reveals_def demo_env_ok honest_def)

lemma demo_played_reachable: "reachable demo_net demo_played"
  by (rule reachable.more [OF demo_running_reachable step.execute [OF demo_env_ok _ demo_match_run]])
    (simp_all add: honest_def)

lemma demo_paying_reachable: "reachable demo_net demo_paying"
  by (rule reachable_run_all [OF _ demo_running_reachable demo_matches_run])
    (simp add: demo_matches_def demo_env_ok honest_def)

lemma demo_claim_step: "step demo_net demo_paying demo_paid"
  by (rule step.execute [OF demo_env_ok _ demo_claim_run]) (simp_all add: honest_def)

lemma demo_closed_reachable: "reachable demo_net demo_closed"
  by (rule reachable_run_all [OF _ reachable.more [OF demo_paying_reachable demo_claim_step] demo_cleanup_run])
    (simp add: demo_cleanup_def demo_env_ok honest_def)

section \<open>The same run as the network executes it\<close>

text \<open>No step of the run is refused for its rent, so the ledgers are live ones.\<close>

fun process_all :: "(Env \<times> Instruction) list \<Rightarrow> Ledger \<Rightarrow> Error + Ledger" where
  "process_all [] s = Inr s"
| "process_all ((env, ix) # rest) s = and_then (process env ix s) (process_all rest)"

lemma live_process_all:
  assumes "list_all (\<lambda>(env, ix). env_ok net env \<and> honest net ix) steps" "live net s" "process_all steps s = Inr s'"
  shows "live net s'"
  using assms
proof (induction steps arbitrary: s)
  case (Cons x steps)
  obtain env ix where x: "x = (env, ix)" by (cases x)
  from Cons.prems obtain s1 where s1: "process env ix s = Inr s1" "process_all steps s1 = Inr s'"
    by (auto simp: x and_then_Inr_iff)
  have "live net s1" using Cons.prems(1) by (intro live.transact [OF Cons.prems(2) _ _ s1(1)]) (auto simp: x)
  then show ?case using Cons.IH [OF _ _ s1(2)] Cons.prems(1) by simp
qed simp

lemmas rent_eval = process_def rent_state_def word_le_nat_alt demo_wallets_def

lemma demo_setup_live: "process_all demo_setup demo_start = Inr demo_registered"
  by (simp add: demo_setup_def demo_start_def demo_registered_def initialize_config_def enter_tournament_def
      rent_eval demo_states ledger_eval cong: and_then_weak_cong check_weak_cong)

lemma demo_close_registration_live:
  "process (demo_env 100 4) (CloseRegistration 1 3 4) demo_registered = Inr demo_revealing"
  by (rule process_still [OF demo_close_registration_run]) (simp_all add: demo_revealing_def demo_registered_def)

lemma demo_reveals_live: "process_all demo_reveals demo_revealing = Inr demo_running"
  by (simp add: demo_reveals_def demo_running_def demo_revealing_def demo_registered_def reveal_eval
      close_reveal_def operator_accounts_def checked_add_def start_running_def mix_seed_zero two_players
      rent_eval demo_states ledger_eval cong: and_then_weak_cong check_weak_cong)

lemma demo_match_live: "process (demo_env 202 4) (RunMatches 1 3 4 [1541, 2053]) demo_running = Inr demo_played"
  by (rule process_still [OF demo_match_run]) (simp_all add: demo_played_def demo_running_def)

lemma demo_finalize_dispatch: "dispatch (demo_env 203 4) (FinalizeTournament 1 3 259 4) demo_played = Inr demo_paying"
  using demo_matches_run demo_match_run by (simp add: demo_matches_def and_then_Inr_iff)

lemma demo_finalize_live: "process (demo_env 203 4) (FinalizeTournament 1 3 259 4) demo_played = Inr demo_paying"
  unfolding process_of_dispatch [OF demo_finalize_dispatch]
  by (simp add: demo_played_def demo_running_def demo_paying_def demo_registered_def rent_eval demo_states demo_env_def)

lemma demo_registered_live: "live demo_net demo_registered"
proof (rule live_process_all [OF _ _ demo_setup_live])
  show "live demo_net demo_start" using demo_funded by (intro live.begins) (simp add: demo_start_def)
qed (simp add: demo_setup_def demo_env_ok honest_def)

lemma demo_revealing_live: "live demo_net demo_revealing"
  by (rule live.transact [OF demo_registered_live demo_env_ok _ demo_close_registration_live]) (simp_all add: honest_def)

lemma demo_running_live: "live demo_net demo_running"
  by (rule live_process_all [OF _ demo_revealing_live demo_reveals_live]) (simp add: demo_reveals_def demo_env_ok honest_def)

lemma demo_played_live: "live demo_net demo_played"
  by (rule live.transact [OF demo_running_live demo_env_ok _ demo_match_live]) (simp_all add: honest_def)

lemma demo_paying_live: "live demo_net demo_paying"
  by (rule live.transact [OF demo_played_live demo_env_ok _ demo_finalize_live]) (simp_all add: honest_def)

end
