(* ===== verification/Rent_Scenario.thy ===== *)
theory Rent_Scenario
  imports Scenario
begin

text \<open>
  A network whose rent grows with the size of an account, as the real one does, and two runs on it that
  end with a payment the runtime refuses. The account of a tournament grows with every player, but the
  reallocation asks the player for lamports only as far as the stakes in the account do not cover the
  rent already. When the last stake or the last prize leaves, the rent of the full size is not there.
\<close>

definition rent_schedule :: "nat \<Rightarrow> u64" where
  "rent_schedule n = of_nat (1000 + 10 * min n 100000)"

definition rent_net :: Network where
  "rent_net = \<lparr>derive = demo_derive, rent_of = rent_schedule\<rparr>"

definition rent_env :: "i64 \<Rightarrow> Pubkey \<Rightarrow> Env" where
  "rent_env now signer = (demo_env now signer)\<lparr>
     minimum_balance := rent_schedule, rent_top_up := (\<lambda>n bal. rent_schedule n - min bal (rent_schedule n))\<rparr>"

lemma unat_rent_schedule: "unat (rent_schedule n) = 1000 + 10 * min n 100000"
proof -
  have "1000 + 10 * min n 100000 < 18446744073709551616" by (simp add: min_def)
  then show ?thesis unfolding rent_schedule_def unat_of_nat by simp
qed

lemma rent_network_ok: "network_ok rent_net" "0 < rent_of rent_net 0"
  by (auto simp: network_ok_def rent_net_def mono_def unat_rent_schedule word_less_nat_alt)

lemma rent_env_ok: "even p \<Longrightarrow> p \<noteq> 0 \<Longrightarrow> env_ok rent_net (rent_env now p)"
  by (auto simp: env_ok_def rent_env_def demo_env_def rent_net_def address_def demo_address_neq unat_min_word word_nat
      min_def word_le_nat_alt)

lemmas rent_scenario_eval = rent_env_def rent_schedule_def CONFIG_LEN_def ENTRY_LEN_def space_for_next_player_def rent_eval

section \<open>Two players enter\<close>

definition rent_registered :: Ledger where
  "rent_registered = demo_registered\<lparr>
     lamports := demo_wallets(1 := 2410, 2 := 994600, 1541 := 3070, 6 := 995560, 2053 := 3070, 8 := 995930, 3 := 5360)\<rparr>"

definition rent_setup :: "(Env \<times> Instruction) list" where
  "rent_setup =
    [(rent_env 0 2, InitializeConfig 1 3 2 demo_params),
     (rent_env 10 6, EnterTournament 1 3 1541 6 demo_commitment6),
     (rent_env 20 8, EnterTournament 1 3 2053 8 demo_commitment8)]"

lemma rent_setup_run: "process_all rent_setup demo_start = Inr rent_registered"
  by (simp add: rent_setup_def demo_start_def demo_registered_def rent_registered_def initialize_config_def enter_tournament_def
      rent_scenario_eval demo_states ledger_eval cong: and_then_weak_cong check_weak_cong)

lemma rent_registered_live: "live rent_net rent_registered"
proof (rule live_process_all [OF _ _ rent_setup_run])
  show "live rent_net demo_start" using demo_funded by (intro live.begins) (simp add: demo_start_def)
qed (simp add: rent_setup_def rent_env_ok honest_def)

section \<open>Both ask for a refund\<close>

text \<open>The ledger after the first refund.\<close>

definition rent_refunded :: Ledger where
  "rent_refunded = \<lparr>
     lamports = demo_wallets(1 := 2410, 2 := 994600, 2053 := 3070, 8 := 995930, 3 := 4360, 1541 := 0, 6 := 999630),
     accounts = (accounts rent_registered)(1541 := None, 3 \<mapsto> TournamentData (refund_slot 0 demo_tournament)
       (BASE_SPACE + 2 * BYTES_PER_PLAYER))\<rparr>"

lemma rent_refund_run: "process (rent_env 30 6) (ClaimRefund 3 1541 6) rent_registered = Inr rent_refunded"
  by (simp add: rent_refunded_def demo_registered_def rent_registered_def claim_refund_def checked_sub_def refund_slot_def
      clear_slot_def rent_scenario_eval demo_states ledger_eval cong: and_then_weak_cong check_weak_cong)

lemma rent_refunded_live: "live rent_net rent_refunded"
  by (rule live.transact [OF rent_registered_live rent_env_ok _ rent_refund_run]) (simp_all add: honest_def)

section \<open>The winner claims the prize\<close>

definition rent_config :: Config where
  "rent_config = demo_config\<lparr>c_operator_tx_fee := 200\<rparr>"

definition rent_update :: UpdateConfigParams where
  "rent_update = \<lparr>up_operator = None, up_house_fee_bps = None, up_stake = None, up_min_participants = None,
     up_max_participants = None, up_registration_duration = None, up_matches_per_player = None,
     up_reveal_duration = None, up_operator_tx_fee = Some 200\<rparr>"

definition rent_course :: "(Env \<times> Instruction) list" where
  "rent_course =
    [(rent_env 30 2, UpdateConfig 1 2 rent_update),
     (rent_env 100 4, CloseRegistration 1 3 4),
     (rent_env 110 6, RevealStrategy 1541 3 6 Strategy_AlwaysDefect (replicate 16 0) None),
     (rent_env 120 8, RevealStrategy 2053 3 8 Strategy_Custom (replicate 16 0) (Some [0])),
     (rent_env 201 4, CloseReveal 1 3 None None 4)]"

definition rent_running :: Ledger where
  "rent_running = rent_registered\<lparr>accounts := (accounts demo_running)(
     1 \<mapsto> ConfigData rent_config,
     3 \<mapsto> TournamentData (demo_tournament\<lparr>t_state := Running, t_matches_per_player := 1, t_matches_total := 1,
         t_reveal_ends := 200, t_reveals_completed := 2, t_strategies := [1, 9], t_operator_costs := 400\<rparr>)
       (BASE_SPACE + 2 * BYTES_PER_PLAYER))\<rparr>"

lemma rent_course_run: "process_all rent_course rent_registered = Inr rent_running"
  by (simp add: rent_course_def rent_running_def demo_running_def rent_registered_def demo_registered_def reveal_eval
      rent_config_def rent_update_def update_config_def apply_update_def set_if_def close_registration_def
      close_reveal_def operator_accounts_def checked_add_def start_running_def mix_seed_zero two_players
      rent_scenario_eval demo_states ledger_eval fun_upd_twist cong: and_then_weak_cong check_weak_cong)

definition rent_finish :: "(Env \<times> Instruction) list" where
  "rent_finish =
    [(rent_env 202 4, RunMatches 1 3 4 [1541, 2053]),
     (rent_env 203 4, FinalizeTournament 1 3 259 4)]"

text \<open>The operator has the costs of seven transactions back, and player 6 has won the rest of the stakes.\<close>

definition rent_won :: Tournament where
  "rent_won = demo_won\<lparr>t_winner_pool := 600, t_operator_costs := 1400\<rparr>"

definition rent_paying :: Ledger where
  "rent_paying = \<lparr>
     lamports = demo_wallets(1 := 2410, 2 := 994600, 1541 := 3070, 6 := 995560, 2053 := 3070, 8 := 995930,
       259 := 2990, 3 := 3960, 4 := 998410),
     accounts = (accounts demo_paying)(1 \<mapsto> ConfigData (rent_config\<lparr>c_current_tournament_id := 1\<rparr>),
       3 \<mapsto> TournamentData rent_won (BASE_SPACE + 2 * BYTES_PER_PLAYER))\<rparr>"

lemma rent_finish_run: "process_all rent_finish rent_running = Inr rent_paying"
  by (simp add: rent_finish_def rent_running_def demo_running_def rent_registered_def demo_registered_def rent_paying_def demo_paying_def
      rent_won_def demo_won_def rent_config_def
      demo_winner_def run_matches_def run_one_match_def MATCHES_PER_TX_def finalize_tournament_def
      final_operator_costs_def finalize_winners_def calc_house_fee_def find_entry_account_def deserialize_entry_def
      entry_strategy_def to_player_strategy_def add_result_def add_score_def sorted_scores_def target_winners_def
      winning_threshold_def count_winners_def div_ceil_def add_fees_def transferable_lamports_def
      operator_accounts_def checked_add_def checked_mul_def checked_div_def saturating_sub_def demo_match
      demo_pairing rent_scenario_eval demo_states ledger_eval fun_upd_twist cong: and_then_weak_cong check_weak_cong)

text \<open>The ledger between the two instructions.\<close>

definition rent_played :: Ledger where
  "rent_played = rent_running\<lparr>accounts := (accounts demo_played)(
     1 \<mapsto> ConfigData rent_config,
     3 \<mapsto> TournamentData (demo_tournament\<lparr>t_state := Running, t_matches_per_player := 1, t_matches_total := 1,
         t_matches_completed := 1, t_reveal_ends := 200, t_reveals_completed := 2, t_scores := [100, 0],
         t_strategies := [1, 9], t_operator_costs := 600\<rparr>)
       (BASE_SPACE + 2 * BYTES_PER_PLAYER))\<rparr>"

lemma rent_match_run: "process (rent_env 202 4) (RunMatches 1 3 4 [1541, 2053]) rent_running = Inr rent_played"
  by (simp add: rent_running_def demo_running_def rent_registered_def demo_registered_def rent_played_def demo_played_def
      rent_config_def demo_winner_def run_matches_def run_one_match_def MATCHES_PER_TX_def find_entry_account_def
      deserialize_entry_def entry_strategy_def to_player_strategy_def add_result_def add_score_def
      operator_accounts_def checked_add_def demo_match demo_pairing rent_scenario_eval demo_states ledger_eval fun_upd_twist
      cong: and_then_weak_cong check_weak_cong)

lemma rent_finalize_process: "process (rent_env 203 4) (FinalizeTournament 1 3 259 4) rent_played = Inr rent_paying"
  using rent_finish_run by (simp add: rent_finish_def rent_match_run and_then_Inr_iff)

lemma rent_finalize_run: "finalize_tournament (rent_env 203 4) 1 3 259 4 rent_played = Inr rent_paying"
  using process_dispatch [OF rent_finalize_process] by simp

lemma rent_running_live: "live rent_net rent_running"
  by (rule live_process_all [OF _ rent_registered_live rent_course_run]) (simp add: rent_course_def rent_env_ok honest_def)

lemma rent_played_live: "live rent_net rent_played"
  by (rule live.transact [OF rent_running_live rent_env_ok _ rent_match_run]) (simp_all add: honest_def)

lemma rent_paying_live: "live rent_net rent_paying"
  by (rule live.transact [OF rent_played_live rent_env_ok _ rent_finalize_process]) (simp_all add: honest_def)

end
