(* ===== verification/Arena_Properties.thy ===== *)
theory Arena_Properties
  imports Rent_Scenario
begin

text \<open>
  The properties of the on-chain program: what holds in every ledger the program can reach, what an
  instruction may change, and that the instructions on which the players' money depends succeed.
  Their witnesses use the run of the scenario theory.
\<close>

section \<open>Reachable ledgers\<close>

text \<open>The bump that the derivation finds is one that recreates the address.\<close>

definition pda_ok :: "Env \<Rightarrow> bool" where
  "pda_ok env \<longleftrightarrow>
     (\<forall>seeds. create_program_address env seeds (snd (find_program_address env seeds)) = Some (fst (find_program_address env seeds)))"

lemma seeds_okI: "pda_ok env \<Longrightarrow> env_ok net env \<Longrightarrow> seeds_ok env seeds (snd (derive net seeds)) (address net seeds)"
  by (simp add: seeds_ok_def pda_ok_def env_ok_def address_def)

lemma demo_pda_ok: "pda_ok (demo_env now p)"
  by (simp add: pda_ok_def demo_env_def)


lemma demo_accounts:
  "accounts demo_registered 3 = Some (TournamentData demo_tournament (BASE_SPACE + 2 * BYTES_PER_PLAYER))"
  "accounts demo_registered 1 = Some (ConfigData demo_config)"
  "accounts demo_registered 1541 = Some (EntryData demo_entry6)"
  "accounts demo_paying 3 = Some (TournamentData demo_won (BASE_SPACE + 2 * BYTES_PER_PLAYER))"
  "accounts demo_paying 1541 = Some (EntryData demo_winner)"
  by (simp_all add: demo_registered_def demo_paying_def)



lemma demo_won_fields:
  "t_state demo_won = Payout" "prize_share demo_won = 2000" "t_winner_count demo_won = 1"
  "t_min_winning_score demo_won = 100" "t_payout_started_at demo_won = 203"
  by (simp_all add: demo_won_def prize_share_def)


text \<open>
  C6. Books and slots. In every reachable ledger the three vectors of a tournament have the same
  length, at most 65535, and the account has exactly the size for it; every open entry sits in its
  own slot, with the same player and score and with the strategy of the slot if it is revealed.
\<close>

theorem entries_match_slots:
  assumes "network_ok net" "reachable net s" "accounts s tk = Some (TournamentData t n)"
  shows "length (t_scores t) = length (t_players t) \<and> length (t_strategies t) = length (t_players t) \<and>
    length (t_players t) \<le> 65535 \<and> n = BASE_SPACE + length (t_players t) * BYTES_PER_PLAYER \<and>
    (\<forall>ek e. accounts s ek = Some (EntryData e) \<and> e_tournament e = tk \<longrightarrow>
       ek = entry_key net tk (e_player e) \<and> unat (e_index e) < length (t_players t) \<and>
       t_players t ! unat (e_index e) = e_player e \<and> t_scores t ! unat (e_index e) = e_score e \<and>
       (e_revealed e \<longrightarrow> t_strategies t ! unat (e_index e) = strategy_as_u8 (e_strategy e)))"
proof -
  note ti = tournament_inv_of [OF reachable_inv [OF assms(1,2)] assms(3)]
  have v: "vectors_ok t n" using ti by (simp add: tournament_inv_def)
  have e: "ek = entry_key net tk (e_player e) \<and> unat (e_index e) < length (t_players t) \<and>
       t_players t ! unat (e_index e) = e_player e \<and> t_scores t ! unat (e_index e) = e_score e \<and>
       (e_revealed e \<longrightarrow> t_strategies t ! unat (e_index e) = strategy_as_u8 (e_strategy e))"
    if "accounts s ek = Some (EntryData e) \<and> e_tournament e = tk" for ek e
  proof -
    have "entry_ok (entry_key net tk) t ek e" using tournament_inv_entry [OF ti] that by (simp add: entries_of_iff)
    then show ?thesis unfolding entry_ok_def by presburger
  qed
  have "\<forall>ek e. accounts s ek = Some (EntryData e) \<and> e_tournament e = tk \<longrightarrow>
       ek = entry_key net tk (e_player e) \<and> unat (e_index e) < length (t_players t) \<and>
       t_players t ! unat (e_index e) = e_player e \<and> t_scores t ! unat (e_index e) = e_score e \<and>
       (e_revealed e \<longrightarrow> t_strategies t ! unat (e_index e) = strategy_as_u8 (e_strategy e))"
    by (intro allI impI e)
  with v show ?thesis unfolding vectors_ok_def by (elim conjE) (intro conjI; assumption)
qed

theorem entries_match_slots_witness:
  "1541 = entry_key demo_net 3 6 \<and> t_players demo_won ! unat (e_index demo_winner) = e_player demo_winner \<and>
   t_scores demo_won ! unat (e_index demo_winner) = e_score demo_winner"
proof -
  have "e_tournament demo_winner = 3" "e_player demo_winner = 6" by (simp_all add: demo_winner_def demo_states)
  moreover from this have "1541 = entry_key demo_net 3 (e_player demo_winner) \<and>
      t_players demo_won ! unat (e_index demo_winner) = e_player demo_winner \<and>
      t_scores demo_won ! unat (e_index demo_winner) = e_score demo_winner"
    using entries_match_slots [OF demo_network_ok demo_paying_reachable demo_accounts(4)] demo_accounts(5) by blast
  ultimately show ?thesis by simp
qed




text \<open>
  C4. No lamport is created or lost: every step from a reachable ledger keeps the sum of all
  balances, although the handlers change balances with wrapping additions and subtractions.
\<close>

theorem lamports_conserved:
  assumes "network_ok net" "reachable net s" "step net s s'"
  shows "(\<Sum>k\<in>UNIV. unat (lamports s' k)) = (\<Sum>k\<in>UNIV. unat (lamports s k))"
  using step_supply [OF assms(1) reachable_inv [OF assms(1,2)] assms(3)] by (simp add: lamport_supply_def)

theorem lamports_conserved_witness:
  "(\<Sum>k\<in>UNIV. unat (lamports demo_paid k)) = (\<Sum>k\<in>UNIV. unat (lamports demo_paying k))"
  by (rule lamports_conserved [OF demo_network_ok demo_paying_reachable demo_claim_step])

text \<open>
  C5. The life of a tournament. Whatever instruction is executed, a tournament account keeps the terms
  it was created with; its phase stays or advances by one in the order registration, reveal, running,
  payout; the number of slots is fixed after registration, seed and number of matches after the
  reveal phase, players and strategies from then on, and the prizes once the payout has begun; and the
  account is closed in the payout phase only, with no entry left.
\<close>

theorem tournament_lifecycle:
  assumes "dispatch env ix s = Inr s'" "accounts s tk = Some (TournamentData t n)"
  shows "(accounts s' tk = None \<and> t_state t = Payout \<and> t_entries_remaining t = 0) \<or>
    (\<exists>t' n'. accounts s' tk = Some (TournamentData t' n') \<and>
       t_state t \<le> t_state t' \<and> phase_next (t_state t) (t_state t') \<and> same_terms t t' \<and> phase_writes t t')"
  using dispatch_step [OF assms]
  by (auto simp: account_step_def tournament_step_def phase_next_le split: option.splits AccountData.splits)

theorem tournament_lifecycle_witness:
  "\<exists>t' n'. accounts demo_paid 3 = Some (TournamentData t' n') \<and> phase_next Payout (t_state t') \<and> same_terms demo_won t'"
  using tournament_lifecycle [OF demo_claim_run demo_accounts(4)] by (auto simp: demo_paid_def demo_won_fields)

section \<open>The players' money\<close>








text \<open>
  C14. Nobody is paid twice. After a claim the entry is closed, and every further claim, refund or
  settlement on it fails; the same holds after the operator has settled the entry.
\<close>

theorem no_second_payment:
  assumes "claim_payout env tk ek p s = Inr s' \<or> claim_refund env tk ek p s = Inr s' \<or> close_entry env ck tk ek p op s = Inr s'"
  shows "claim_payout env' tk' ek p' s' = Inl AccountNotInitialized \<and>
    claim_refund env' tk' ek p' s' = Inl AccountNotInitialized \<and>
    close_entry env' ck' tk' ek p' op' s' = Inl AccountNotInitialized"
proof -
  have "accounts s' ek = None"
    using assms by (auto elim!: claim_payoutE claim_refundE close_entryE)
  then show ?thesis
    by (auto simp: claim_payout_def claim_refund_def close_entry_def load_config_def load_tournament_def load_entry_def
        split: option.split AccountData.split)
qed

theorem no_second_payment_witness:
  "claim_payout (demo_env 400 6) 3 1541 6 demo_paid = Inl AccountNotInitialized"
  using no_second_payment [of "demo_env 300 6" 3 1541 6 demo_paying demo_paid] demo_claim_run by simp

text \<open>
  C13. The administrator can always collect the fees: in every reachable ledger with booked fees, the
  administrator's signed withdrawal succeeds and pays all of them out, leaving the rent; the network
  executes it if the administrator's wallet is rent exempt, as it never leaves an account short.
\<close>

theorem withdraw_fees_pays:
  assumes "network_ok net" "reachable net s" "env_ok net env" "pda_ok env"
    and "accounts s ck = Some (ConfigData c)" "is_signer env (c_admin c)" "0 < c_accumulated_fees c"
  shows "\<exists>s'. withdraw_fees env ck (c_admin c) s = Inr s' \<and>
    accounts s' ck = Some (ConfigData (c\<lparr>c_accumulated_fees := 0\<rparr>)) \<and>
    unat (lamports s' (c_admin c)) = unat (lamports s (c_admin c)) + unat (c_accumulated_fees c) \<and>
    rent_of net CONFIG_LEN \<le> lamports s' ck \<and>
    (rent_of net 0 \<le> lamports s (c_admin c) \<longrightarrow> process env (WithdrawFees ck (c_admin c)) s = Inr s')"
proof -
  note inv = reachable_inv [OF assms(1,2)]
  note c = ledger_inv_config [OF inv assms(5)] and f = ledger_inv_funded [OF inv]
  have w: "wallet net (c_admin c)" using signer_wallet [OF assms(3,6)] by simp
  have neq: "ck \<noteq> c_admin c" using wallet_neq [OF inv w, of ck] assms(5) by simp
  have seeds: "seeds_ok env config_seeds (c_bump c) ck"
    using c seeds_okI [OF assms(4,3), of config_seeds] by (auto simp: config_account_ok_def)
  have bal: "unat (rent_of net CONFIG_LEN) + unat (c_accumulated_fees c) \<le> unat (lamports s ck)"
    using c by (auto simp: config_account_ok_def)
  have rent: "minimum_balance env = rent_of net" using assms(3) by (simp add: env_ok_def)
  have "unat (c_accumulated_fees c) \<le> unat (saturating_sub (lamports s ck) (rent_of net CONFIG_LEN))"
    using bal by (simp add: unat_saturating_sub)
  then have all: "min (c_accumulated_fees c) (saturating_sub (lamports s ck) (minimum_balance env CONFIG_LEN)) = c_accumulated_fees c"
    by (simp add: rent min_def word_le_nat_alt)
  let ?s = "store ck (ConfigData (c\<lparr>c_accumulated_fees := 0\<rparr>)) s"
  have ok: "withdraw_fees env ck (c_admin c) s = Inr (move_lamports ck (c_admin c) (c_accumulated_fees c) ?s)"
    using assms(5-7) seeds by (simp add: withdraw_fees_def load_config_def all checked_sub_def Let_def)
  have le: "c_accumulated_fees c \<le> lamports ?s ck" using bal by (simp add: word_le_nat_alt)
  have "funded ?s" using f by simp
  note mv = unat_move_to [OF this neq le] unat_move_from [OF neq le]
  let ?s' = "move_lamports ck (c_admin c) (c_accumulated_fees c) ?s"
  have ck: "rent_of net CONFIG_LEN \<le> lamports ?s' ck" using mv bal by (simp add: word_le_nat_alt)
  have "process env (WithdrawFees ck (c_admin c)) s = Inr ?s'" if "rent_of net 0 \<le> lamports s (c_admin c)"
  proof -
    have "accounts ?s' (c_admin c) = None" using wallet_no_account [OF inv w] neq by simp
    moreover have "rent_of net 0 \<le> lamports ?s' (c_admin c)" using that mv(1) by (simp add: word_le_nat_alt)
    ultimately have "rent_kept env s ?s' (c_admin c)" by (intro rent_kept_exempt) (simp add: rent)
    moreover have "rent_kept env s ?s' ck" using ck by (intro rent_kept_exempt) (simp add: rent)
    ultimately show ?thesis by (simp add: process_Inr_iff ok)
  qed
  then show ?thesis
    using ok mv ck by (intro exI [of _ ?s']) simp
qed

theorem withdraw_fees_pays_witness:
  "\<exists>s'. withdraw_fees (demo_env 400 2) 1 2 demo_closed = Inr s' \<and>
     unat (lamports s' 2) = unat (lamports demo_closed 2) + 500 \<and>
     process (demo_env 400 2) (WithdrawFees 1 2) demo_closed = Inr s'"
proof -
  let ?c = "demo_config\<lparr>c_current_tournament_id := 1, c_accumulated_fees := 500\<rparr>"
  have c: "accounts demo_closed 1 = Some (ConfigData ?c)" "c_admin ?c = 2" by (simp_all add: demo_closed_def demo_states)
  have signer: "is_signer (demo_env 400 2) 2" by (simp add: demo_env_def)
  have rich: "rent_of demo_net 0 \<le> lamports demo_closed 2"
    by (simp add: demo_net_def demo_closed_def word_le_nat_alt)
  show ?thesis
    using withdraw_fees_pays [OF demo_network_ok demo_closed_reachable demo_env_ok [of 2 400] demo_pda_ok c(1)] rich
    by (auto simp: c(2) signer)
qed


section \<open>Who may do what\<close>

text \<open>What an instruction needs: a signature, and that the signer is the one the accounts name.\<close>

definition config_names :: "Ledger \<Rightarrow> Pubkey \<Rightarrow> (Config \<Rightarrow> bool) \<Rightarrow> bool" where
  "config_names s ck P \<longleftrightarrow> (\<exists>c. accounts s ck = Some (ConfigData c) \<and> P c)"

definition entry_of :: "Ledger \<Rightarrow> Pubkey \<Rightarrow> Pubkey \<Rightarrow> Pubkey \<Rightarrow> bool" where
  "entry_of s ek tk p \<longleftrightarrow> (\<exists>e. accounts s ek = Some (EntryData e) \<and> e_tournament e = tk \<and> e_player e = p)"

fun authorized :: "Env \<Rightarrow> Ledger \<Rightarrow> Instruction \<Rightarrow> bool" where
  "authorized env s (InitializeConfig ck tk admin params) \<longleftrightarrow> is_signer env admin \<and> accounts s ck = None"
| "authorized env s (UpdateConfig ck admin params) \<longleftrightarrow> is_signer env admin \<and> config_names s ck (\<lambda>c. c_admin c = admin)"
| "authorized env s (WithdrawFees ck admin) \<longleftrightarrow> is_signer env admin \<and> config_names s ck (\<lambda>c. c_admin c = admin)"
| "authorized env s (EnterTournament ck tk ek player commitment) \<longleftrightarrow> is_signer env player \<and> accounts s ek = None"
| "authorized env s (RevealStrategy ek tk player strategy salt code) \<longleftrightarrow> is_signer env player \<and> entry_of s ek tk player"
| "authorized env s (ClaimRefund tk ek player) \<longleftrightarrow> is_signer env player \<and> entry_of s ek tk player"
| "authorized env s (ClaimPayout tk ek player) \<longleftrightarrow> is_signer env player \<and> entry_of s ek tk player"
| "authorized env s (CloseRegistration ck tk op) \<longleftrightarrow> is_signer env op \<and> config_names s ck (\<lambda>c. c_operator c = op)"
| "authorized env s (CloseReveal ck tk re rp op) \<longleftrightarrow> is_signer env op \<and> config_names s ck (\<lambda>c. c_operator c = op)"
| "authorized env s (ForfeitUnrevealed ck ek tk op) \<longleftrightarrow> is_signer env op \<and> config_names s ck (\<lambda>c. c_operator c = op)"
| "authorized env s (RunMatches ck tk op accs) \<longleftrightarrow> is_signer env op \<and> config_names s ck (\<lambda>c. c_operator c = op)"
| "authorized env s (FinalizeTournament ck tk nk op) \<longleftrightarrow> is_signer env op \<and> config_names s ck (\<lambda>c. c_operator c = op)"
| "authorized env s (CloseEntry ck tk ek player op) \<longleftrightarrow>
     is_signer env op \<and> config_names s ck (\<lambda>c. c_operator c = op) \<and> entry_of s ek tk player"
| "authorized env s (CloseTournament ck tk op) \<longleftrightarrow>
     is_signer env op \<and> config_names s ck (\<lambda>c. c_operator c = op \<or> c_admin c = op)"

lemmas authorized_defs = config_names_def entry_of_def

text \<open>
  C8. Authorization. An instruction succeeds only when the right party has signed it: the
  administrator or operator that the configuration names, or the player that the entry names; nobody
  can act on the entry of another player, and closing an entry pays the player it belongs to.
\<close>

theorem only_authorized:
  assumes "dispatch env ix s = Inr s'"
  shows "authorized env s ix"
proof (cases ix)
  case (InitializeConfig ck tk admin params)
  with assms show ?thesis by (auto elim: initialize_configE)
next
  case (UpdateConfig ck admin params)
  with assms show ?thesis by (auto simp: authorized_defs elim: update_configE)
next
  case (WithdrawFees ck admin)
  with assms show ?thesis by (auto simp: authorized_defs elim: withdraw_feesE)
next
  case (EnterTournament ck tk ek player commitment)
  with assms show ?thesis by (auto elim: enter_tournamentE)
next
  case (RevealStrategy ek tk player strategy salt code)
  with assms show ?thesis by (auto simp: authorized_defs elim: reveal_strategyE)
next
  case (ClaimRefund tk ek player)
  with assms show ?thesis by (auto simp: authorized_defs elim: claim_refundE)
next
  case (ClaimPayout tk ek player)
  with assms show ?thesis by (auto simp: authorized_defs elim: claim_payoutE)
next
  case (CloseRegistration ck tk op)
  with assms show ?thesis by (auto simp: authorized_defs elim: close_registrationE)
next
  case (CloseReveal ck tk re rp op)
  with assms show ?thesis by (auto simp: authorized_defs elim: close_revealE)
next
  case (ForfeitUnrevealed ck ek tk op)
  with assms show ?thesis by (auto simp: authorized_defs elim: forfeit_unrevealedE)
next
  case (RunMatches ck tk op accs)
  with assms show ?thesis by (auto simp: authorized_defs elim: run_matchesE)
next
  case (FinalizeTournament ck tk nk op)
  with assms show ?thesis by (auto simp: authorized_defs elim: finalize_tournamentE)
next
  case (CloseEntry ck tk ek player op)
  with assms show ?thesis by (auto simp: authorized_defs elim: close_entryE)
next
  case (CloseTournament ck tk op)
  with assms show ?thesis by (auto simp: authorized_defs elim: close_tournamentE)
qed

theorem only_authorized_witness: "authorized (demo_env 300 6) demo_paying (ClaimPayout 3 1541 6)"
  by (rule only_authorized [OF demo_claim_run])

section \<open>Commitments\<close>

text \<open>The strings whose hashes a reveal compares.\<close>

definition hashed :: "Env \<Rightarrow> ArenaStrategy \<Rightarrow> u8 list \<Rightarrow> u8 list option \<Rightarrow> u8 list set" where
  "hashed env strategy salt code =
     (if strategy = Strategy_Custom
      then (case code of Some c \<Rightarrow> {c, custom_preimage env c salt} | None \<Rightarrow> {})
      else {builtin_preimage strategy salt})"

text \<open>
  C9. A commitment binds. As long as the hash has no collision among the strings involved, an entry
  can be revealed in one way only: with one strategy, one salt and, for a custom strategy, one program.
\<close>

theorem commitment_binding:
  assumes "reveal_strategy env ek tk p strategy salt code s = Inr s1"
    and "reveal_strategy env ek tk p strategy' salt' code' s = Inr s2"
    and "length salt = 16" "length salt' = 16"
    and "inj_on (sha256 env) (hashed env strategy salt code \<union> hashed env strategy' salt' code')"
  shows "strategy' = strategy \<and> salt' = salt \<and> (strategy = Strategy_Custom \<longrightarrow> code' = code)"
proof -
  obtain e where e: "accounts s ek = Some (EntryData e)" "\<exists>e1. check_commitment env strategy salt code e = Inr e1"
    using assms(1) by (rule reveal_strategyE) (rule that; blast)
  have e2: "\<exists>e2. check_commitment env strategy' salt' code' e = Inr e2"
    using assms(2) by (rule reveal_strategyE) (use e(1) in auto)
  define pre where "pre st sl cd = (if st = Strategy_Custom then custom_preimage env (the cd) sl else builtin_preimage st sl)"
    for st sl cd
  have c: "pre st sl cd \<in> hashed env st sl cd \<and> sha256 env (pre st sl cd) = e_commitment e \<and> (st = Strategy_Custom \<longrightarrow> cd \<noteq> None)"
    if "\<exists>e1. check_commitment env st sl cd e = Inr e1" for st sl cd
    using that by (auto simp: check_commitment_def pre_def hashed_def handler_iffs split: if_splits)
  note c1 = c [OF e(2)] and c2 = c [OF e2]
  have eq: "pre strategy salt code = pre strategy' salt' code'"
  proof (rule inj_onD [OF assms(5)])
    show "sha256 env (pre strategy salt code) = sha256 env (pre strategy' salt' code')" using c1 c2 by simp
  qed (use c1 c2 in simp_all)
  have idx: "strategy_as_u8 st = hd (pre st sl cd)" for st sl cd
    by (simp add: pre_def custom_preimage_def builtin_preimage_def)
  have st: "strategy' = strategy"
    using eq idx [of strategy salt code] idx [of strategy' salt' code'] by (cases strategy; cases strategy') simp_all
  show ?thesis
  proof (cases "strategy = Strategy_Custom")
    case False
    then show ?thesis using eq st by (simp add: pre_def builtin_preimage_def)
  next
    case True
    then obtain x y where xy: "code = Some x" "code' = Some y" using c1 c2 st by auto
    then have same: "sha256 env x = sha256 env y \<and> salt = salt'"
      using eq st True assms(3,4) append_eq_append_conv [of "sha256 env x" "sha256 env y" salt salt']
      by (simp add: pre_def custom_preimage_def)
    have "x \<in> hashed env strategy salt code" "y \<in> hashed env strategy' salt' code'"
      using True st xy by (simp_all add: hashed_def)
    then have "x = y" using same by (auto intro: inj_onD [OF assms(5)])
    with same st xy show ?thesis by simp
  qed
qed

theorem commitment_binding_witness:
  "(\<exists>s1. reveal_strategy (demo_env 110 6) 1541 3 6 Strategy_AlwaysDefect (replicate 16 0) None demo_revealing = Inr s1) \<and>
   (\<forall>s2. reveal_strategy (demo_env 110 6) 1541 3 6 Strategy_AlwaysCooperate (replicate 16 0) None demo_revealing \<noteq> Inr s2)"
proof -
  have inj: "inj_on (sha256 (demo_env 110 6)) X" for X by (simp add: demo_env_def)
  obtain s1 where s1: "reveal_strategy (demo_env 110 6) 1541 3 6 Strategy_AlwaysDefect (replicate 16 0) None demo_revealing = Inr s1"
    using demo_reveal_run(1) by blast
  from commitment_binding [OF s1 _ _ _ inj, of Strategy_AlwaysCooperate "replicate 16 0" None] s1 show ?thesis by auto
qed

text \<open>
  C11. What is revealed is what is played. After a reveal the entry is marked and decodes to exactly
  the strategy that was revealed, a custom one to its program byte for byte; the slot of the
  tournament shows its index, and the entry cannot be revealed or forfeited again.
\<close>

theorem reveal_is_played:
  assumes "reveal_strategy env ek tk p strategy salt code s = Inr s'"
  shows "\<exists>e t n. accounts s' ek = Some (EntryData e) \<and> accounts s' tk = Some (TournamentData t n) \<and>
    entry_strategy e = Inr (to_player_strategy strategy code) \<and>
    t_strategies t ! unat (e_index e) = strategy_as_u8 strategy \<and>
    (\<forall>env' p' strategy' salt' code' s''. reveal_strategy env' ek tk p' strategy' salt' code' s' \<noteq> Inr s'') \<and>
    (\<forall>env' ck op s''. forfeit_unrevealed env' ck ek tk op s' \<noteq> Inr s'')"
  using assms
proof (rule reveal_strategyE)
  fix e t n e'
  assume h: "accounts s ek = Some (EntryData e)" "accounts s tk = Some (TournamentData t n)"
    "check_commitment env strategy salt code e = Inr e'" "unat (e_index e') < length (t_strategies t)"
    "s' = store tk (TournamentData (set_strategy (unat (e_index e')) strategy t) n)
            (store ek (EntryData (e'\<lparr>e_strategy := strategy, e_revealed := True\<rparr>)) s)"
  let ?e = "e'\<lparr>e_strategy := strategy, e_revealed := True\<rparr>" and ?t = "set_strategy (unat (e_index e')) strategy t"
  have neq: "tk \<noteq> ek" using h(1,2) by auto
  have acc: "accounts s' ek = Some (EntryData ?e)" "accounts s' tk = Some (TournamentData ?t n)"
    using neq by (simp_all add: h(5))
  have slot: "t_strategies ?t ! unat (e_index ?e) = strategy_as_u8 strategy"
    using h(4) by (simp add: set_strategy_def)
  have dec: "entry_strategy ?e = Inr (to_player_strategy strategy code)"
  proof (cases "strategy = Strategy_Custom")
    case True
    then obtain c where c: "code = Some c" "length c \<le> 64"
      "e' = e\<lparr>e_bytecode_len := of_nat (length c), e_bytecode := c @ drop (length c) (e_bytecode e)\<rparr>"
      using h(3) by (auto simp: check_commitment_def handler_iffs MAX_BYTECODE_LEN_def)
    then have "unat (of_nat (length c) :: u8) = length c" by (simp add: unat_of_nat)
    then show ?thesis using True by (simp add: entry_strategy_def c(1,3))
  next
    case False
    then show ?thesis
      by (cases strategy) (simp_all add: entry_strategy_def to_player_strategy_def)
  qed
  have no_reveal: "reveal_strategy env' ek tk p' strategy' salt' code' s' \<noteq> Inr s''" for env' p' strategy' salt' code' s''
    using acc(1) by (auto elim!: reveal_strategyE)
  have no_forfeit: "forfeit_unrevealed env' ck ek tk op s' \<noteq> Inr s''" for env' ck op s''
    using acc(1) by (auto elim!: forfeit_unrevealedE)
  show ?thesis
    by (intro exI [of _ ?e] exI [of _ ?t] exI [of _ n] conjI allI acc dec slot no_reveal no_forfeit)
qed

theorem reveal_is_played_witness:
  "\<exists>s' e t n. reveal_strategy (demo_env 120 8) 2053 3 8 Strategy_Custom (replicate 16 0) (Some [0]) demo_revealing = Inr s' \<and>
     accounts s' 2053 = Some (EntryData e) \<and> accounts s' 3 = Some (TournamentData t n) \<and> entry_strategy e = Inr (Custom [0])"
proof -
  obtain s' where s': "reveal_strategy (demo_env 120 8) 2053 3 8 Strategy_Custom (replicate 16 0) (Some [0]) demo_revealing = Inr s'"
    using demo_reveal_run(2) by blast
  from reveal_is_played [OF this] s' show ?thesis by (auto simp: to_player_strategy_def)
qed

lemma small_u8: "unat (i :: u8) < 10 \<Longrightarrow> i \<in> {0, 1, 2, 3, 4, 5, 6, 7, 8, 9}"
proof -
  assume "unat i < 10"
  then have "unat i \<in> {0, 1, 2, 3, 4, 5, 6, 7, 8, 9}" by auto
  then show ?thesis by (auto simp: word_unat_eq_iff)
qed

lemma from_index_None: "from_index i = None \<longleftrightarrow> 9 < i"
proof
  assume "from_index i = None"
  then have "\<not> unat i < 10" using small_u8 [of i] by (auto simp: from_index_def)
  then show "9 < i" by (simp add: word_less_nat_alt)
qed (auto simp: from_index_def word_less_nat_alt)

lemma from_index_builtin: "i < 9 \<Longrightarrow> \<exists>b. map_option to_strategy_base (from_index i) = Some (Some b)"
  using small_u8 [of i] by (auto simp: from_index_def word_less_nat_alt)

text \<open>
  The index of a strategy determines it, only indices above nine are refused,
  and the index that a forfeit draws always names one of the nine built-in strategies, so a forfeit
  never fails for lack of a strategy and never assigns a custom one.
\<close>

lemma strategy_indices:
  "from_index (strategy_as_u8 strategy) = Some strategy \<and> (from_index i = None \<longleftrightarrow> 9 < i) \<and>
   (\<exists>b. map_option to_strategy_base (from_index (x mod 9)) = Some (Some b))"
proof -
  have "from_index (strategy_as_u8 strategy) = Some strategy" by (cases strategy) (simp_all add: from_index_def)
  moreover have "x mod 9 < 9" by (simp add: word_less_nat_alt word_nat)
  ultimately show ?thesis using from_index_None from_index_builtin by blast
qed

section \<open>Running a tournament\<close>

text \<open>The frame of a batch: only entries of this tournament that were passed change, in score and matches.\<close>

definition rescored :: "Pubkey \<Rightarrow> AccountData option \<Rightarrow> AccountData option \<Rightarrow> bool" where
  "rescored tk d d' \<longleftrightarrow>
     (\<exists>e x m. d = Some (EntryData e) \<and> e_tournament e = tk \<and> d' = Some (EntryData (e\<lparr>e_score := x, e_matches_played := m\<rparr>)))"

definition scores_only :: "Pubkey \<Rightarrow> Pubkey list \<Rightarrow> Ledger \<Rightarrow> Ledger \<Rightarrow> bool" where
  "scores_only tk accs s s' \<longleftrightarrow> lamports s' = lamports s \<and>
     (\<forall>k. accounts s' k = accounts s k \<or> k \<in> set accs \<and> rescored tk (accounts s k) (accounts s' k))"

lemma rescored_trans: "rescored tk d d1 \<Longrightarrow> rescored tk d1 d2 \<Longrightarrow> rescored tk d d2"
  by (auto simp: rescored_def) blast

lemma scores_only_refl [simp]: "scores_only tk accs s s"
  by (simp add: scores_only_def)

lemma scores_only_trans:
  assumes "scores_only tk accs s s1" "scores_only tk accs s1 s2"
  shows "scores_only tk accs s s2"
  using assms rescored_trans unfolding scores_only_def by metis

lemma scores_only_store:
  "accounts s k = Some (EntryData e) \<Longrightarrow> e_tournament e = tk \<Longrightarrow> k \<in> set accs \<Longrightarrow>
     scores_only tk accs s (store k (EntryData (e\<lparr>e_score := x, e_matches_played := m\<rparr>)) s)"
  by (auto simp: scores_only_def rescored_def)

lemma run_one_match_scores_only:
  assumes env: "env_ok net env" and inv: "ledger_inv net (store tk (TournamentData t n) s)" and st: "t_state t = Running"
    and run: "run_one_match env accs tk i (t, s) = Inr (t', s')" and tk: "\<And>e. accounts s tk \<noteq> Some (EntryData e)"
  shows "scores_only tk accs s s'"
  using run
proof (cases rule: run_one_matchE)
  case (play ia ib ka kb ea eb sa sb r ea' eb' sc sc')
  let ?s = "store tk (TournamentData t n) s"
  have t: "accounts ?s tk = Some (TournamentData t n)" by simp
  note tinv = tournament_inv_of [OF inv t]
  have np: "t_state t \<noteq> Payout" using st by simp
  have own: "e_tournament e = tk"
    if "k = fst (find_program_address env (entry_seeds tk (t_players t ! j)))" "j < length (t_players t)"
      "t_players t ! j \<noteq> default_pubkey" "accounts s k = Some (EntryData e)" for k j e
  proof -
    have k: "k = entry_key net tk (t_players t ! j)" using env that(1) by (simp add: env_ok_def entry_key_def address_def)
    note slot = that(2,3)
    have neq: "k \<noteq> tk" using that(4) tk by blast
    obtain d where d: "accounts ?s (entry_key net tk (t_players t ! j)) = Some (EntryData d)" "e_tournament d = tk"
      using entry_of_slot [OF tinv np slot] by blast
    then have "accounts s k = Some (EntryData d)" using neq by (simp add: k)
    with that(4) d(2) show ?thesis by simp
  qed
  have ka: "e_tournament ea = tk" by (rule own [OF play(6,2,4,8)])
  have kb: "e_tournament eb = tk" by (rule own [OF play(7,3,5,9)])
  obtain va vb ma mb where e': "ea' = ea\<lparr>e_score := va, e_matches_played := ma\<rparr>" "eb' = eb\<lparr>e_score := vb, e_matches_played := mb\<rparr>"
    using play(15,16) by (auto simp: add_result_Inr_iff)
  show ?thesis
  proof (cases "ka = kb")
    case True
    then have "ea = eb" using play(8,9) by simp
    with True show ?thesis
      using scores_only_store [OF play(9) kb play(22)] by (simp add: play(20) e')
  next
    case False
    have "scores_only tk accs s (store ka (EntryData ea') s)"
      unfolding e'(1) by (rule scores_only_store [OF play(8) ka play(21)])
    moreover have "scores_only tk accs (store ka (EntryData ea') s) s'"
      unfolding play(20) e'(2) by (rule scores_only_store [OF _ kb play(22)]) (use play(9) False in simp)
    ultimately show ?thesis by (rule scores_only_trans)
  qed
qed simp

lemma run_batch_scores_only:
  assumes env: "env_ok net env"
    and "ledger_inv net (store tk (TournamentData t n) s)" "t_state t = Running"
    and "unat (t_matches_completed t) + length is \<le> unat (t_matches_total t)"
    and "run_batch env accs tk is (t, s) = Inr (t', s')" "\<And>e. accounts s tk \<noteq> Some (EntryData e)"
  shows "scores_only tk accs s s'"
  using assms(2-)
proof (induction "is" arbitrary: t s)
  case (Cons i "is")
  obtain t1 s1 where one: "run_one_match env accs tk i (t, s) = Inr (t1, s1)"
    and rest: "run_batch env accs tk is (t1, s1) = Inr (t', s')"
    using Cons.prems(4) by (auto simp: and_then_Inr_iff)
  have lt: "t_matches_completed t < t_matches_total t" using Cons.prems(3) by (simp add: word_less_nat_alt)
  note r = ledger_inv_run_one_match [OF env Cons.prems(1,2) lt one]
  note so = run_one_match_scores_only [OF env Cons.prems(1,2) one Cons.prems(5)]
  have "unat (t_matches_completed t) + 1 < 2 ^ 32"
    using lt unat_less_length [of "t_matches_total t"] by (simp add: word_less_nat_alt)
  then have c: "unat (t_matches_completed t1) = unat (t_matches_completed t) + 1" by (simp add: r(4) word_nat)
  have "accounts s1 tk \<noteq> Some (EntryData e)" for e
  proof -
    have "accounts s1 tk = accounts s tk \<or> (\<exists>e. accounts s tk = Some (EntryData e))"
      using so unfolding scores_only_def rescored_def by blast
    then show ?thesis using Cons.prems(5) by metis
  qed
  then have "scores_only tk accs s1 s'" using Cons.IH [OF r(1,2) _ rest] Cons.prems(3) r(3) c by simp
  with so show ?case by (rule scores_only_trans)
qed simp

lemma batch_progress:
  assumes "network_ok net" "reachable net s" "env_ok net env" "accounts s tk = Some (TournamentData t n)"
    and "run_matches env ck tk op accs s = Inr s'"
  shows "\<exists>t'. accounts s' tk = Some (TournamentData t' n) \<and> lamports s' = lamports s \<and>
    unat (t_matches_completed t') = min (unat (t_matches_total t)) (unat (t_matches_completed t) + 5) \<and>
    t' = t\<lparr>t_scores := t_scores t', t_matches_completed := t_matches_completed t', t_operator_costs := t_operator_costs t'\<rparr> \<and>
    (t_matches_completed t = t_matches_total t \<longrightarrow> s' = s) \<and>
    (\<forall>k. k \<noteq> tk \<longrightarrow> accounts s' k = accounts s k \<or> k \<in> set accs \<and> rescored tk (accounts s k) (accounts s' k))"
  using assms(5)
proof (cases rule: run_matchesE)
  case (1 c u m r)
  then have u: "u = t" using assms(4) by simp
  have le: "t_matches_completed t \<le> t_matches_total t"
    using tournament_inv_of [OF reachable_inv [OF assms(1,2)] assms(4)] 1(6) by (simp add: u tournament_inv_def phase_ok_def)
  have "t_matches_total t - t_matches_completed t = 0"
    using 1(7,8) by (auto simp: u min_def MATCHES_PER_TX_def split: if_splits)
  then have "t_matches_completed t = t_matches_total t" by simp
  then show ?thesis using assms(4) by (simp add: 1(9))
next
  case (2 c u m r costs u' s1)
  then have u: "u = t" "m = n" using assms(4) by simp_all
  have le: "unat (t_matches_completed t) \<le> unat (t_matches_total t)"
    using tournament_inv_of [OF reachable_inv [OF assms(1,2)] assms(4)] 2(6)
    by (simp add: u tournament_inv_def phase_ok_def word_le_nat_alt)
  have r: "unat r = min 5 (unat (t_matches_total t) - unat (t_matches_completed t))"
    using le by (simp add: 2(7) u unat_min_word MATCHES_PER_TX_def word_nat word_le_nat_alt)
  obtain sc where sc: "u' = t\<lparr>t_operator_costs := costs, t_scores := sc, t_matches_completed := t_matches_completed t + of_nat (unat r)\<rparr>"
    and e: "entries_only s s1"
    using run_batch_effect [OF 2(11)] by (auto simp: u)
  have "unat r \<noteq> 0" using 2(8) by (simp add: unat_eq_0)
  then have more: "t_matches_completed t \<noteq> t_matches_total t" using r by auto
  have "unat (t_matches_completed t + r) = unat (t_matches_completed t) + unat r"
    using r le unat_less_length [of "t_matches_total t"] by (intro unat_add_no_wrap) simp
  moreover have "unat (t_matches_completed t) + unat r = min (unat (t_matches_total t)) (unat (t_matches_completed t) + 5)"
    using r le by linarith
  moreover have "t_matches_completed u' = t_matches_completed t + r" by (simp add: sc)
  ultimately have cnt: "unat (t_matches_completed u') = min (unat (t_matches_total t)) (unat (t_matches_completed t) + 5)"
    by metis
  have so: "scores_only tk accs s s1"
  proof (rule run_batch_scores_only [OF assms(3) _ _ _ 2(11)])
    show "ledger_inv net (store tk (TournamentData (u\<lparr>t_operator_costs := costs\<rparr>) n) s)"
      using ledger_inv_store_tournament [OF reachable_inv [OF assms(1,2)] assms(4) _ _
          tournament_inv_costs [OF tournament_inv_of [OF reachable_inv [OF assms(1,2)] assms(4)]]] 2(6)
      by (simp add: u)
  qed (use 2(6) assms(4) r le in \<open>simp_all add: u\<close>)
  show ?thesis
  proof (intro exI [of _ u'] conjI)
    show "accounts s' tk = Some (TournamentData u' n)" by (simp add: 2(12) u)
    show "lamports s' = lamports s" using e by (simp add: 2(12) entries_only_def)
    show "u' = t\<lparr>t_scores := t_scores u', t_matches_completed := t_matches_completed u', t_operator_costs := t_operator_costs u'\<rparr>"
      by (simp add: sc)
    show "(\<forall>k. k \<noteq> tk \<longrightarrow> accounts s' k = accounts s k \<or> k \<in> set accs \<and> rescored tk (accounts s k) (accounts s' k))"
      using so by (simp add: 2(12) scores_only_def)
  qed (use cnt more in simp_all)
qed

text \<open>
  C12. Progress. In a reachable ledger every successful batch advances the counter of matches by five
  or to the end, never beyond it. It changes no balance, nothing of the tournament but the scores, the
  counter and the operator's costs, and no other account except entries of this tournament that were
  passed to it, of these only the score and the number of matches; with no match left it changes
  nothing. So a fifth of the matches, rounded up, is the number of calls after which the tournament can
  be finalized.
\<close>

theorem run_matches_progress:
  assumes "network_ok net" "reachable net s" "env_ok net env" "accounts s tk = Some (TournamentData t n)"
    and "run_matches env ck tk op accs s = Inr s'"
  shows "\<exists>t'. accounts s' tk = Some (TournamentData t' n) \<and> lamports s' = lamports s \<and>
    unat (t_matches_completed t') = min (unat (t_matches_total t)) (unat (t_matches_completed t) + 5) \<and>
    t' = t\<lparr>t_scores := t_scores t', t_matches_completed := t_matches_completed t', t_operator_costs := t_operator_costs t'\<rparr> \<and>
    (t_matches_completed t = t_matches_total t \<longrightarrow> s' = s) \<and>
    (\<forall>k. k \<noteq> tk \<longrightarrow> accounts s' k = accounts s k \<or> k \<in> set accs \<and> rescored tk (accounts s k) (accounts s' k))"
  by (rule batch_progress [OF assms])

lemma demo_run_matches:
  "accounts demo_running 3 = Some (TournamentData (demo_tournament\<lparr>t_state := Running, t_matches_per_player := 1,
     t_matches_total := 1, t_reveal_ends := 200, t_reveals_completed := 2, t_strategies := [1, 9]\<rparr>) (BASE_SPACE + 2 * BYTES_PER_PLAYER))"
  "\<exists>s'. run_matches (demo_env 202 4) 1 3 4 [1541, 2053] demo_running = Inr s'"
  using demo_matches_run by (auto simp: demo_running_def demo_matches_def and_then_Inr_iff)

theorem run_matches_progress_witness:
  "\<exists>s' t' n. run_matches (demo_env 202 4) 1 3 4 [1541, 2053] demo_running = Inr s' \<and>
     accounts s' 3 = Some (TournamentData t' n) \<and> t_matches_completed t' = 1"
proof -
  obtain s' where s': "run_matches (demo_env 202 4) 1 3 4 [1541, 2053] demo_running = Inr s'"
    using demo_run_matches(2) by blast
  have "t_matches_completed demo_tournament = 0" by (simp add: demo_states)
  with run_matches_progress [OF demo_network_ok demo_running_reachable demo_env_ok demo_run_matches(1) s'] s' show ?thesis
    by (auto simp: word_unat_eq_iff)
qed

text \<open>
  C10. Winners. The threshold that finalization computes from the scores of the occupied slots is
  such that at least a quarter of the players, rounded up, reach it and fewer than that exceed it; the
  number of winners it records is exactly the number of open entries at or above the threshold, and
  there is at least one.
\<close>

theorem winners_are_top_quarter:
  assumes "network_ok net" "reachable net s" "accounts s tk = Some (TournamentData t n)" "t_state t = Running"
    and "t_participant_count t \<noteq> 0" "threshold = winning_threshold (t_participant_count t) (sorted_scores t)"
  shows "(unat (t_participant_count t) + 3) div 4 \<le> card {ek. \<exists>e. entries_of s tk ek = Some e \<and> threshold \<le> e_score e} \<and>
    card {ek. \<exists>e. entries_of s tk ek = Some e \<and> threshold < e_score e} < (unat (t_participant_count t) + 3) div 4 \<and>
    unat (count_winners threshold (sorted_scores t)) = card {ek. \<exists>e. entries_of s tk ek = Some e \<and> threshold \<le> e_score e} \<and>
    count_winners threshold (sorted_scores t) \<noteq> 0"
proof -
  note ti = tournament_inv_of [OF reachable_inv [OF assms(1,2)] assms(3)]
  have np: "t_state t \<noteq> Payout" using assms(4) by simp
  have pos: "0 < unat (t_participant_count t)" using assms(5) by (simp add: unat_gt_0)
  note len = length_sorted_scores [OF ti np]
  have q: "(unat (t_participant_count t) + 3) div 4 \<le> length (filter (\<lambda>x. threshold \<le> x) (sorted_scores t))"
    "length (filter (\<lambda>x. threshold < x) (sorted_scores t)) < (unat (t_participant_count t) + 3) div 4"
    using winning_threshold_quantile [OF sorted_scores_desc pos len] unat_target_winners(1) [OF pos]
    by (simp_all add: assms(6))
  have c: "length (filter P (sorted_scores t)) = card {ek. \<exists>e. entries_of s tk ek = Some e \<and> P (e_score e)}" for P
    using length_filter_sorted_scores [of t P] card_entries_slots [OF ti np, of P] ti
    by (simp add: tournament_inv_def vectors_ok_def)
  note cw = card_winner_keys [OF ti np, of threshold]
  have "0 < (unat (t_participant_count t) + 3) div 4" using pos by simp
  then have "0 < unat (count_winners threshold (sorted_scores t))"
    using q(1) cw c [of "\<lambda>x. threshold \<le> x"] by linarith
  then have "count_winners threshold (sorted_scores t) \<noteq> 0" by (simp add: unat_gt_0)
  then show ?thesis using q cw c [of "\<lambda>x. threshold \<le> x"] c [of "\<lambda>x. threshold < x"] by simp
qed

lemma demo_played_tournament:
  "\<exists>t n. accounts demo_played 3 = Some (TournamentData t n) \<and> t_state t = Running \<and> t_participant_count t = 2 \<and>
     winning_threshold (t_participant_count t) (sorted_scores t) = 100"
  by (simp add: demo_played_def demo_states winning_threshold_def sorted_scores_def target_winners_def div_ceil_def)

theorem winners_are_top_quarter_witness:
  "1 \<le> card {ek. \<exists>e. entries_of demo_played 3 ek = Some e \<and> 100 \<le> e_score e} \<and>
   card {ek. \<exists>e. entries_of demo_played 3 ek = Some e \<and> 100 < e_score e} < 1"
proof -
  obtain t n where t: "accounts demo_played 3 = Some (TournamentData t n)" "t_state t = Running"
      "t_participant_count t = 2" "winning_threshold (t_participant_count t) (sorted_scores t) = 100"
    using demo_played_tournament by blast
  show ?thesis
    using winners_are_top_quarter [OF demo_network_ok demo_played_reachable t(1,2) _ t(4) [symmetric]] by (simp add: t(3))
qed

end
