(* ===== verification/Gap_Scenario.thy ===== *)
theory Gap_Scenario
  imports Scenario
begin

text \<open>
  A second run on the same network, in which a player leaves and enters again. The slot of the first
  entry stays empty, so two players occupy the second and third of three slots.
\<close>

definition gap_entry6 :: Entry where
  "gap_entry6 = new_entry 3 6 2 demo_commitment6 40 255"

definition gap_tournament :: Tournament where
  "gap_tournament = register_player 6 (refund_slot 0 demo_tournament)"

definition gap_registered :: Ledger where
  "gap_registered = \<lparr>
     lamports = lamports demo_registered,
     accounts = [1 \<mapsto> ConfigData demo_config, 1541 \<mapsto> EntryData gap_entry6, 2053 \<mapsto> EntryData demo_entry8,
       3 \<mapsto> TournamentData gap_tournament (BASE_SPACE + 3 * BYTES_PER_PLAYER)]\<rparr>"

definition gap_setup :: "(Env \<times> Instruction) list" where
  "gap_setup =
    [(demo_env 30 6, ClaimRefund 3 1541 6),
     (demo_env 40 6, EnterTournament 1 3 1541 6 demo_commitment6)]"

lemmas gap_states = gap_entry6_def gap_tournament_def refund_slot_def clear_slot_def demo_states

lemma gap_setup_run: "run_all gap_setup demo_registered = Inr gap_registered"
  by (simp add: gap_setup_def demo_registered_def gap_registered_def demo_wallets_def claim_refund_def enter_tournament_def
      checked_sub_def gap_states ledger_eval fun_upd_twist cong: and_then_weak_cong check_weak_cong)

definition gap_reveals :: "(Env \<times> Instruction) list" where
  "gap_reveals = (demo_env 100 4, CloseRegistration 1 3 4) # demo_reveals"

text \<open>Everything is revealed and one match is to be played, the one of the first two slots.\<close>

definition gap_running_tournament :: Tournament where
  "gap_running_tournament = gap_tournament\<lparr>t_state := Running, t_matches_per_player := 1, t_matches_total := 1,
     t_reveal_ends := 200, t_reveals_completed := 2, t_strategies := [- 1, 9, 1]\<rparr>"

definition gap_player6 :: Entry where
  "gap_player6 = gap_entry6\<lparr>e_strategy := Strategy_AlwaysDefect, e_revealed := True\<rparr>"

definition gap_running :: Ledger where
  "gap_running = \<lparr>
     lamports = lamports demo_registered,
     accounts = [1 \<mapsto> ConfigData demo_config, 1541 \<mapsto> EntryData gap_player6,
       2053 \<mapsto> EntryData (demo_entry8\<lparr>e_strategy := Strategy_Custom, e_revealed := True, e_bytecode_len := 1,
         e_bytecode := 0 # replicate 63 0\<rparr>),
       3 \<mapsto> TournamentData gap_running_tournament (BASE_SPACE + 3 * BYTES_PER_PLAYER)]\<rparr>"

lemma gap_reveals_run: "run_all gap_reveals gap_registered = Inr gap_running"
  by (simp add: gap_reveals_def demo_reveals_def gap_running_def gap_registered_def gap_running_tournament_def gap_player6_def
      reveal_eval close_registration_def close_reveal_def operator_accounts_def checked_add_def start_running_def mix_seed_zero
      two_players gap_states ledger_eval cong: and_then_weak_cong check_weak_cong)

text \<open>The only match is skipped, and the tournament is ready to be finalized without any play.\<close>

lemma gap_match_run:
  "dispatch (demo_env 202 4) (RunMatches 1 3 4 [1541, 2053]) gap_running = Inr (gap_running\<lparr>accounts := (accounts gap_running)
     (3 \<mapsto> TournamentData (gap_running_tournament\<lparr>t_matches_completed := 1\<rparr>) (BASE_SPACE + 3 * BYTES_PER_PLAYER))\<rparr>)"
  by (simp add: gap_running_def gap_running_tournament_def run_matches_def run_one_match_def MATCHES_PER_TX_def
      operator_accounts_def checked_add_def demo_pairing gap_states ledger_eval
      cong: and_then_weak_cong check_weak_cong)

lemma gap_running_reachable: "reachable demo_net gap_running"
proof (rule reachable_run_all [OF _ _ gap_reveals_run])
  show "reachable demo_net gap_registered"
    by (rule reachable_run_all [OF _ demo_registered_reachable gap_setup_run])
      (simp add: gap_setup_def demo_env_ok honest_def)
qed (simp add: gap_reveals_def demo_reveals_def demo_env_ok honest_def)

end
