(* ===== verification/Play_Inv.thy ===== *)
theory Play_Inv
  imports Phases
begin

text \<open>
  What the program keeps true of the contents of its accounts, apart from the money. The contract of
  the handlers is a locale: a property of tournaments and one of entries that hold of new accounts
  and that every update of the handlers keeps are kept by every instruction. Its instance says what
  the batches of matches rely on: the schedule is the one for the participants, scores are small, and
  stored programs fit their array.
\<close>

lemma unat_inc: "x < y \<Longrightarrow> unat (x + 1 :: u32) = unat x + 1"
  using unat_less_length [of y] by (subst unat_add_no_wrap) (simp_all add: word_less_nat_alt)

lemma clear_slot_state: "t_state (clear_slot i t) = t_state t"
  by (simp add: clear_slot_def)

lemma mod_2_word: "(x :: u32) mod 2 = 1 \<longleftrightarrow> odd (unat x)"
  by (simp add: word_unat_eq_iff unat_mod_word odd_iff_mod_2_eq_one)

lemma odd_minus_1: "(x :: u32) mod 2 = 1 \<Longrightarrow> even (unat (x - 1))"
  unfolding mod_2_word by (subst unat_sub_1) (auto intro: odd_pos)

lemma match_scores: "unat (total_score_a (run_match sa sb seed i n)) \<le> 250" "unat (total_score_b (run_match sa sb seed i n)) \<le> 250"
  using score_sums [of "match_length seed i n" sa sb "match_rng seed i n"] match_length_le_50 [of seed i n]
  by (simp_all add: run_match_fields)

section \<open>Properties of account contents\<close>

locale account_law =
  fixes P :: "Tournament \<Rightarrow> bool" and Q :: "Entry \<Rightarrow> bool"
  assumes tournament_new: "P (new_tournament tid c now bump)"
    and tournament_costs: "P t \<Longrightarrow> P (t\<lparr>t_operator_costs := costs\<rparr>)"
    and tournament_register: "t_state t = Registration \<Longrightarrow> P t \<Longrightarrow> P (register_player p t)"
    and tournament_refund: "t_state t = Registration \<Longrightarrow> P t \<Longrightarrow>
      P ((clear_slot i t)\<lparr>t_participant_count := a, t_entries_remaining := b, t_pool := x\<rparr>)"
    and tournament_close_registration: "t_state t = Registration \<Longrightarrow> P t \<Longrightarrow>
      P (t\<lparr>t_operator_costs := costs, t_state := Reveal, t_reveal_ends := y\<rparr>)"
    and tournament_set_strategy: "t_state t = Reveal \<Longrightarrow> P t \<Longrightarrow> i < length (t_players t) \<Longrightarrow>
      t_players t ! i \<noteq> default_pubkey \<Longrightarrow> P (set_strategy i st t)"
    and tournament_refund_odd: "t_state t = Reveal \<Longrightarrow> P t \<Longrightarrow>
      P ((clear_slot i t)\<lparr>t_participant_count := a, t_reveals_completed := z, t_pool := x, t_entries_remaining := b\<rparr>)"
    and tournament_start_empty: "t_state t = Reveal \<Longrightarrow> P t \<Longrightarrow> t_participant_count t = 0 \<Longrightarrow> P (start_empty t)"
    and tournament_start_running: "t_state t = Reveal \<Longrightarrow> P t \<Longrightarrow> t_participant_count t \<noteq> 0 \<Longrightarrow>
      even (unat (t_participant_count t)) \<Longrightarrow> length h = 32 \<Longrightarrow> P (start_running h t)"
    and tournament_skip: "t_state t = Running \<Longrightarrow> P t \<Longrightarrow> t_matches_completed t < t_matches_total t \<Longrightarrow>
      P (t\<lparr>t_matches_completed := t_matches_completed t + 1\<rparr>)"
    and tournament_match: "t_state t = Running \<Longrightarrow> P t \<Longrightarrow> t_matches_completed t < t_matches_total t \<Longrightarrow>
      unat u \<le> 250 \<Longrightarrow> unat v \<le> 250 \<Longrightarrow> add_score i u (t_scores t) = Inr sc \<Longrightarrow> add_score j v sc = Inr sc' \<Longrightarrow>
      P (t\<lparr>t_scores := sc', t_matches_completed := t_matches_completed t + 1\<rparr>)"
    and tournament_payout: "t_state t = Payout \<Longrightarrow> P t"
    and tournament_remaining: "t_state t = Running \<Longrightarrow> P t \<Longrightarrow> t_matches_completed t \<le> t_matches_total t"
    and entry_new: "Q (new_entry tk p i cm now bump)"
    and entry_commitment: "Q e \<Longrightarrow> check_commitment env st salt code e = Inr e' \<Longrightarrow> Q e'"
    and entry_revealed: "Q e \<Longrightarrow> Q (e\<lparr>e_strategy := st, e_revealed := True\<rparr>)"
    and entry_result: "Q e \<Longrightarrow> add_result score e = Inr e' \<Longrightarrow> Q e'"
begin

fun good :: "AccountData \<Rightarrow> bool" where
  "good (TournamentData t n) = P t"
| "good (EntryData e) = Q e"
| "good (ConfigData c) = True"

definition all_good :: "Ledger \<Rightarrow> bool" where
  "all_good s \<longleftrightarrow> (\<forall>k d. accounts s k = Some d \<longrightarrow> good d)"

lemma all_good_store [simp]: "good d \<Longrightarrow> all_good s \<Longrightarrow> all_good (store k d s)"
  by (simp add: all_good_def)

lemma all_good_accounts: "accounts s' = accounts s \<Longrightarrow> all_good s \<Longrightarrow> all_good s'"
  by (simp add: all_good_def)

lemma all_good_move [simp]: "all_good (move_lamports a b x s) \<longleftrightarrow> all_good s"
  by (simp add: all_good_def)

lemma all_good_close [simp]: "all_good s \<Longrightarrow> all_good (close_account a b s)"
  by (simp add: all_good_def)

lemma all_good_remove [simp]: "all_good s \<Longrightarrow> all_good (remove_account a s)"
  by (simp add: all_good_def)

lemma good_tournament: "all_good s \<Longrightarrow> accounts s k = Some (TournamentData t n) \<Longrightarrow> P t"
  unfolding all_good_def using good.simps(1) by blast

lemma good_entry: "all_good s \<Longrightarrow> accounts s k = Some (EntryData e) \<Longrightarrow> Q e"
  unfolding all_good_def using good.simps(2) by blast

lemma good_initialize: "initialize_config env ck tk admin params s = Inr s' \<Longrightarrow> all_good s \<Longrightarrow> all_good s'"
  by (elim initialize_configE) (simp add: tournament_new)

lemma good_update_config: "update_config env ck admin params s = Inr s' \<Longrightarrow> all_good s \<Longrightarrow> all_good s'"
  by (elim update_configE) simp

lemma good_withdraw_fees: "withdraw_fees env ck admin s = Inr s' \<Longrightarrow> all_good s \<Longrightarrow> all_good s'"
  by (elim withdraw_feesE) simp

lemma good_enter: "enter_tournament env ck tk ek p cm s = Inr s' \<Longrightarrow> all_good s \<Longrightarrow> all_good s'"
  by (elim enter_tournamentE) (simp add: tournament_register entry_new good_tournament)

lemma slot_of_entry:
  assumes "ledger_inv net s" "accounts s tk = Some (TournamentData t n)" "accounts s ek = Some (EntryData e)" "e_tournament e = tk"
  shows "unat (e_index e) < length (t_players t) \<and> t_players t ! unat (e_index e) \<noteq> default_pubkey"
  using tournament_inv_entry [OF tournament_inv_of [OF assms(1,2)], of ek e] assms(3,4)
  by (simp add: entries_of_iff entry_ok_def)

lemma good_reveal:
  assumes "reveal_strategy env ek tk p st salt code s = Inr s'" "ledger_inv net s" "all_good s"
  shows "all_good s'"
  using assms(1)
proof (rule reveal_strategyE)
  fix e t n e'
  assume h: "accounts s ek = Some (EntryData e)" "accounts s tk = Some (TournamentData t n)" "e_tournament e = tk"
    "t_state t = Reveal" "check_commitment env st salt code e = Inr e'"
    "s' = store tk (TournamentData (set_strategy (unat (e_index e')) st t) n)
            (store ek (EntryData (e'\<lparr>e_strategy := st, e_revealed := True\<rparr>)) s)"
  have "e_index e' = e_index e" using h(5) by (auto simp: check_commitment_def handler_iffs split: if_splits)
  then show ?thesis
    using slot_of_entry [OF assms(2) h(2,1,3)] assms(3) h(4) good_tournament [OF assms(3) h(2)]
      entry_commitment [OF good_entry [OF assms(3) h(1)] h(5)]
    by (simp add: h(6) tournament_set_strategy entry_revealed)
qed

lemma good_forfeit:
  assumes "forfeit_unrevealed env ck ek tk op s = Inr s'" "ledger_inv net s" "all_good s"
  shows "all_good s'"
  using assms(1)
  by (rule forfeit_unrevealedE)
    (use assms(2,3) in \<open>simp add: tournament_set_strategy tournament_costs entry_revealed good_entry good_tournament slot_of_entry\<close>)

lemma good_refund: "claim_refund env tk ek p s = Inr s' \<Longrightarrow> all_good s \<Longrightarrow> all_good s'"
  by (elim claim_refundE) (simp add: tournament_refund good_tournament)

lemma good_payout: "claim_payout env tk ek p s = Inr s' \<Longrightarrow> all_good s \<Longrightarrow> all_good s'"
  by (elim claim_payoutE) (auto simp: all_good_def tournament_payout)

lemma good_close_registration: "close_registration env ck tk op s = Inr s' \<Longrightarrow> all_good s \<Longrightarrow> all_good s'"
  by (elim close_registrationE) (simp add: tournament_close_registration good_tournament)

lemma good_refund_odd:
  assumes "refund_odd tk re rp t s = Inr (t', s')" "t_state t = Reveal" "P t" "all_good s"
  shows "P t' \<and> t_state t' = Reveal \<and> t_participant_count t' = t_participant_count t - 1 \<and> all_good s'"
  using assms(1) by (rule refund_oddE) (use assms in \<open>simp add: tournament_refund_odd clear_slot_state\<close>)

lemma good_close_reveal:
  assumes "close_reveal env ck tk re rp op s = Inr s'" "all_good s"
  shows "all_good s'"
  using assms(1)
proof (rule close_revealE)
  fix c u m costs u1
  assume h: "accounts s tk = Some (TournamentData u m)" "t_state u = Reveal" "u1 = u\<lparr>t_operator_costs := costs\<rparr>"
    "(if t_participant_count u1 = 0
      then Inr (store tk (TournamentData (start_empty u1) m) s)
      else and_then (if t_participant_count u1 mod 2 = 1 then refund_odd tk re rp u1 s else Inr (u1, s)) (\<lambda>(t, s).
        if t_participant_count t = 0 then Inr (store tk (TournamentData (start_empty t) m) s)
        else check (48 \<le> length (slot_hashes env)) (Arena SlotHashUnavailable)
          (Inr (store tk (TournamentData (start_running (take 32 (drop 16 (slot_hashes env))) t) m) s)))) = Inr s'"
  have u1: "P u1" "t_state u1 = Reveal"
    using good_tournament [OF assms(2) h(1)] h(2) by (simp_all add: h(3) tournament_costs)
  have start: "all_good (store tk (TournamentData (start_empty t) m) s1)"
      if "P t" "t_state t = Reveal" "all_good s1" "t_participant_count t = 0" for t s1
    using that by (simp add: tournament_start_empty)
  have run: "all_good (store tk (TournamentData (start_running x t) m) s1)"
      if "P t" "t_state t = Reveal" "all_good s1" "t_participant_count t \<noteq> 0" "even (unat (t_participant_count t))" "length x = 32" for t s1 x
    using that by (simp add: tournament_start_running)
  show ?thesis
  proof (cases "t_participant_count u1 \<noteq> 0 \<and> t_participant_count u1 mod 2 = 1")
    case True
    with h(4) obtain v s1 where v: "refund_odd tk re rp u1 s = Inr (v, s1)"
      "s' = (if t_participant_count v = 0 then store tk (TournamentData (start_empty v) m) s1
        else store tk (TournamentData (start_running (take 32 (drop 16 (slot_hashes env))) v) m) s1)"
      "t_participant_count v \<noteq> 0 \<longrightarrow> 48 \<le> length (slot_hashes env)"
      by (auto simp: and_then_Inr_iff check_Inr_iff split: if_splits)
    note r = good_refund_odd [OF v(1) u1(2,1) assms(2)]
    then have "even (unat (t_participant_count v))" using True odd_minus_1 by simp
    then show ?thesis using v(2,3) r start run [of v s1 "take 32 (drop 16 (slot_hashes env))"] by (auto split: if_splits)
  next
    case False
    with h(4) show ?thesis
      using u1 assms(2) start [of u1 s] run [of u1 s] by (auto simp: check_Inr_iff mod_2_word split: if_splits)
  qed
qed

lemma good_run_one_match:
  assumes "run_one_match env accs tk i (t, s) = Inr (t', s')" "t_state t = Running" "P t" "all_good s"
    "t_matches_completed t < t_matches_total t"
  shows "P t' \<and> all_good s'"
  using assms(1)
proof (cases rule: run_one_matchE)
  case skip
  then show ?thesis using assms by (simp add: tournament_skip)
next
  case (play ia ib ka kb ea eb sa sb r ea' eb' sc sc')
  have "P t'"
    unfolding play(19)
    by (rule tournament_match [OF assms(2,3,5) _ _ play(17,18)]) (simp_all add: play(14) match_scores)
  moreover have "Q ea'" "Q eb'"
    using entry_result good_entry [OF assms(4)] play(8,9,15,16) by blast+
  ultimately show ?thesis using assms(4) by (simp add: play(20))
qed

lemma good_run_batch:
  assumes "run_batch env accs tk is (t, s) = Inr (t', s')" "t_state t = Running" "P t" "all_good s"
    "unat (t_matches_completed t) + length is \<le> unat (t_matches_total t)"
  shows "P t' \<and> all_good s'"
  using assms
proof (induction "is" arbitrary: t s)
  case (Cons i "is")
  then obtain t1 s1 where one: "run_one_match env accs tk i (t, s) = Inr (t1, s1)"
    and rest: "run_batch env accs tk is (t1, s1) = Inr (t', s')"
    by (auto simp: and_then_Inr_iff)
  obtain sc where t1: "t1 = t\<lparr>t_scores := sc, t_matches_completed := t_matches_completed t + 1\<rparr>"
    using run_one_match_effect(1) [OF one] by blast
  have lt: "t_matches_completed t < t_matches_total t" using Cons.prems(5) by (simp add: word_less_nat_alt)
  then have "unat (t_matches_completed t + 1) = unat (t_matches_completed t) + 1" by (rule unat_inc)
  then show ?case
    using Cons.IH [OF rest] good_run_one_match [OF one Cons.prems(2-4) lt] Cons.prems by (simp add: t1)
qed simp

lemma good_run_matches:
  assumes "run_matches env ck tk op accs s = Inr s'" "all_good s"
  shows "all_good s'"
  using assms(1)
proof (cases rule: run_matchesE)
  case 1
  then show ?thesis using assms(2) by simp
next
  case (2 c t n r costs t' s1)
  note p = good_tournament [OF assms(2) 2(2)]
  have le: "t_matches_completed t \<le> t_matches_total t" by (rule tournament_remaining [OF 2(6) p])
  then have "unat (t_matches_completed t) + unat r \<le> unat (t_matches_total t)"
    by (simp add: 2(7) unat_min_word word_nat word_le_nat_alt)
  then have "P t' \<and> all_good s1"
    using 2(6) p assms(2) by (intro good_run_batch [OF 2(11)]) (simp_all add: tournament_costs)
  then show ?thesis by (simp add: 2(12))
qed

lemma good_finalize:
  assumes "finalize_tournament env ck tk nk op s = Inr s'" "all_good s"
  shows "all_good s'"
  using assms(1)
proof (rule finalize_tournamentE)
  fix c u m bump s1 costs c' u' s2
  assume h: "t_state u = Running"
    "s1 = store nk (TournamentData (new_tournament (c_current_tournament_id c + 1) c (unix_timestamp env) bump) BASE_SPACE)
            (move_lamports op nk (rent_top_up env BASE_SPACE (lamports s nk)) s)"
    "(if t_participant_count (u\<lparr>t_operator_costs := costs\<rparr>) = 0 then finalize_empty else finalize_winners) env ck tk op m c
       (u\<lparr>t_operator_costs := costs\<rparr>) s1 = Inr (c', u', s2)"
    "s' = store ck (ConfigData (c'\<lparr>c_current_tournament_id := c_current_tournament_id c + 1\<rparr>))
            (store tk (TournamentData u' m) s2)"
  have s1: "all_good s1" using assms(2) by (simp add: h(2) tournament_new)
  have "t_state u' = Payout \<and> accounts s2 = accounts s1"
    using h(3) by (auto simp: finalize_empty_def finalize_winners_def Let_def check_Inr_iff and_then_Inr_iff split: if_splits)
  then show ?thesis using all_good_accounts [OF _ s1, of s2] by (simp add: h(4) tournament_payout)
qed

lemma good_close_entry:
  assumes "close_entry env ck tk ek p op s = Inr s'" "all_good s"
  shows "all_good s'"
  using assms(1)
proof (rule close_entryE)
  fix c e u m c' u' s1
  assume h: "t_state u = Payout"
    "(if \<not> e_paid_out e \<and> 0 < t_winner_count u \<and> t_min_winning_score u \<le> e_score e
      then settle_entry env ck tk p m c u s else Inr (c, u, s)) = Inr (c', u', s1)"
    "s' = close_account ek p (store ck (ConfigData c')
            (store tk (TournamentData (u'\<lparr>t_entries_remaining := t_entries_remaining u' - 1\<rparr>) m) s1))"
  have "t_state u' = Payout \<and> accounts s1 = accounts s"
    using h(1,2) by (auto split: if_splits elim!: settle_entryE)
  then show ?thesis using all_good_accounts [OF _ assms(2), of s1] by (simp add: h(3) tournament_payout)
qed

lemma good_close_tournament: "close_tournament env ck tk op s = Inr s' \<Longrightarrow> all_good s \<Longrightarrow> all_good s'"
  by (elim close_tournamentE) (auto simp: and_then_Inr_iff split: if_splits)

lemma good_dispatch: "dispatch env ix s = Inr s' \<Longrightarrow> ledger_inv net s \<Longrightarrow> all_good s \<Longrightarrow> all_good s'"
  by (cases ix) (auto intro: good_initialize good_update_config good_withdraw_fees good_enter good_reveal good_refund
      good_payout good_close_registration good_close_reveal good_forfeit good_run_matches good_finalize good_close_entry
      good_close_tournament)

lemma good_reachable:
  assumes "network_ok net" "reachable net s"
  shows "all_good s"
  using assms(2)
proof (induction rule: reachable.induct)
  case (initial s)
  then show ?case by (simp add: all_good_def)
next
  case (more s s')
  from more(2) show ?case
  proof (rule stepE)
    fix env ix assume "dispatch env ix s = Inr s'"
    then show ?thesis by (rule good_dispatch [OF _ reachable_inv [OF assms(1) more(1)] more(3)])
  next
    fix p k amount assume "system_transfer p k amount s = Inr s'"
    then show ?thesis using more(3) by (simp add: system_transfer_Inr_iff)
  qed
qed

lemma reachable_tournament: "network_ok net \<Longrightarrow> reachable net s \<Longrightarrow> accounts s k = Some (TournamentData t n) \<Longrightarrow> P t"
  by (rule good_tournament [OF good_reachable])

end

section \<open>What the matches rely on\<close>

text \<open>
  A match adds at most 250 points to a score; the bound of 500 leaves room for both scores of a match
  to go to the same slot, which the schedule excludes.
\<close>

definition slots_ok :: "Tournament \<Rightarrow> bool" where
  "slots_ok t \<longleftrightarrow> length (t_strategies t) = length (t_players t) \<and>
     (\<forall>i < length (t_players t). t_players t ! i = default_pubkey \<longrightarrow> t_strategies t ! i = - 1)"

definition schedule_ok :: "Tournament \<Rightarrow> bool" where
  "schedule_ok t \<longleftrightarrow>
     even (unat (t_participant_count t)) \<and>
     (if t_participant_count t = 0 then t_matches_total t = 0
      else (\<exists>k. t_matches_per_player t = effective_k (t_participant_count t) k) \<and>
        t_matches_total t = calculate_match_count (t_participant_count t) (t_matches_per_player t) (t_randomness_seed t) \<and>
        length (t_randomness_seed t) = 32)"

definition play_ok :: "Tournament \<Rightarrow> bool" where
  "play_ok t \<longleftrightarrow>
     (t_state t \<noteq> Payout \<longrightarrow> slots_ok t) \<and>
     (t_state t \<in> {Registration, Reveal} \<longrightarrow> t_matches_completed t = 0 \<and> (\<forall>x \<in> set (t_scores t). x = 0)) \<and>
     (t_state t = Running \<longrightarrow> schedule_ok t \<and> t_matches_completed t \<le> t_matches_total t \<and>
        (\<forall>x \<in> set (t_scores t). unat x \<le> 500 * unat (t_matches_completed t)))"

definition program_ok :: "Entry \<Rightarrow> bool" where
  "program_ok e \<longleftrightarrow> unat (e_bytecode_len e) \<le> length (e_bytecode e)"

lemma inc_le_total: "x < y \<Longrightarrow> (x :: u32) + 1 \<le> y"
  by (simp add: word_le_nat_alt unat_inc word_less_nat_alt)

lemma add_score_bound:
  assumes "add_score i v xs = Inr ys" "\<forall>x \<in> set xs. unat x \<le> b" "unat v \<le> 250"
  shows "\<forall>y \<in> set ys. unat y \<le> b + 250"
proof -
  obtain w where w: "i < length xs" "checked_add (xs ! i) v = Some w" "ys = xs[i := w]"
    using assms(1) by (auto simp: add_score_Inr_iff)
  have "unat w \<le> b + 250"
    using checked_add_SomeD(2) [OF w(2)] assms(2) nth_mem [OF w(1)] assms(3) by fastforce
  then show ?thesis
    using assms(2) by (auto simp: w(3) dest!: subsetD [OF set_update_subset_insert] intro: le_trans)
qed

lemma length_mix_seed: "length (mix_seed h tid) = length h"
proof -
  have "length (fold (\<lambda>(i, b) seed. seed[i := seed ! i XOR b]) xs seed) = length seed" for xs and seed :: "u8 list"
    by (induction xs arbitrary: seed) auto
  then show ?thesis by (simp add: mix_seed_def)
qed

lemma nth_update_both:
  "\<forall>i < length xs. xs ! i = d \<longrightarrow> ys ! i = c \<Longrightarrow> length ys = length xs \<Longrightarrow> j < length xs \<Longrightarrow>
   xs[i := d] ! j = d \<Longrightarrow> ys[i := c] ! j = c"
  by (cases "j = i") auto

interpretation play: account_law play_ok program_ok
proof unfold_locales
  fix t :: Tournament and u v :: u32 and i j sc sc'
  assume h: "t_state t = Running" "play_ok t" "t_matches_completed t < t_matches_total t" "unat u \<le> 250" "unat v \<le> 250"
    "add_score i u (t_scores t) = Inr sc" "add_score j v sc = Inr sc'"
  have "\<forall>x \<in> set (t_scores t). unat x \<le> 500 * unat (t_matches_completed t)" using h(1,2) by (simp add: play_ok_def)
  then have "\<forall>x \<in> set sc'. unat x \<le> 500 * unat (t_matches_completed t) + 250 + 250"
    by (intro add_score_bound [OF h(7) add_score_bound [OF h(6)]] h)
  then show "play_ok (t\<lparr>t_scores := sc', t_matches_completed := t_matches_completed t + 1\<rparr>)"
    using h(1-3) by (simp add: play_ok_def schedule_ok_def slots_ok_def inc_le_total unat_inc [OF h(3)])
next
  fix e e' env st salt code
  assume "program_ok e" "check_commitment env st salt code e = Inr e'"
  then show "program_ok e'"
    by (auto simp: check_commitment_def program_ok_def handler_iffs MAX_BYTECODE_LEN_def unat_of_nat
        split: if_splits intro: le_trans [OF mod_less_eq_dividend])
next
  fix t :: Tournament
  assume "t_state t = Running" "play_ok t" "t_matches_completed t < t_matches_total t"
  then show "play_ok (t\<lparr>t_matches_completed := t_matches_completed t + 1\<rparr>)"
    by (fastforce simp: play_ok_def schedule_ok_def slots_ok_def inc_le_total unat_inc)
qed (auto simp: play_ok_def schedule_ok_def slots_ok_def length_mix_seed nth_append nth_list_update less_Suc_eq program_ok_def new_tournament_def register_player_def clear_slot_def
    set_strategy_def start_empty_def start_running_def new_entry_def add_result_Inr_iff Let_def
    elim: nth_update_both)

end
