(* ===== verification/Match_Liveness.thy ===== *)
theory Match_Liveness
  imports Play_Inv
begin

text \<open>
  A batch of matches goes through: in a running tournament of a reachable ledger no check, lookup,
  slice or addition of an iteration can fail once the accounts of the entries are supplied.
\<close>

section \<open>The strategies are there\<close>

lemma all_revealed_iff:
  "length ps \<le> length strategies \<Longrightarrow>
   all_revealed ps strategies = Inr () \<longleftrightarrow> (\<forall>i < length ps. ps ! i \<noteq> default_pubkey \<longrightarrow> strategies ! i \<noteq> - 1)"
proof (induction ps arbitrary: strategies)
  case (Cons p ps)
  then obtain x xs where "strategies = x # xs" by (cases strategies) auto
  with Cons show ?case by (auto simp: All_less_Suc2 check_Inr_iff)
qed simp

lemma strategy_as_u8_revealed: "strategy_as_u8 st \<noteq> - 1"
  by (cases st) simp_all

lemma all_revealed_running:
  assumes inv: "tournament_inv key rent t n ents bal" and st: "t_state t = Running"
  shows "all_revealed (t_players t) (t_strategies t) = Inr ()"
proof -
  have len: "length (t_players t) \<le> length (t_strategies t)" using inv by (simp add: tournament_inv_def vectors_ok_def)
  have "t_strategies t ! i \<noteq> - 1" if i: "i < length (t_players t)" "t_players t ! i \<noteq> default_pubkey" for i
  proof -
    obtain ek e where e: "ents ek = Some e" "unat (e_index e) = i"
      using inv_before_payout(5) [OF inv] st i by (auto simp: slots_filled_def)
    have "revealed_keys ents = dom ents" using inv st by (simp add: tournament_inv_def phase_ok_def)
    then have "ek \<in> revealed_keys ents" using e(1) by auto
    then have "e_revealed e" using e(1) by (auto simp: revealed_keys_def)
    then show ?thesis
      using tournament_inv_entry [OF inv e(1)] e(2) strategy_as_u8_revealed by (simp add: entry_ok_def)
  qed
  then show ?thesis using all_revealed_iff [OF len] by simp
qed

section \<open>One match\<close>

lemma match_count_le:
  assumes "2 \<le> unat n" "unat n \<le> 5000"
  shows "unat (calculate_match_count n (effective_k n k) seed) \<le> 250000"
proof (cases "unat n \<le> 200")
  case True
  then have "unat n * (unat n - 1) \<le> 200 * 199" by (intro mult_le_mono) simp_all
  then have "unat n * (unat n - 1) div 2 \<le> 250000" by linarith
  then show ?thesis using True match_count_effective(1) [OF assms] by simp
next
  case False
  have "unat (clamp k 49 99) \<le> 99" using effective_k_circular(1,3) [of n k] False by simp
  then have "(unat (clamp k 49 99) + 1) div 2 * unat n \<le> 50 * 5000" using assms(2) by (intro mult_le_mono) simp_all
  then show ?thesis using False match_count_effective(1) [OF assms] by simp
qed

lemma entry_strategy_total: "program_ok e \<Longrightarrow> \<exists>st. entry_strategy e = Inr st"
  by (simp add: entry_strategy_def program_ok_def)

lemma find_self: "x \<in> set xs \<Longrightarrow> find (\<lambda>a. a = x) xs = Some x"
  by (induction xs) auto

lemma find_entry_account_given:
  "fst (find_program_address env (entry_seeds tk p)) \<in> set accs \<Longrightarrow>
   find_entry_account env accs tk p = Inr (fst (find_program_address env (entry_seeds tk p)))"
  by (simp add: find_entry_account_def Let_def case_prod_beta find_self ok_or_def)

text \<open>What an iteration needs of one of its two players.\<close>

lemma player_ready:
  assumes env: "env_ok net env" and inv: "ledger_inv net (store tk (TournamentData t n) s)" and st: "t_state t = Running"
    and good: "play.all_good (store tk (TournamentData t n) s)"
    and i: "unat i < length (t_players t)" "t_players t ! unat i \<noteq> default_pubkey"
    and accs: "\<forall>ek e. accounts s ek = Some (EntryData e) \<and> e_tournament e = tk \<longrightarrow> ek \<in> set accs"
  obtains k e p where "find_entry_account env accs tk (t_players t ! unat i) = Inr k" "accounts s k = Some (EntryData e)"
    "e_index e = i" "entry_strategy e = Inr p" "t_scores t ! unat i = e_score e" "unat i < length (t_scores t)"
    "unat (e_score e) \<le> 500 * unat (t_matches_completed t)"
proof -
  let ?s = "store tk (TournamentData t n) s"
  have t: "accounts ?s tk = Some (TournamentData t n)" by simp
  note tinv = tournament_inv_of [OF inv t]
  have np: "t_state t \<noteq> Payout" using st by simp
  obtain e where e: "accounts ?s (entry_key net tk (t_players t ! unat i)) = Some (EntryData e)" "e_tournament e = tk"
      "unat (e_index e) = unat i" "e_player e = t_players t ! unat i"
    using entry_of_slot [OF tinv np i] by blast
  define k where "k = entry_key net tk (t_players t ! unat i)"
  have e': "accounts s k = Some (EntryData e)" using e(1) by (auto simp: k_def split: if_splits)
  have key: "k = fst (find_program_address env (entry_seeds tk (t_players t ! unat i)))"
    using env by (simp add: k_def env_ok_def entry_key_def address_def)
  have "find_entry_account env accs tk (t_players t ! unat i) = Inr k"
    using accs e' e(2) unfolding key by (intro find_entry_account_given) blast
  moreover have "e_index e = i" using e(3) by (simp add: word_unat_eq_iff)
  moreover obtain p where "entry_strategy e = Inr p"
    using entry_strategy_total play.good_entry [OF good e(1)] by blast
  moreover have len: "unat i < length (t_scores t)" using tinv i(1) by (simp add: tournament_inv_def vectors_ok_def)
  moreover have "t_scores t ! unat i = e_score e"
    using tournament_inv_entry [OF tinv, of k e] e(1-3) by (simp add: entries_of_iff k_def entry_ok_def)
  moreover have "unat (t_scores t ! unat i) \<le> 500 * unat (t_matches_completed t)"
    using play.good_tournament [OF good t] st nth_mem [OF len] by (simp add: play_ok_def)
  ultimately show ?thesis using that e' by simp
qed

lemma add_result_small: "unat (e_score e) \<le> 125000000 \<Longrightarrow> unat v \<le> 250 \<Longrightarrow> \<exists>e'. add_result v e = Inr e'"
  by (simp add: add_result_Inr_iff checked_add_def)

lemma add_score_small:
  "i < length xs \<Longrightarrow> unat (xs ! i) \<le> 125000000 \<Longrightarrow> unat v \<le> 250 \<Longrightarrow> \<exists>ys. add_score i v xs = Inr ys \<and> length ys = length xs \<and>
    (\<forall>j. j \<noteq> i \<longrightarrow> ys ! j = xs ! j)"
  by (simp add: add_score_Inr_iff checked_add_def)

lemma run_one_match_total:
  assumes env: "env_ok net env" and inv: "ledger_inv net (store tk (TournamentData t n) s)" and st: "t_state t = Running"
    and good: "play.all_good (store tk (TournamentData t n) s)" and few: "unat (t_participant_count t) \<le> 5000"
    and lt: "t_matches_completed t < t_matches_total t"
    and accs: "\<forall>ek e. accounts s ek = Some (EntryData e) \<and> e_tournament e = tk \<longrightarrow> ek \<in> set accs"
  shows "\<exists>t' s'. run_one_match env accs tk (t_matches_completed t) (t, s) = Inr (t', s')"
proof -
  let ?s = "store tk (TournamentData t n) s"
  have t: "accounts ?s tk = Some (TournamentData t n)" by simp
  note tinv = tournament_inv_of [OF inv t]
  have sched: "schedule_ok t" using play.good_tournament [OF good t] st by (simp add: play_ok_def)
  have "t_participant_count t \<noteq> 0" using sched lt by (auto simp: schedule_ok_def)
  then obtain k where k: "t_matches_per_player t = effective_k (t_participant_count t) k"
    and tot: "t_matches_total t = calculate_match_count (t_participant_count t) (effective_k (t_participant_count t) k) (t_randomness_seed t)"
    using sched by (auto simp: schedule_ok_def)
  have "0 < unat (t_participant_count t)" "even (unat (t_participant_count t))"
    using sched \<open>t_participant_count t \<noteq> 0\<close> by (simp_all add: schedule_ok_def unat_gt_0)
  then have two: "2 \<le> unat (t_participant_count t)" by (auto elim: evenE)
  obtain a b where ab: "get_pairing_for_match (t_participant_count t) (t_matches_per_player t) (t_randomness_seed t) (t_matches_completed t) = Some (Some (a, b))"
      "a < b" "b < t_participant_count t"
    using schedule_total [OF two few, of "unat (t_matches_completed t)" k "t_randomness_seed t"] lt
    by (auto simp: k tot word_less_nat_alt)
  have "unat (t_participant_count t) \<le> length (t_players t)"
    using inv_before_payout(1) [OF tinv] st card_entries_le_slots [OF tinv] by simp
  then have len: "unat a < length (t_players t)" "unat b < length (t_players t)" and neq: "unat b \<noteq> unat a"
    using ab(2,3) by (auto simp: word_less_nat_alt)
  show ?thesis
  proof (cases "t_players t ! unat a = default_pubkey \<or> t_players t ! unat b = default_pubkey")
    case True
    then show ?thesis using ab(1) len by (auto simp: run_one_match_def ok_or_def)
  next
    case False
    have "unat (t_matches_completed t) < 250000"
      using lt match_count_le [OF two few, of k "t_randomness_seed t"] by (simp add: tot word_less_nat_alt)
    then have small: "x \<le> 125000000" if "x \<le> 500 * unat (t_matches_completed t)" for x using that by linarith
    obtain ka ea pa where pa: "find_entry_account env accs tk (t_players t ! unat a) = Inr ka" "accounts s ka = Some (EntryData ea)"
        "e_index ea = a" "entry_strategy ea = Inr pa" "t_scores t ! unat a = e_score ea" "unat a < length (t_scores t)"
        "unat (e_score ea) \<le> 500 * unat (t_matches_completed t)"
      using player_ready [OF env inv st good len(1) _ accs] False by blast
    obtain kb eb pb where pb: "find_entry_account env accs tk (t_players t ! unat b) = Inr kb" "accounts s kb = Some (EntryData eb)"
        "e_index eb = b" "entry_strategy eb = Inr pb" "t_scores t ! unat b = e_score eb" "unat b < length (t_scores t)"
        "unat (e_score eb) \<le> 500 * unat (t_matches_completed t)"
      using player_ready [OF env inv st good len(2) _ accs] False by blast
    define r where "r = run_match pa pb (t_randomness_seed t) (t_matches_completed t) (t_participant_count t)"
    have r: "unat (total_score_a r) \<le> 250" "unat (total_score_b r) \<le> 250" unfolding r_def by (rule match_scores)+
    obtain ea' eb' where e': "add_result (total_score_a r) ea = Inr ea'" "add_result (total_score_b r) eb = Inr eb'"
      using add_result_small small pa(7) pb(7) r by meson
    obtain sc where sc: "add_score (unat a) (total_score_a r) (t_scores t) = Inr sc" "length sc = length (t_scores t)"
        "sc ! unat b = t_scores t ! unat b"
      using add_score_small [OF pa(6) _ r(1)] small [OF pa(7)] neq by (auto simp: pa(5))
    obtain sc' where sc': "add_score (unat b) (total_score_b r) sc = Inr sc'"
      using add_score_small [of "unat b" sc "total_score_b r"] small [OF pb(7)] r(2) pb(6) by (auto simp: sc(2,3) pb(5))
    show ?thesis
      using False ab(1) len pa(1-4) pb(1-4) e' sc(1) sc'
      by (simp add: run_one_match_def ok_or_def deserialize_entry_def r_def [symmetric])
  qed
qed

section \<open>A batch\<close>

lemma entries_only_accs:
  assumes "run_one_match env accs tk i (t, s) = Inr (t', s')"
    and "\<forall>ek e. accounts s ek = Some (EntryData e) \<and> e_tournament e = tk \<longrightarrow> ek \<in> set accs"
  shows "\<forall>ek e. accounts s' ek = Some (EntryData e) \<and> e_tournament e = tk \<longrightarrow> ek \<in> set accs"
  using assms(1)
proof (cases rule: run_one_matchE)
  case skip
  then show ?thesis using assms(2) by simp
next
  case (play ia ib ka kb ea eb sa sb r ea' eb' sc sc')
  have "e_tournament ea' = e_tournament ea" "e_tournament eb' = e_tournament eb"
    using play(15,16) by (auto simp: add_result_Inr_iff)
  then show ?thesis using assms(2) play(8,9) by (auto simp: play(20) split: if_splits)
qed

lemma run_batch_total:
  assumes env: "env_ok net env"
    and "ledger_inv net (store tk (TournamentData t n) s)" "t_state t = Running"
    and "play.all_good s" "play_ok t" "unat (t_participant_count t) \<le> 5000"
    and "unat (t_matches_completed t) + m \<le> unat (t_matches_total t)"
    and "\<forall>ek e. accounts s ek = Some (EntryData e) \<and> e_tournament e = tk \<longrightarrow> ek \<in> set accs"
  shows "\<exists>t' s'. run_batch env accs tk (map (\<lambda>i. t_matches_completed t + of_nat i) [0..<m]) (t, s) = Inr (t', s')"
  using assms(2-)
proof (induction m arbitrary: t s)
  case (Suc m)
  have lt: "t_matches_completed t < t_matches_total t" using Suc.prems(6) by (simp add: word_less_nat_alt)
  have good: "play.all_good (store tk (TournamentData t n) s)" using Suc.prems(3,4) by simp
  obtain t1 s1 where one: "run_one_match env accs tk (t_matches_completed t) (t, s) = Inr (t1, s1)"
    using run_one_match_total [OF env Suc.prems(1,2) good Suc.prems(5) lt Suc.prems(7)] by blast
  note r = ledger_inv_run_one_match [OF env Suc.prems(1,2) lt one]
  obtain sc where t1: "t1 = t\<lparr>t_scores := sc, t_matches_completed := t_matches_completed t + 1\<rparr>"
    using run_one_match_effect(1) [OF one] by blast
  have g: "play.all_good s1" "play_ok t1"
    using play.good_run_one_match [OF one Suc.prems(2,4,3) lt] by simp_all
  then have "\<exists>t' s'. run_batch env accs tk (map (\<lambda>i. t_matches_completed t1 + of_nat i) [0..<m]) (t1, s1) = Inr (t', s')"
    using Suc.prems(5,6) unat_inc [OF lt] by (intro Suc.IH r(1,2) g entries_only_accs [OF one Suc.prems(7)]) (simp_all add: t1)
  moreover have "map (\<lambda>i. t_matches_completed t + of_nat i) [0..<Suc m] =
      t_matches_completed t # map (\<lambda>i. t_matches_completed t1 + of_nat i) [0..<m]"
    by (simp add: upt_conv_Cons map_Suc_upt [symmetric] t1 add.assoc del: upt_Suc)
  ultimately show ?case using one by simp
qed simp

end
