(* ===== verification/Tournament_Properties.thy ===== *)
theory Tournament_Properties
  imports Arena_Properties Gap_Scenario Match_Liveness
begin

text \<open>
  Properties of the operator's instructions: how the reveal phase ends, who plays, that the batches of
  matches go through, and where the money goes when a tournament is finalized.
\<close>

section \<open>Who plays\<close>

lemma reachable_running:
  assumes "network_ok net" "reachable net s" "accounts s tk = Some (TournamentData t n)" "t_state t = Running"
  shows "degree_ok (t_participant_count t) (t_matches_per_player t)" "unat (t_participant_count t) \<le> 65535"
    "unat (t_participant_count t) \<le> length (t_players t)"
proof -
  note ti = tournament_inv_of [OF reachable_inv [OF assms(1,2)] assms(3)]
  show "degree_ok (t_participant_count t) (t_matches_per_player t)"
    using ti assms(4) by (simp add: tournament_inv_def phase_ok_def)
  show "unat (t_participant_count t) \<le> length (t_players t)"
    using inv_before_payout(1) [OF ti] assms(4) card_entries_le_slots [OF ti] by simp
  then show "unat (t_participant_count t) \<le> 65535"
    using ti by (simp add: tournament_inv_def vectors_ok_def)
qed

lemma run_one_match_late:
  assumes "run_one_match env accs tk i (t, s) = Inr (t', s')"
    and "degree_ok (t_participant_count t) (t_matches_per_player t)" "unat (t_participant_count t) \<le> 65535"
    and "accounts s ek = Some (EntryData e)" "t_participant_count t \<le> e_index e"
  shows "accounts s' ek = Some (EntryData e)"
  using assms(1)
proof (cases rule: run_one_matchE)
  case skip
  then show ?thesis using assms(4) by simp
next
  case (play ia ib ka kb ea eb sa sb r ea' eb' sc sc')
  have "ia < ib" "ib < t_participant_count t" using pairing_distinct [OF play(1) assms(2,3)] by simp_all
  then have "e_index e \<noteq> ia" "e_index e \<noteq> ib" using assms(5) by auto
  then have "ek \<noteq> ka" "ek \<noteq> kb" using assms(4) play(8-11) by auto
  then show ?thesis using assms(4) by (simp add: play(20))
qed

lemma run_batch_late:
  assumes "run_batch env accs tk is (t, s) = Inr (t', s')"
    and "degree_ok (t_participant_count t) (t_matches_per_player t)" "unat (t_participant_count t) \<le> 65535"
    and "accounts s ek = Some (EntryData e)" "t_participant_count t \<le> e_index e"
  shows "accounts s' ek = Some (EntryData e)"
  using assms
proof (induction "is" arbitrary: t s)
  case (Cons i "is")
  then obtain t1 s1 where one: "run_one_match env accs tk i (t, s) = Inr (t1, s1)"
    and rest: "run_batch env accs tk is (t1, s1) = Inr (t', s')"
    by (auto simp: and_then_Inr_iff)
  obtain sc where "t1 = t\<lparr>t_scores := sc, t_matches_completed := t_matches_completed t + 1\<rparr>"
    using run_one_match_effect(1) [OF one] by blast
  moreover have "accounts s1 ek = Some (EntryData e)" by (rule run_one_match_late [OF one Cons.prems(2-5)])
  ultimately show ?case using Cons.IH [OF rest] Cons.prems by simp
qed simp

text \<open>
  C19. Empty slots displace players. The schedule numbers the players from zero to the participant
  count, but a refund during registration leaves an empty slot behind, so the slots of the players
  reach beyond the count. In every reachable ledger a batch leaves an entry whose slot lies beyond the
  count as it is: that player never plays a match.
\<close>

theorem late_slots_never_play:
  assumes "network_ok net" "reachable net s" "accounts s tk = Some (TournamentData t n)"
    and "accounts s ek = Some (EntryData e)" "t_participant_count t \<le> e_index e"
    and "run_matches env ck tk op accs s = Inr s'"
  shows "accounts s' ek = Some (EntryData e)"
  using assms(6)
proof (cases rule: run_matchesE)
  case 1
  then show ?thesis using assms(4) by simp
next
  case (2 c u m r costs u' s1)
  then have u: "u = t" using assms(3) by simp
  have "accounts s1 ek = Some (EntryData e)"
    using run_batch_late [OF 2(11)] reachable_running [OF assms(1-3)] 2(6) assms(4,5) by (simp add: u)
  moreover have "ek \<noteq> tk" using assms(3,4) by auto
  ultimately show ?thesis by (simp add: 2(12))
qed

theorem late_slots_never_play_witness:
  "\<exists>s' t n. run_matches (demo_env 202 4) 1 3 4 [1541, 2053] gap_running = Inr s' \<and>
     accounts s' 3 = Some (TournamentData t n) \<and> t_matches_completed t = t_matches_total t \<and> t_participant_count t = 2 \<and>
     accounts s' 1541 = Some (EntryData gap_player6) \<and> e_matches_played gap_player6 = 0"
proof -
  have acc: "accounts gap_running 3 = Some (TournamentData gap_running_tournament (BASE_SPACE + 3 * BYTES_PER_PLAYER))"
    "accounts gap_running 1541 = Some (EntryData gap_player6)" by (simp_all add: gap_running_def)
  have cnt: "t_participant_count gap_running_tournament \<le> e_index gap_player6" "t_participant_count gap_running_tournament = 2"
    "t_matches_total gap_running_tournament = 1" "e_matches_played gap_player6 = 0"
    by (simp_all add: gap_running_tournament_def gap_player6_def gap_states)
  note run = gap_match_run [simplified]
  show ?thesis
    using late_slots_never_play [OF demo_network_ok gap_running_reachable acc cnt(1) run] by (simp add: run cnt)
qed

text \<open>
  A batch goes through: with the entry accounts supplied no lookup, slice or addition of any match can
  fail, whatever the strategies.
\<close>

lemma batch_total:
  assumes "network_ok net" "reachable net s" "env_ok net env" "pda_ok env"
    and "accounts s ck = Some (ConfigData c)" "is_signer env (c_operator c)"
    and "accounts s tk = Some (TournamentData t n)" "t_state t = Running" "unat (t_participant_count t) \<le> 5000"
    and "unat (t_operator_costs t) + unat (c_operator_tx_fee c) < 2 ^ 64"
    and "\<forall>ek e. accounts s ek = Some (EntryData e) \<and> e_tournament e = tk \<longrightarrow> ek \<in> set accs"
  shows "\<exists>s'. run_matches env ck tk (c_operator c) accs s = Inr s'"
proof -
  note inv = reachable_inv [OF assms(1,2)]
  note tinv = tournament_inv_of [OF inv assms(7)] and good = play.good_reachable [OF assms(1,2)]
  have seeds: "seeds_ok env config_seeds (c_bump c) ck" "seeds_ok env (tournament_seeds (t_id t)) (t_bump t) tk"
    using ledger_inv_config [OF inv assms(5)] ledger_inv_tournament [OF inv assms(7)] seeds_okI [OF assms(4,3)]
    by (auto simp: config_account_ok_def tournament_account_ok_def)
  define costs where "costs = t_operator_costs t + c_operator_tx_fee c"
  define m where "m = min MATCHES_PER_TX (t_matches_total t - t_matches_completed t)"
  let ?t = "t\<lparr>t_operator_costs := costs\<rparr>"
  have inv': "ledger_inv net (store tk (TournamentData ?t n) s)"
    using ledger_inv_store_tournament [OF inv assms(7) _ _ tournament_inv_costs [OF tinv]] assms(8) by simp
  have "t_matches_completed t \<le> t_matches_total t"
    using tinv assms(8) by (simp add: tournament_inv_def phase_ok_def)
  then have le: "unat (t_matches_completed ?t) + unat m \<le> unat (t_matches_total ?t)"
    by (simp add: m_def unat_min_word word_nat word_le_nat_alt)
  have ok: "play_ok ?t" using play.good_tournament [OF good assms(7)] by (rule play.tournament_costs)
  obtain t' s' where "run_batch env accs tk (map (\<lambda>i. t_matches_completed ?t + of_nat i) [0..<unat m]) (?t, s) = Inr (t', s')"
    using run_batch_total [OF assms(3) inv' _ good ok _ le assms(11)] assms(8,9) by auto
  then show ?thesis
    using assms(5-8,10) seeds all_revealed_running [OF tinv assms(8)]
    by (simp add: run_matches_def operator_accounts_def load_config_def load_tournament_def checked_add_def ok_or_def
        Let_def m_def costs_def)
qed

section \<open>From the reveal phase to the matches\<close>

lemma close_reveal_effect:
  assumes "close_reveal env ck tk re rp op s = Inr s'" "accounts s tk = Some (TournamentData t n)" "t_matches_completed t = 0"
  shows "\<exists>t'. accounts s' tk = Some (TournamentData t' n) \<and> t_state t' = Running \<and> t_matches_completed t' = 0 \<and>
    t_participant_count t' = t_participant_count t - t_participant_count t mod 2 \<and>
    (t_participant_count t' \<noteq> 0 \<longrightarrow> t_matches_per_player t' = effective_k (t_participant_count t') (t_matches_per_player t))"
  using assms(1)
proof (rule close_revealE)
  fix c u m costs u1
  assume h: "accounts s tk = Some (TournamentData u m)" "u1 = u\<lparr>t_operator_costs := costs\<rparr>"
    "(if t_participant_count u1 = 0
      then Inr (store tk (TournamentData (start_empty u1) m) s)
      else and_then (if t_participant_count u1 mod 2 = 1 then refund_odd tk re rp u1 s else Inr (u1, s)) (\<lambda>(t, s).
        if t_participant_count t = 0 then Inr (store tk (TournamentData (start_empty t) m) s)
        else check (48 \<le> length (slot_hashes env)) (Arena SlotHashUnavailable)
          (Inr (store tk (TournamentData (start_running (take 32 (drop 16 (slot_hashes env))) t) m) s)))) = Inr s'"
  have u: "u = t" "m = n" using assms(2) h(1) by simp_all
  have odd: "t_participant_count v = t_participant_count t - 1 \<and> t_matches_completed v = 0 \<and>
      t_matches_per_player v = t_matches_per_player t" if "refund_odd tk re rp u1 s = Inr (v, s1)" for v s1
    using that by (rule refund_oddE) (use assms(3) in \<open>simp add: h(2) u clear_slot_def\<close>)
  have "x mod 2 = 0 \<or> x mod 2 = 1" for x :: u32
    by (simp add: word_unat_eq_iff unat_mod_word) presburger
  then show ?thesis
    using h(3) odd assms(3)
    by (auto simp: h(2) u and_then_Inr_iff check_Inr_iff start_empty_def start_running_def Let_def split: if_splits)
qed

text \<open>
  C18. The start of the matches. In every reachable ledger, when the operator closes the reveal phase,
  the number of participants becomes even, by refunding the last player if need be; no match has been
  played, and the number of matches is that of the schedule for these participants and this seed, or
  zero without participants; every player who is left has a strategy, so the check of the strategies
  in the batches never fails.
\<close>

theorem close_reveal_starts:
  assumes "network_ok net" "reachable net s" "env_ok net env" "honest net (CloseReveal ck tk re rp op)"
    and "accounts s tk = Some (TournamentData t n)" "close_reveal env ck tk re rp op s = Inr s'"
  shows "\<exists>t'. accounts s' tk = Some (TournamentData t' n) \<and> t_state t' = Running \<and> t_matches_completed t' = 0 \<and>
    unat (t_participant_count t') = 2 * (unat (t_participant_count t) div 2) \<and>
    t_matches_total t' = (if t_participant_count t' = 0 then 0
      else calculate_match_count (t_participant_count t') (effective_k (t_participant_count t') (t_matches_per_player t))
             (t_randomness_seed t')) \<and>
    all_revealed (t_players t') (t_strategies t') = Inr ()"
proof -
  have st: "t_state t = Reveal" using assms(6) by (rule close_revealE) (use assms(5) in auto)
  have "play_ok t" by (rule play.reachable_tournament [OF assms(1,2,5)])
  then have "t_matches_completed t = 0" using st by (simp add: play_ok_def)
  from close_reveal_effect [OF assms(6,5) this] obtain t' where
    t': "accounts s' tk = Some (TournamentData t' n)" "t_state t' = Running" "t_matches_completed t' = 0"
    "t_participant_count t' = t_participant_count t - t_participant_count t mod 2"
    "t_participant_count t' \<noteq> 0 \<longrightarrow> t_matches_per_player t' = effective_k (t_participant_count t') (t_matches_per_player t)"
    by blast
  have r: "reachable net s'"
    by (rule reachable.more [OF assms(2) step.execute [OF assms(3,4)]]) (simp add: assms(6))
  have "schedule_ok t'" using play.reachable_tournament [OF assms(1) r t'(1)] t'(2) by (simp add: play_ok_def)
  then have "t_matches_total t' = (if t_participant_count t' = 0 then 0
      else calculate_match_count (t_participant_count t') (effective_k (t_participant_count t') (t_matches_per_player t))
             (t_randomness_seed t'))"
    using t'(5) by (auto simp: schedule_ok_def)
  moreover have "unat (t_participant_count t') = unat (t_participant_count t) - unat (t_participant_count t) mod 2"
    unfolding t'(4) by (subst unat_sub_no_wrap) (simp_all add: unat_mod_word word_le_nat_alt)
  then have "unat (t_participant_count t') = 2 * (unat (t_participant_count t) div 2)"
    by (simp add: minus_mod_eq_mult_div)
  moreover note all_revealed_running [OF tournament_inv_of [OF reachable_inv [OF assms(1) r] t'(1)] t'(2)]
  ultimately show ?thesis using t'(1-3) by blast
qed

lemma demo_close_reveal:
  "run_all (take 2 demo_reveals) demo_revealing = Inr s \<Longrightarrow> close_reveal (demo_env 201 4) 1 3 None None 4 s = Inr demo_running"
  using demo_reveals_run by (auto simp: demo_reveals_def and_then_Inr_iff)

theorem close_reveal_starts_witness:
  "\<exists>s s' t t' n. close_reveal (demo_env 201 4) 1 3 None None 4 s = Inr s' \<and> accounts s 3 = Some (TournamentData t n) \<and>
     t_state t = Reveal \<and> accounts s' 3 = Some (TournamentData t' n) \<and> t_state t' = Running \<and> t_matches_completed t' = 0"
proof -
  obtain s where s: "run_all (take 2 demo_reveals) demo_revealing = Inr s"
    using demo_reveals_run by (auto simp: demo_reveals_def and_then_Inr_iff)
  have r: "reachable demo_net s"
    by (rule reachable_run_all [OF _ demo_revealing_reachable s]) (simp add: demo_reveals_def demo_env_ok honest_def)
  note run = demo_close_reveal [OF s]
  obtain t n where t: "accounts s 3 = Some (TournamentData t n)" "t_state t = Reveal"
    using run by (rule close_revealE)
  have "\<exists>t'. accounts demo_running 3 = Some (TournamentData t' n) \<and> t_state t' = Running \<and> t_matches_completed t' = 0"
    using close_reveal_starts [OF demo_network_ok r demo_env_ok _ t(1) run] by (auto simp: honest_def)
  with run t show ?thesis by blast
qed

text \<open>
  C20. The entry of the refund is not tied to the tournament. When the number of participants is odd,
  the operator may name any entry with the same player and index: the entry that the player has in
  another tournament is closed instead, and the one of this tournament stays open.
\<close>

theorem refund_entry_unchecked:
  assumes "close_reveal env ck tk (Some ek) (Some p) op s = Inr s1"
    and "accounts s tk = Some (TournamentData t n)" "t_participant_count t mod 2 = 1"
    and "accounts s ek = Some (EntryData e)" "accounts s ek' = Some (EntryData e')" "ek' \<noteq> ek"
    and "e_player e' = e_player e" "e_index e' = e_index e"
  shows "\<exists>s2. close_reveal env ck tk (Some ek') (Some p) op s = Inr s2 \<and> accounts s2 ek' = None \<and>
    accounts s2 ek = Some (EntryData e)"
proof -
  have nz: "t_participant_count t \<noteq> 0" using assms(3) by auto
  have swap: "\<exists>v. refund_odd tk (Some ek) (Some p) u s = Inr (v, close_account ek p (move_lamports tk p (t_stake u) s)) \<and>
      refund_odd tk (Some ek') (Some p) u s = Inr (v, close_account ek' p (move_lamports tk p (t_stake u) s))"
    if "\<exists>r. refund_odd tk (Some ek) (Some p) u s = Inr r" for u
    using that assms(4,5,7,8)
    by (auto simp: refund_odd_def Let_def load_entry_def and_then_Inr_iff check_Inr_iff ok_or_Inr_iff)
  have neq: "tk \<noteq> ek" "tk \<noteq> ek'" using assms(2,4,5) by auto
  obtain c costs where h: "accounts s ck = Some (ConfigData c)" "checked_add (t_operator_costs t) (c_operator_tx_fee c) = Some costs"
    using assms(1) by (rule close_revealE) (use assms(2) that in auto)
  obtain v where v: "refund_odd tk (Some ek) (Some p) (t\<lparr>t_operator_costs := costs\<rparr>) s =
        Inr (v, close_account ek p (move_lamports tk p (t_stake t) s))"
      "refund_odd tk (Some ek') (Some p) (t\<lparr>t_operator_costs := costs\<rparr>) s =
        Inr (v, close_account ek' p (move_lamports tk p (t_stake t) s))"
    using swap [of "t\<lparr>t_operator_costs := costs\<rparr>"] assms(1-3) h nz
    by (auto simp: close_reveal_def load_config_def load_tournament_def operator_accounts_def and_then_Inr_iff check_Inr_iff
        ok_or_def Let_def)
  show ?thesis
    using assms(1-6) h nz v neq
    by (auto simp: close_reveal_def load_config_def load_tournament_def operator_accounts_def and_then_Inr_iff check_Inr_iff
        ok_or_def Let_def split: if_splits)
qed

text \<open>Player 6 alone in the second tournament, with the entry in the first one still open.\<close>

definition foreign_ledger :: Ledger where
  "foreign_ledger = \<lparr>
     lamports = demo_wallets(259 := 1500, 1541 := 500, 67077 := 500),
     accounts = [1 \<mapsto> ConfigData demo_config,
       259 \<mapsto> TournamentData ((register_player 6 (new_tournament 1 demo_config 0 255))\<lparr>t_state := Reveal,
         t_reveal_ends := 200, t_reveals_completed := 1, t_strategies := [1]\<rparr>) (BASE_SPACE + BYTES_PER_PLAYER),
       1541 \<mapsto> EntryData demo_winner, 67077 \<mapsto> EntryData (demo_winner\<lparr>e_tournament := 259\<rparr>)]\<rparr>"

lemma foreign_run: "\<exists>s. close_reveal (demo_env 201 4) 1 259 (Some 67077) (Some 6) 4 foreign_ledger = Inr s"
  by (simp add: foreign_ledger_def close_reveal_def operator_accounts_def refund_odd_def clear_slot_def rposition_def checked_add_def
      demo_winner_def demo_states ledger_eval cong: and_then_weak_cong check_weak_cong)

theorem refund_entry_unchecked_witness:
  "e_tournament demo_winner = 3 \<and> (\<exists>s. close_reveal (demo_env 201 4) 1 259 (Some 1541) (Some 6) 4 foreign_ledger = Inr s \<and>
     accounts s 1541 = None \<and> accounts s 67077 = Some (EntryData (demo_winner\<lparr>e_tournament := 259\<rparr>)))"
proof -
  obtain s where s: "close_reveal (demo_env 201 4) 1 259 (Some 67077) (Some 6) 4 foreign_ledger = Inr s"
    using foreign_run by blast
  have "e_tournament demo_winner = 3" by (simp add: demo_winner_def demo_states)
  moreover obtain t n where t: "accounts foreign_ledger 259 = Some (TournamentData t n)" "t_participant_count t mod 2 = 1"
    by (simp add: foreign_ledger_def demo_states)
  have e: "accounts foreign_ledger 67077 = Some (EntryData (demo_winner\<lparr>e_tournament := 259\<rparr>))"
      "accounts foreign_ledger 1541 = Some (EntryData demo_winner)"
    by (simp_all add: foreign_ledger_def)
  ultimately show ?thesis
    using refund_entry_unchecked [OF s t e] by simp
qed

section \<open>Finalization\<close>


lemma payout_split_reimbursed: "payout_split t costs spare w = (fees, reimbursed, share) \<Longrightarrow> reimbursed \<le> spare - fees"
  by (auto simp: payout_split_def Let_def split: if_splits)

lemma payout_split_fees:
  assumes "payout_split t costs spare w = (fees, reimbursed, share)" "t_participant_count t \<noteq> 0"
    and "unat (t_house_fee_bps t) \<le> 10000"
  shows "fees \<le> unat (t_pool t)"
proof -
  let ?pool = "unat (t_pool t)" and ?house = "unat (t_pool t) * unat (t_house_fee_bps t) div 10000"
  have "?pool * unat (t_house_fee_bps t) \<le> ?pool * 10000" using assms(3) by (rule mult_le_mono2)
  then have "?house \<le> ?pool" by linarith
  moreover have "fees = ?house + min (?pool - ?house - costs) spare mod w"
    using assms(1,2) by (auto simp: payout_split_def Let_def)
  moreover have "min (?pool - ?house - costs) spare mod w \<le> ?pool - ?house"
    using mod_less_eq_dividend [of "min (?pool - ?house - costs) spare" w] by linarith
  ultimately show ?thesis by linarith
qed




end
