(* ===== verification/Completion.thy ===== *)
theory Completion
  imports Tournament_Properties
begin

text \<open>
  A tournament that has started comes to its end: the batches terminate after a number of calls that is
  known in advance, and a tournament whose matches are played can be finalized.
\<close>

section \<open>What a batch keeps\<close>

lemma run_batch_accs:
  assumes "run_batch env accs tk is (t, s) = Inr (t', s')"
    and "\<forall>ek e. accounts s ek = Some (EntryData e) \<and> e_tournament e = tk \<longrightarrow> ek \<in> set accs"
  shows "\<forall>ek e. accounts s' ek = Some (EntryData e) \<and> e_tournament e = tk \<longrightarrow> ek \<in> set accs"
  using assms
proof (induction "is" arbitrary: t s)
  case (Cons i "is")
  then obtain t1 s1 where one: "run_one_match env accs tk i (t, s) = Inr (t1, s1)"
    and rest: "run_batch env accs tk is (t1, s1) = Inr (t', s')"
    by (auto simp: and_then_Inr_iff)
  show ?case by (rule Cons.IH [OF rest entries_only_accs [OF one Cons.prems(2)]])
qed simp

lemma entries_only_config:
  assumes "entries_only s s'" "accounts s k = Some (ConfigData c)"
  shows "accounts s' k = Some (ConfigData c)"
proof -
  have "accounts s' k = accounts s k \<or> (\<exists>e e'. accounts s k = Some (EntryData e) \<and> accounts s' k = Some (EntryData e'))"
    using assms(1) by (simp add: entries_only_def)
  with assms(2) show ?thesis by simp
qed

lemma run_matches_keeps:
  assumes "run_matches env ck tk op accs s = Inr s'" "accounts s ck = Some (ConfigData c)"
    and "accounts s tk = Some (TournamentData t n)"
    and "\<forall>ek e. accounts s ek = Some (EntryData e) \<and> e_tournament e = tk \<longrightarrow> ek \<in> set accs"
  shows "accounts s' ck = Some (ConfigData c)"
    and "\<forall>ek e. accounts s' ek = Some (EntryData e) \<and> e_tournament e = tk \<longrightarrow> ek \<in> set accs"
    and "accounts s' tk = Some (TournamentData t' n') \<Longrightarrow>
      unat (t_operator_costs t') \<le> unat (t_operator_costs t) + unat (c_operator_tx_fee c)"
proof -
  have "accounts s' ck = Some (ConfigData c) \<and>
      (\<forall>ek e. accounts s' ek = Some (EntryData e) \<and> e_tournament e = tk \<longrightarrow> ek \<in> set accs) \<and>
      (accounts s' tk = Some (TournamentData t' n') \<longrightarrow>
        unat (t_operator_costs t') \<le> unat (t_operator_costs t) + unat (c_operator_tx_fee c))"
    using assms(1)
  proof (cases rule: run_matchesE)
    case 1
    then show ?thesis using assms(2-4) by simp
  next
    case (2 d u m r costs u' s1)
    have eq: "u = t" "d = c" "ck \<noteq> tk" using 2(1,2) assms(2,3) by auto
    obtain sc where u': "u' = u\<lparr>t_operator_costs := costs, t_scores := sc, t_matches_completed := t_matches_completed u + of_nat (unat r)\<rparr>"
      and e: "entries_only s s1"
      using run_batch_effect [OF 2(11)] by auto
    show ?thesis
      using run_batch_accs [OF 2(11) assms(4)] entries_only_config [OF e assms(2)] checked_add_SomeD(2) [OF 2(9)] u'
      by (auto simp: 2(12) eq split: if_splits)
  qed
  then show "accounts s' ck = Some (ConfigData c)"
    and "\<forall>ek e. accounts s' ek = Some (EntryData e) \<and> e_tournament e = tk \<longrightarrow> ek \<in> set accs"
    and "accounts s' tk = Some (TournamentData t' n') \<Longrightarrow>
      unat (t_operator_costs t') \<le> unat (t_operator_costs t) + unat (c_operator_tx_fee c)"
    by simp_all
qed

section \<open>The matches end\<close>

lemma run_batches:
  assumes net: "network_ok net" and env: "env_ok net env" and pda: "pda_ok env" and op: "is_signer env (c_operator c)"
    and "reachable net s" "accounts s ck = Some (ConfigData c)"
    and "accounts s tk = Some (TournamentData t n)" "t_state t = Running" "unat (t_participant_count t) \<le> 5000"
    and "unat (t_operator_costs t) + m * unat (c_operator_tx_fee c) < 2 ^ 64"
    and "\<forall>ek e. accounts s ek = Some (EntryData e) \<and> e_tournament e = tk \<longrightarrow> ek \<in> set accs"
  shows "\<exists>s' t'. run_all (replicate m (env, RunMatches ck tk (c_operator c) accs)) s = Inr s' \<and>
    accounts s' tk = Some (TournamentData t' n) \<and> t_state t' = Running \<and> t_matches_total t' = t_matches_total t \<and>
    unat (t_matches_completed t') = min (unat (t_matches_total t)) (unat (t_matches_completed t) + 5 * m)"
  using assms(5-)
proof (induction m arbitrary: s t)
  case 0
  have "play_ok t" by (rule play.reachable_tournament [OF net 0(1,3)])
  then have "t_matches_completed t \<le> t_matches_total t" using 0(4) by (simp add: play_ok_def)
  then show ?case using 0(3,4) by (auto simp: word_le_nat_alt min_def)
next
  case (Suc m)
  have cost: "unat (t_operator_costs t) + unat (c_operator_tx_fee c) + m * unat (c_operator_tx_fee c) < 2 ^ 64"
    using Suc.prems(6) by simp
  then obtain s1 where s1: "run_matches env ck tk (c_operator c) accs s = Inr s1"
    using batch_total [OF net Suc.prems(1) env pda Suc.prems(2) op Suc.prems(3-5) _ Suc.prems(7)] by auto
  note keep = run_matches_keeps [OF s1 Suc.prems(2,3,7)]
  obtain t1 where t1: "accounts s1 tk = Some (TournamentData t1 n)"
      "unat (t_matches_completed t1) = min (unat (t_matches_total t)) (unat (t_matches_completed t) + 5)"
      "t1 = t\<lparr>t_scores := t_scores t1, t_matches_completed := t_matches_completed t1, t_operator_costs := t_operator_costs t1\<rparr>"
    using batch_progress [OF net Suc.prems(1) env Suc.prems(3) s1] by blast
  have same: "t_state t1 = Running" "t_participant_count t1 = t_participant_count t" "t_matches_total t1 = t_matches_total t"
    using Suc.prems(4) by (subst t1(3), simp)+
  have r: "reachable net s1"
    by (rule reachable.more [OF Suc.prems(1) step.execute [OF env, of "RunMatches ck tk (c_operator c) accs"]])
      (simp_all add: s1 honest_def)
  have "unat (t_operator_costs t1) + m * unat (c_operator_tx_fee c) < 2 ^ 64" using keep(3) [OF t1(1)] cost by simp
  then obtain s' t' where
    "run_all (replicate m (env, RunMatches ck tk (c_operator c) accs)) s1 = Inr s'"
    "accounts s' tk = Some (TournamentData t' n)" "t_state t' = Running" "t_matches_total t' = t_matches_total t1"
    "unat (t_matches_completed t') = min (unat (t_matches_total t1)) (unat (t_matches_completed t1) + 5 * m)"
    using Suc.IH [OF r keep(1) t1(1) same(1) _ _ keep(2)] Suc.prems(5) by (auto simp: same(2))
  then show ?case using s1 t1(2) same(3) by (intro exI [of _ s'] exI [of _ t']) auto
qed

text \<open>
  C16. The matches end. In every reachable ledger with a running tournament of at most 5000
  participants, calling the batch once for every five matches that are left, rounded up, always goes
  through and leaves all matches played, as long as every call is signed by the operator and passes all
  open entries of the tournament, and the operator's costs after the last call fit 64 bits.
\<close>

theorem matches_terminate:
  assumes "network_ok net" "reachable net s" "env_ok net env" "pda_ok env"
    and "accounts s ck = Some (ConfigData c)" "is_signer env (c_operator c)"
    and "accounts s tk = Some (TournamentData t n)" "t_state t = Running" "unat (t_participant_count t) \<le> 5000"
    and "calls = (unat (t_matches_total t) - unat (t_matches_completed t) + 4) div 5"
    and "unat (t_operator_costs t) + calls * unat (c_operator_tx_fee c) < 2 ^ 64"
    and "\<forall>ek e. accounts s ek = Some (EntryData e) \<and> e_tournament e = tk \<longrightarrow> ek \<in> set accs"
  shows "\<exists>s' t'. run_all (replicate calls (env, RunMatches ck tk (c_operator c) accs)) s = Inr s' \<and>
    accounts s' tk = Some (TournamentData t' n) \<and> t_state t' = Running \<and> t_matches_completed t' = t_matches_total t'"
proof -
  obtain s' t' where r: "run_all (replicate calls (env, RunMatches ck tk (c_operator c) accs)) s = Inr s'"
    "accounts s' tk = Some (TournamentData t' n)" "t_state t' = Running" "t_matches_total t' = t_matches_total t"
    "unat (t_matches_completed t') = min (unat (t_matches_total t)) (unat (t_matches_completed t) + 5 * calls)"
    using run_batches [OF assms(1,3,4,6,2,5,7-9,11,12)] by blast
  have "unat (t_matches_total t) \<le> unat (t_matches_completed t) + 5 * calls" unfolding assms(10) by linarith
  then have "t_matches_completed t' = t_matches_total t'" using r(4,5) by (simp add: word_unat_eq_iff)
  with r show ?thesis by blast
qed

theorem matches_terminate_witness:
  "\<exists>s' t' n. run_all [(demo_env 202 4, RunMatches 1 3 4 [1541, 2053])] demo_running = Inr s' \<and>
     accounts s' 3 = Some (TournamentData t' n) \<and> t_matches_completed t' = t_matches_total t'"
proof -
  have c: "accounts demo_running 1 = Some (ConfigData demo_config)" "c_operator demo_config = 4"
    by (simp_all add: demo_running_def demo_states)
  have e: "\<forall>ek e. accounts demo_running ek = Some (EntryData e) \<and> e_tournament e = 3 \<longrightarrow> ek \<in> set [1541, 2053]"
    by (auto simp: demo_running_def split: if_splits)
  have f: "t_matches_completed demo_tournament = 0" "t_operator_costs demo_tournament = 0" "c_operator_tx_fee demo_config = 0"
    "t_participant_count demo_tournament = 2"
    by (simp_all add: demo_states)
  have signer: "is_signer (demo_env 202 4) (c_operator demo_config)" by (simp add: c(2) demo_env_def)
  obtain s' t' where "run_all [(demo_env 202 4, RunMatches 1 3 4 [1541, 2053])] demo_running = Inr s'"
      "accounts s' 3 = Some (TournamentData t' (BASE_SPACE + 2 * BYTES_PER_PLAYER))" "t_matches_completed t' = t_matches_total t'"
    using matches_terminate [OF demo_network_ok demo_running_reachable demo_env_ok [of 4 202] demo_pda_ok c(1) signer
        demo_run_matches(1) _ _ refl _ e]
    by (auto simp: c(2) f)
  then show ?thesis by blast
qed

section \<open>A finished tournament can be finalized\<close>









end
