(* ===== verification/Expected_Rounds.thy ===== *)
theory Expected_Rounds
  imports Complex_Main Game
begin

text \<open>
  The average number of rounds of a match: the formula of \<^verbatim>\<open>expected_rounds\<close> (\<^verbatim>\<open>game.rs\<close>), with
  the double-precision numbers of the source read as real numbers, and the average of what
  \<open>determine_round_count\<close> does when all percentages are equally likely.
\<close>

section \<open>The formula of the source\<close>

definition expected_rounds :: "RoundConfig \<Rightarrow> real" where
  "expected_rounds config =
     (let extra = unat (max_rounds config - min_rounds config) in
      if extra \<le> 0 then real (unat (min_rounds config))
      else
        let p = real (unat (end_probability config)) / 100;
            survival = 1 - p
        in real (unat (min_rounds config)) + (1 - survival ^ extra) / p)"

section \<open>The average of the loop\<close>

text \<open>The rounds that the loop adds for a given sequence of percentages, and the sequence it draws.\<close>

fun extra_rounds :: "nat \<Rightarrow> nat list \<Rightarrow> nat" where
  "extra_rounds q [] = 0"
| "extra_rounds q (p # ps) = (if p < q then 0 else Suc (extra_rounds q ps))"

fun percents :: "nat \<Rightarrow> SeededRng \<Rightarrow> nat list" where
  "percents 0 rng = []"
| "percents (Suc n) rng = (let (p, rng') = next_percent rng in unat p # percents n rng')"

lemma round_count_percents:
  assumes "unat rs + n = unat (max_rounds config)"
  shows "unat (fst (round_count_loop config rs rng)) = unat rs + extra_rounds (unat (end_probability config)) (percents n rng)"
  using assms
proof (induction n arbitrary: rs rng)
  case 0
  then show ?case by (simp add: round_count_loop.simps word_less_nat_alt)
next
  case (Suc n)
  obtain p rng' where p: "next_percent rng = (p, rng')" by (cases "next_percent rng")
  have lt: "unat rs < unat (max_rounds config)" using Suc.prems by simp
  then have inc: "unat (rs + 1) = unat rs + 1"
    using unat_less_length [of "max_rounds config"] by (subst unat_add_no_wrap) simp_all
  have "unat (fst (round_count_loop config (rs + 1) rng')) =
      unat rs + 1 + extra_rounds (unat (end_probability config)) (percents n rng')"
    using Suc.IH [of "rs + 1" rng'] Suc.prems inc by simp
  then show ?case
    using lt by (subst round_count_loop.simps) (simp add: p word_less_nat_alt)
qed

lemma determine_round_count_percents:
  assumes "min_rounds config \<le> max_rounds config"
  shows "unat (fst (determine_round_count rng config)) = unat (min_rounds config) +
    extra_rounds (unat (end_probability config)) (percents (unat (max_rounds config - min_rounds config)) rng)"
  unfolding determine_round_count_def
  using assms by (intro round_count_percents) (simp add: unat_sub_no_wrap word_le_nat_alt)

text \<open>The mean over all sequences of percentages from 0 to 99.\<close>

definition mean_rounds :: "RoundConfig \<Rightarrow> real" where
  "mean_rounds config =
     (let n = unat (max_rounds config - min_rounds config);
          draws = List.n_lists n [0..<100]
      in (\<Sum>ps\<leftarrow>draws. real (unat (min_rounds config) + extra_rounds (unat (end_probability config)) ps)) / real (length draws))"

lemma sum_list_draws:
  fixes c :: real
  assumes "q \<le> 100"
  shows "(\<Sum>p\<leftarrow>[0..<100]. if p < q then 0 else c) = real (100 - q) * c"
proof -
  have split: "[0..<100] = [0..<q] @ [q..<100]" using assms by (metis le_add_diff_inverse upt_add_eq_append zero_le)
  have "(\<Sum>p\<leftarrow>[0..<q]. if p < q then 0 else c) = (\<Sum>p\<leftarrow>[0..<q]. 0)"
    by (intro arg_cong [where f = sum_list] map_cong) simp_all
  moreover have "(\<Sum>p\<leftarrow>[q..<100]. if p < q then 0 else c) = (\<Sum>p\<leftarrow>[q..<100]. c)"
    by (intro arg_cong [where f = sum_list] map_cong) simp_all
  ultimately show ?thesis unfolding split by (simp add: sum_list_triv)
qed

lemma sum_list_concat_map: "sum_list (map f (concat (map g xs))) = (\<Sum>x\<leftarrow>xs. sum_list (map f (g x)))"
  by (induction xs) simp_all

lemma extra_rounds_total:
  assumes "q \<le> 100"
  shows "(\<Sum>ps\<leftarrow>List.n_lists (Suc n) [0..<100]. real (extra_rounds q ps)) =
    real (100 - q) * (100 ^ n + (\<Sum>ps\<leftarrow>List.n_lists n [0..<100]. real (extra_rounds q ps)))"
proof -
  have first: "(\<Sum>p\<leftarrow>[0..<100]. real (extra_rounds q (p # ps))) = real (100 - q) * (1 + real (extra_rounds q ps))" for ps
    using sum_list_draws [OF assms, of "1 + real (extra_rounds q ps)"] by (simp add: if_distrib add.commute cong: if_cong)
  have "(\<Sum>ps\<leftarrow>List.n_lists (Suc n) [0..<100]. real (extra_rounds q ps)) =
      (\<Sum>ps\<leftarrow>List.n_lists n [0..<100]. \<Sum>p\<leftarrow>[0..<100]. real (extra_rounds q (p # ps)))"
    by (simp add: sum_list_concat_map comp_def del: extra_rounds.simps)
  also have "\<dots> = real (100 - q) * (100 ^ n + (\<Sum>ps\<leftarrow>List.n_lists n [0..<100]. real (extra_rounds q ps)))"
    unfolding first by (simp add: sum_list_const_mult sum_list_addf length_n_lists sum_list_triv)
  finally show ?thesis .
qed

lemma extra_rounds_mean:
  assumes "q \<le> 100"
  defines "p \<equiv> real q / 100" and "s \<equiv> 1 - real q / 100"
  shows "p * ((\<Sum>ps\<leftarrow>List.n_lists n [0..<100]. real (extra_rounds q ps)) / 100 ^ n) = s * (1 - s ^ n)"
proof (induction n)
  case (Suc n)
  let ?T = "\<lambda>n. \<Sum>ps\<leftarrow>List.n_lists n [0..<100]. real (extra_rounds q ps)"
  have "?T (Suc n) / 100 ^ Suc n = s * (1 + ?T n / 100 ^ n)"
    using assms(1) by (simp only: extra_rounds_total) (simp add: s_def of_nat_diff field_simps)
  then have "p * (?T (Suc n) / 100 ^ Suc n) = s * (p + p * (?T n / 100 ^ n))" by (simp add: distrib_left)
  also have "\<dots> = s * (p + s * (1 - s ^ n))" unfolding Suc ..
  also have "\<dots> = s * (1 - s ^ Suc n)" by (simp add: p_def s_def algebra_simps)
  finally show ?case .
qed simp

lemma mean_rounds_closed:
  assumes "unat (end_probability config) \<le> 100" "end_probability config \<noteq> 0"
  defines "p \<equiv> real (unat (end_probability config)) / 100"
  shows "mean_rounds config = real (unat (min_rounds config)) +
    (1 - p) * (1 - (1 - p) ^ unat (max_rounds config - min_rounds config)) / p"
proof -
  let ?n = "unat (max_rounds config - min_rounds config)"
  define q where "q = unat (end_probability config)"
  have q: "0 < q" "q \<le> 100" "p = real q / 100" using assms(1,2) by (simp_all add: q_def p_def unat_gt_0)
  have "length (List.n_lists ?n [0..<100 :: nat]) \<noteq> 0" by (simp only: length_n_lists) simp
  then have "List.n_lists ?n [0..<100 :: nat] \<noteq> []" by blast
  then have "mean_rounds config = real (unat (min_rounds config)) +
      (\<Sum>ps\<leftarrow>List.n_lists ?n [0..<100]. real (extra_rounds q ps)) / 100 ^ ?n"
    by (simp add: mean_rounds_def q_def Let_def sum_list_addf sum_list_triv length_n_lists add_divide_distrib)
  also have "(\<Sum>ps\<leftarrow>List.n_lists ?n [0..<100]. real (extra_rounds q ps)) / 100 ^ ?n = (1 - p) * (1 - (1 - p) ^ ?n) / p"
  proof (rule eq_divide_imp)
    show "p \<noteq> 0" using q(1) by (simp add: q(3))
    show "(\<Sum>ps\<leftarrow>List.n_lists ?n [0..<100]. real (extra_rounds q ps)) / 100 ^ ?n * p = (1 - p) * (1 - (1 - p) ^ ?n)"
      unfolding q(3) using extra_rounds_mean [OF q(2), of ?n] by (simp only: mult.commute)
  qed
  finally show ?thesis .
qed

section \<open>The formula and the loop\<close>

text \<open>
  C37. The formula for the average length of a match counts one draw too few. The loop adds a round
  only after a draw that does not end the match, so with the probability s of going on, the true
  average beyond the minimum, over all sequences of percentages that the loop can draw, is s times
  what the formula says; the formula reports more rounds than matches have on average.
\<close>

theorem expected_rounds_overestimates:
  assumes "min_rounds config < max_rounds config" "end_probability config \<noteq> 0" "unat (end_probability config) \<le> 100"
  shows "mean_rounds config = real (unat (min_rounds config)) +
      (1 - real (unat (end_probability config)) / 100) * (expected_rounds config - real (unat (min_rounds config))) \<and>
    mean_rounds config < expected_rounds config \<and>
    (\<forall>rng. unat (fst (determine_round_count rng config)) = unat (min_rounds config) +
       extra_rounds (unat (end_probability config)) (percents (unat (max_rounds config - min_rounds config)) rng))"
proof -
  define q n m where "q = unat (end_probability config)" and "n = unat (max_rounds config - min_rounds config)"
    and "m = real (unat (min_rounds config))"
  have q: "0 < q" "q \<le> 100" using assms(2,3) by (simp_all add: q_def unat_gt_0)
  have n: "n \<noteq> 0" using assms(1) by (auto simp: n_def unat_eq_0)
  have e: "expected_rounds config = m + (1 - (1 - real q / 100) ^ n) / (real q / 100)"
    using n by (simp add: expected_rounds_def Let_def m_def q_def n_def)
  have mean: "mean_rounds config = m + (1 - real q / 100) * (1 - (1 - real q / 100) ^ n) / (real q / 100)"
    using mean_rounds_closed [OF assms(3,2)] by (simp only: m_def q_def n_def)
  then have eq: "mean_rounds config = m + (1 - real q / 100) * (expected_rounds config - m)" by (simp add: e)
  have "(1 - real q / 100) ^ n < 1" using q n by (simp add: power_less_one_iff)
  then have "0 < expected_rounds config - m" using q(1) by (simp add: e)
  then have "(1 - real q / 100) * (expected_rounds config - m) < 1 * (expected_rounds config - m)"
    using q(1) by (intro mult_strict_right_mono) simp_all
  with eq have "mean_rounds config < expected_rounds config" by simp
  with eq show ?thesis
    unfolding m_def q_def using determine_round_count_percents [of config] assms(1) by (simp add: order_less_imp_le)
qed

theorem expected_rounds_overestimates_witness:
  "mean_rounds standard = 20 + 19 / 20 * (expected_rounds standard - 20) \<and> mean_rounds standard < expected_rounds standard \<and>
   mean_rounds compressed < expected_rounds compressed"
  using expected_rounds_overestimates [of standard] expected_rounds_overestimates [of compressed]
  by (simp add: standard_def compressed_def word_less_nat_alt)

end
