(* ===== verification/Wasm.thy ===== *)
theory Wasm
  imports Expected_Rounds Pairing_Correct
begin

text \<open>
  The WebAssembly interface of the match logic (\<^verbatim>\<open>wasm.rs\<close>): replaying a match, listing strategies,
  pairings and statistics for a frontend, and the texts of the validation errors (\<^verbatim>\<open>vm.rs\<close>). Reading
  JSON and building JavaScript values is the work of other crates; it is a parameter, the record \<open>Codec\<close>.
\<close>

section \<open>Values and errors of the interface\<close>

record StrategyInfo =
  si_id :: string
  si_name :: string
  si_description :: string

record ValidationResult =
  vr_valid :: bool
  vr_error :: "string option"

record MatchmakingStats =
  ms_effective_k :: u16
  ms_tier :: string
  ms_min_rounds :: u8
  ms_max_rounds :: u8
  ms_end_probability :: u8
  ms_avg_rounds :: real
  ms_total_matches :: u32

text \<open>A call returns a value, throws a JavaScript error, or the module traps on a panic.\<close>

datatype 'a JsResult = JsOk 'a | JsError string | Trap

text \<open>
  The crates \<^verbatim>\<open>serde_json\<close> and \<^verbatim>\<open>serde_wasm_bindgen\<close>: reading gives a value or an error message,
  writing a JavaScript value or an error message.
\<close>

record 'v Codec =
  read_player :: "string \<Rightarrow> string + PlayerStrategy"
  read_strategy :: "string \<Rightarrow> string + Strategy"
  write_strategy :: "Strategy \<Rightarrow> string + string"
  match_value :: "MatchResult \<Rightarrow> string + 'v"
  types_value :: "StrategyInfo list \<Rightarrow> string + 'v"
  pairings_value :: "(u32 \<times> u32) list \<Rightarrow> string + 'v"
  pairing_value :: "(u32 \<times> u32) option \<Rightarrow> string + 'v"
  validation_value :: "ValidationResult \<Rightarrow> string + 'v"
  stats_value :: "MatchmakingStats \<Rightarrow> string + 'v"
  null_value :: 'v

fun serialized :: "string + 'v \<Rightarrow> 'v JsResult" where
  "serialized (Inl e) = JsError (''Serialization error: '' @ e)"
| "serialized (Inr v) = JsOk v"

definition with_seed :: "u8 list \<Rightarrow> 'a JsResult \<Rightarrow> 'a JsResult" where
  "with_seed seed k = (if length seed = 32 then k else JsError ''Seed must be exactly 32 bytes'')"

section \<open>Matches and strategies\<close>

definition parse_player_strategy :: "'v Codec \<Rightarrow> string \<Rightarrow> string + PlayerStrategy" where
  "parse_player_strategy codec json =
     (case read_player codec json of
        Inr ps \<Rightarrow> Inr ps
      | Inl _ \<Rightarrow>
          (case read_strategy codec json of
             Inl e \<Rightarrow> Inl (''Invalid strategy: '' @ e)
           | Inr s \<Rightarrow> Inr (Builtin s)))"

definition replay_match :: "'v Codec \<Rightarrow> string \<Rightarrow> string \<Rightarrow> u8 list \<Rightarrow> u32 \<Rightarrow> u32 \<Rightarrow> 'v JsResult" where
  "replay_match codec strategy_a_json strategy_b_json seed match_index participant_count =
     (case parse_player_strategy codec strategy_a_json of
        Inl e \<Rightarrow> JsError (''Invalid strategy A: '' @ e)
      | Inr strategy_a \<Rightarrow>
          (case parse_player_strategy codec strategy_b_json of
             Inl e \<Rightarrow> JsError (''Invalid strategy B: '' @ e)
           | Inr strategy_b \<Rightarrow>
               with_seed seed
                (serialized (match_value codec (run_match strategy_a strategy_b seed match_index participant_count)))))"

definition get_strategy_description :: "'v Codec \<Rightarrow> string \<Rightarrow> string JsResult" where
  "get_strategy_description codec strategy_json =
     (case read_strategy codec strategy_json of
        Inl e \<Rightarrow> JsError (''Invalid strategy: '' @ e)
      | Inr strategy \<Rightarrow> JsOk (describe_strategy strategy))"

definition strategy_types :: "StrategyInfo list" where
  "strategy_types =
    [\<lparr>si_id = ''TitForTat'', si_name = ''Tit for Tat'',
      si_description = ''Copies opponent's last move. Starts by cooperating.''\<rparr>,
     \<lparr>si_id = ''AlwaysDefect'', si_name = ''Always Defect'',
      si_description = ''Never cooperates. Always defects.''\<rparr>,
     \<lparr>si_id = ''AlwaysCooperate'', si_name = ''Always Cooperate'',
      si_description = ''Never defects. Always cooperates.''\<rparr>,
     \<lparr>si_id = ''GrimTrigger'', si_name = ''Grim Trigger'',
      si_description = ''Cooperates until betrayed, then always defects.''\<rparr>,
     \<lparr>si_id = ''Pavlov'', si_name = ''Pavlov'',
      si_description = ''Repeats move if outcome was good, switches if bad.''\<rparr>,
     \<lparr>si_id = ''SuspiciousTitForTat'', si_name = ''Suspicious Tit for Tat'',
      si_description = ''Like Tit for Tat, but starts with defect.''\<rparr>,
     \<lparr>si_id = ''Random'', si_name = ''Random'',
      si_description = ''Randomly cooperates or defects each round.''\<rparr>,
     \<lparr>si_id = ''TitForTwoTats'', si_name = ''Tit for Two Tats'',
      si_description = ''Only retaliates after two consecutive defections.''\<rparr>,
     \<lparr>si_id = ''Gradual'', si_name = ''Gradual'',
      si_description = ''Retaliates with increasing severity, then forgives.''\<rparr>]"

definition get_strategy_types :: "'v Codec \<Rightarrow> 'v JsResult" where
  "get_strategy_types codec = serialized (types_value codec strategy_types)"

definition base_of_name :: "string \<Rightarrow> StrategyBase option" where
  "base_of_name name =
     (if name = ''TitForTat'' then Some TitForTat
      else if name = ''AlwaysDefect'' then Some AlwaysDefect
      else if name = ''AlwaysCooperate'' then Some AlwaysCooperate
      else if name = ''GrimTrigger'' then Some GrimTrigger
      else if name = ''Pavlov'' then Some Pavlov
      else if name = ''SuspiciousTitForTat'' then Some SuspiciousTitForTat
      else if name = ''Random'' then Some Random
      else if name = ''TitForTwoTats'' then Some TitForTwoTats
      else if name = ''Gradual'' then Some Gradual
      else None)"

definition create_strategy :: "'v Codec \<Rightarrow> string \<Rightarrow> string JsResult" where
  "create_strategy codec name =
     (case base_of_name name of
        None \<Rightarrow> JsError (''Unknown strategy: '' @ name)
      | Some b \<Rightarrow> serialized (write_strategy codec (strategy_new b)))"

section \<open>Pairings\<close>

definition get_tournament_pairings :: "'v Codec \<Rightarrow> u32 \<Rightarrow> u16 \<Rightarrow> u8 list \<Rightarrow> 'v JsResult" where
  "get_tournament_pairings codec participant_count opponents_per_agent seed =
     with_seed seed
      (case generate_all_pairings participant_count opponents_per_agent seed of
         None \<Rightarrow> Trap
       | Some pairings \<Rightarrow> serialized (pairings_value codec pairings))"

definition has_strategy :: "u8 list \<Rightarrow> u32 \<Rightarrow> bool" where
  "has_strategy strategies i = (unat i < length strategies \<and> strategies ! unat i \<noteq> - 1)"

definition get_tournament_pairings_filtered ::
  "'v Codec \<Rightarrow> u32 \<Rightarrow> u16 \<Rightarrow> u8 list \<Rightarrow> u8 list \<Rightarrow> 'v JsResult" where
  "get_tournament_pairings_filtered codec participant_count opponents_per_agent seed strategies =
     with_seed seed
      (case generate_all_pairings participant_count opponents_per_agent seed of
         None \<Rightarrow> Trap
       | Some pairings \<Rightarrow>
           serialized (pairings_value codec
             (filter (\<lambda>(a, b). has_strategy strategies a \<and> has_strategy strategies b) pairings)))"

definition get_match_pairing :: "'v Codec \<Rightarrow> u32 \<Rightarrow> u16 \<Rightarrow> u8 list \<Rightarrow> u32 \<Rightarrow> 'v JsResult" where
  "get_match_pairing codec participant_count opponents_per_agent seed match_index =
     with_seed seed
      (case get_pairing_for_match participant_count opponents_per_agent seed match_index of
         None \<Rightarrow> Trap
       | Some pairing \<Rightarrow> serialized (pairing_value codec pairing))"

section \<open>Validation\<close>

text \<open>The texts of the validation errors, with decimal and hexadecimal numbers as the formatter writes them.\<close>

definition digit :: "nat \<Rightarrow> char" where
  "digit n = ''0123456789ABCDEF'' ! n"

fun decimal :: "nat \<Rightarrow> string" where
  "decimal n = (if n < 10 then [digit n] else decimal (n div 10) @ [digit (n mod 10)])"

declare decimal.simps [simp del]

definition hex_byte :: "u8 \<Rightarrow> string" where
  "hex_byte b = [digit (unat b div 16), digit (unat b mod 16)]"

fun error_text :: "BytecodeError \<Rightarrow> string" where
  "error_text Empty = ''bytecode is empty''"
| "error_text TooLong = ''bytecode exceeds '' @ decimal MAX_BYTECODE_LEN @ '' bytes''"
| "error_text (UnknownOpcode offset opcode) =
     ''unknown opcode 0x'' @ hex_byte opcode @ '' at offset '' @ decimal offset"
| "error_text (TruncatedImmediate offset) = ''truncated immediate at offset '' @ decimal offset"
| "error_text (JumpOutOfBounds offset) = ''forward jump out of bounds at offset '' @ decimal offset"
| "error_text NoTerminal = ''no terminal instruction (COOP/DEFECT/RETURN)''"

definition validation_result :: "u8 list \<Rightarrow> ValidationResult" where
  "validation_result bytecode =
     (case validate_bytecode bytecode of
        Inr _ \<Rightarrow> \<lparr>vr_valid = True, vr_error = None\<rparr>
      | Inl e \<Rightarrow> \<lparr>vr_valid = False, vr_error = Some (error_text e)\<rparr>)"

definition validate_custom_bytecode :: "'v Codec \<Rightarrow> u8 list \<Rightarrow> 'v" where
  "validate_custom_bytecode codec bytecode =
     (case validation_value codec (validation_result bytecode) of Inr v \<Rightarrow> v | Inl _ \<Rightarrow> null_value codec)"

section \<open>Numbers\<close>

definition get_match_count :: "u32 \<Rightarrow> u16 \<Rightarrow> u8 list \<Rightarrow> u32 JsResult" where
  "get_match_count participant_count opponents_per_agent seed =
     with_seed seed (JsOk (calculate_match_count participant_count opponents_per_agent seed))"

definition get_effective_k :: "u32 \<Rightarrow> u16 \<Rightarrow> u16" where
  "get_effective_k participant_count config_k = effective_k participant_count config_k"

definition matchmaking_stats :: "u32 \<Rightarrow> u16 \<Rightarrow> MatchmakingStats" where
  "matchmaking_stats participant_count config_k =
     (let k = effective_k participant_count config_k;
          (tier, config) =
            (if participant_count \<le> 1000 then (''Standard'', standard) else (''Compressed'', compressed));
          avg_rounds = expected_rounds config;
          total_matches = participant_count * ucast k div 2
      in \<lparr>ms_effective_k = k, ms_tier = tier, ms_min_rounds = min_rounds config,
          ms_max_rounds = max_rounds config, ms_end_probability = end_probability config,
          ms_avg_rounds = avg_rounds, ms_total_matches = total_matches\<rparr>)"

definition get_matchmaking_stats :: "'v Codec \<Rightarrow> u32 \<Rightarrow> u16 \<Rightarrow> 'v JsResult" where
  "get_matchmaking_stats codec participant_count config_k =
     serialized (stats_value codec (matchmaking_stats participant_count config_k))"

section \<open>What the interface shows\<close>

text \<open>The names that can be created are those that are listed, and they cover all strategies.\<close>

lemma strategy_types_complete:
  "base_of_name name \<noteq> None \<longleftrightarrow> name \<in> set (map si_id strategy_types)"
  "\<exists>i \<in> set strategy_types. base_of_name (si_id i) = Some b"
  by (auto simp: base_of_name_def strategy_types_def) (cases b; simp)



end
