(* ===== verification/Match_Course.thy ===== *)
theory Match_Course
  imports Game
begin

text \<open>
  Matches whose course is known in advance. A strategy follows a script when it plays the script's
  next move whenever both players have kept to their scripts so far; then the whole match is the two
  scripts, whatever the seed and the number of rounds.
\<close>

definition follows :: "PlayerStrategy \<Rightarrow> (nat \<Rightarrow> Move) \<Rightarrow> (nat \<Rightarrow> Move) \<Rightarrow> bool" where
  "follows s mine theirs \<longleftrightarrow>
     (\<forall>k<256. \<forall>rng. fst (execute_player_strategy s (map theirs [0..<k]) (map mine [0..<k]) (of_nat k) rng) = mine k)"

lemma followsI:
  assumes "\<And>k rng. k < 256 \<Longrightarrow>
    fst (execute_player_strategy s (map theirs [0..<k]) (map mine [0..<k]) (of_nat k) rng) = mine k"
  shows "follows s mine theirs"
  using assms by (simp add: follows_def)

lemma followsD:
  "follows s mine theirs \<Longrightarrow> k < 256 \<Longrightarrow>
   fst (execute_player_strategy s (map theirs [0..<k]) (map mine [0..<k]) (of_nat k) rng) = mine k"
  by (simp add: follows_def)

lemma play_rounds_course:
  assumes "follows sa fa fb" "follows sb fb fa" "n \<le> 256"
  shows "history_a (play_rounds sa sb rng n) = map fa [0..<n]"
    and "history_b (play_rounds sa sb rng n) = map fb [0..<n]"
  using assms(3)
proof (induction n)
  case (Suc n)
  case 1
  with Suc followsD [OF assms(1), of n] show ?case by (simp add: play_rounds_Suc match_round_simps)
next
  case (Suc n)
  case 2
  with Suc followsD [OF assms(2), of n] show ?case by (simp add: play_rounds_Suc match_round_simps)
qed (simp_all add: match_init_def)

lemma run_match_course:
  assumes "follows sa fa fb" "follows sb fb fa"
  shows "map move_a (rounds (run_match sa sb seed i n)) = map fa [0..<match_length seed i n]"
    and "map move_b (rounds (run_match sa sb seed i n)) = map fb [0..<match_length seed i n]"
  using play_rounds_course [OF assms, of "match_length seed i n"] match_length_le_50 [of seed i n]
  by (simp_all add: run_match_fields histories_of_results)

text \<open>The single rounds of such a match.\<close>

lemma run_match_round:
  assumes "follows sa fa fb" "follows sb fb fa" "j < length (rounds (run_match sa sb seed i n))"
  shows "move_a (rounds (run_match sa sb seed i n) ! j) = fa j"
    and "move_b (rounds (run_match sa sb seed i n) ! j) = fb j"
    and "score_a (rounds (run_match sa sb seed i n) ! j) = fst (payoff (fa j) (fb j))"
    and "score_b (rounds (run_match sa sb seed i n) ! j) = snd (payoff (fa j) (fb j))"
proof -
  let ?rs = "rounds (run_match sa sb seed i n)"
  have len: "length ?rs = match_length seed i n" by (simp add: run_match_fields)
  show a: "move_a (?rs ! j) = fa j" and b: "move_b (?rs ! j) = fb j"
    using run_match_course [OF assms(1,2), of seed i n, THEN arg_cong, of "\<lambda>xs. xs ! j"] assms(3) len by simp_all
  have "(score_a (?rs ! j), score_b (?rs ! j)) = payoff (move_a (?rs ! j)) (move_b (?rs ! j))"
    using results_scores [OF nth_mem, of j] assms(3) by (simp add: run_match_fields)
  then show "score_a (?rs ! j) = fst (payoff (fa j) (fb j))" "score_b (?rs ! j) = snd (payoff (fa j) (fb j))"
    unfolding a b by (simp_all add: prod_eq_iff)
qed

lemma run_match_rounds_all:
  assumes "follows sa fa fb" "follows sb fb fa"
    and "\<And>j r. move_a r = fa j \<Longrightarrow> move_b r = fb j \<Longrightarrow> score_a r = fst (payoff (fa j) (fb j)) \<Longrightarrow>
      score_b r = snd (payoff (fa j) (fb j)) \<Longrightarrow> P r"
  shows "list_all P (rounds (run_match sa sb seed i n))"
  unfolding list_all_length using assms(3) run_match_round [OF assms(1,2)] by blast

text \<open>With a constant score the totals are that score times the number of rounds.\<close>

lemma run_match_constant_total:
  assumes "follows sa (\<lambda>_. x) (\<lambda>_. y)" "follows sb (\<lambda>_. y) (\<lambda>_. x)"
  shows "total_score_a (run_match sa sb seed i n) = ucast (round_count (run_match sa sb seed i n)) * ucast (fst (payoff x y))"
    and "total_score_b (run_match sa sb seed i n) = ucast (round_count (run_match sa sb seed i n)) * ucast (snd (payoff x y))"
proof -
  have m: "fst (execute_player_strategy sa (history_b (play_rounds sa sb rng k)) (history_a (play_rounds sa sb rng k)) (of_nat k) r) = x"
    "fst (execute_player_strategy sb (history_a (play_rounds sa sb rng k)) (history_b (play_rounds sa sb rng k)) (of_nat k) r) = y"
    if "k < 256" for rng k r
    using followsD [OF assms(1) that] followsD [OF assms(2) that] play_rounds_course [OF assms, of k rng] that by simp_all
  have t: "total_a (play_rounds sa sb rng k) = of_nat k * ucast (fst (payoff x y))"
    "total_b (play_rounds sa sb rng k) = of_nat k * ucast (snd (payoff x y))" if "k \<le> 256" for rng k
    using that by (induction k) (simp_all add: match_init_def play_rounds_Suc match_round_simps m distrib_right add.commute)
  have "(ucast (round_count (run_match sa sb seed i n)) :: u32) = of_nat (match_length seed i n)"
    by (simp add: run_match_fields match_length_def of_nat_unat)
  then show "total_score_a (run_match sa sb seed i n) = ucast (round_count (run_match sa sb seed i n)) * ucast (fst (payoff x y))"
    "total_score_b (run_match sa sb seed i n) = ucast (round_count (run_match sa sb seed i n)) * ucast (snd (payoff x y))"
    using t match_length_le_50 [of seed i n] by (simp_all add: run_match_fields)
qed

section \<open>Scripts of the strategies\<close>

lemmas execute_player_simps = execute_player_strategy_def execute_strategy_def strategy_new_def

lemma follows_always:
  "follows (Builtin (strategy_new AlwaysCooperate)) (\<lambda>_. Cooperate) f"
  "follows (Builtin (strategy_new AlwaysDefect)) (\<lambda>_. Defect) f"
  by (simp_all add: follows_def execute_player_simps)

lemma tit_for_tat_map: "execute_tit_for_tat (map f [0..<k]) = (if k = 0 then Cooperate else f (k - 1))"
  by (cases k) (simp_all add: tit_for_tat_Nil tit_for_tat_snoc)

lemma follows_tit_for_tat:
  assumes "\<And>k. f k = (if k = 0 then Cooperate else g (k - 1))"
  shows "follows (Builtin (strategy_new TitForTat)) f g" "follows (Custom tit_for_tat_code) f g"
  using assms by (simp_all add: follows_def execute_player_simps tit_for_tat_run tit_for_tat_map)

text \<open>A copying strategy cooperates once with a player that always defects.\<close>

lemma tft_meets_always_defect:
  fixes seed i n sa
  defines "rs \<equiv> rounds (run_match sa (Builtin (strategy_new AlwaysDefect)) seed i n)"
  assumes "follows sa (\<lambda>k. if k = 0 then Cooperate else Defect) (\<lambda>_. Defect)"
  shows "0 < length rs" "move_a (rs ! 0) = Cooperate" "move_b (rs ! 0) = Defect"
    "list_all (\<lambda>r. move_a r = Defect \<and> move_b r = Defect) (drop 1 rs)"
proof -
  note f = assms(2) follows_always(2) [of "\<lambda>k. if k = 0 then Cooperate else Defect"]
  have "0 < unat (min_rounds (round_config n))" by (simp add: round_config_def standard_def compressed_def)
  then show len: "0 < length rs"
    using run_match_round_count(1) [of n sa "Builtin (strategy_new AlwaysDefect)" seed i]
      run_match_fields(5) [of sa "Builtin (strategy_new AlwaysDefect)" seed i n]
    by (simp add: rs_def run_match_fields(1) word_le_nat_alt)
  show "move_a (rs ! 0) = Cooperate" "move_b (rs ! 0) = Defect"
    using run_match_round(1,2) [OF f] len by (simp_all add: rs_def)
  show "list_all (\<lambda>r. move_a r = Defect \<and> move_b r = Defect) (drop 1 rs)"
    unfolding list_all_length rs_def using run_match_round(1,2) [OF f] by simp
qed

end
