(* ===== verification/Vm_Programs.thy ===== *)
theory Vm_Programs
  imports Game
begin

text \<open>
  What the instructions of the bytecode machine of \<^verbatim>\<open>vm.rs\<close> compute, shown on programs that compare the
  computed value with a byte of their own and defect when it is that byte: the operators as functions
  on numbers, the inputs that a program reads, the random draw, and the limit on the instructions.
\<close>

section \<open>The values of operators and inputs\<close>

text \<open>The operators on two operands, as functions on natural numbers: results stop at 0 and 255.\<close>

definition operator_spec :: "(u8 \<times> (nat \<Rightarrow> nat \<Rightarrow> nat)) list" where
  "operator_spec =
     [(op_ADD, \<lambda>a b. min 255 (a + b)), (op_SUB, \<lambda>a b. a - b), (op_MUL, \<lambda>a b. min 255 (a * b)),
      (op_GT, \<lambda>a b. if a > b then 1 else 0), (op_LT, \<lambda>a b. if a < b then 1 else 0),
      (op_EQ, \<lambda>a b. if a = b then 1 else 0),
      (op_AND, \<lambda>a b. if a \<noteq> 0 \<and> b \<noteq> 0 then 1 else 0), (op_OR, \<lambda>a b. if a = 0 \<and> b = 0 then 0 else 1)]"

text \<open>The move n rounds ago as a number; before the first round everybody has cooperated.\<close>

definition defected_ago :: "Move list \<Rightarrow> nat \<Rightarrow> nat" where
  "defected_ago moves n = (if n < length moves \<and> rev moves ! n = Defect then 1 else 0)"

definition input_spec :: "Move list \<Rightarrow> Move list \<Rightarrow> u8 \<Rightarrow> (u8 \<times> nat) list" where
  "input_spec opp my r =
     [(op_OPP_LAST, defected_ago opp 0), (op_MY_LAST, defected_ago my 0),
      (op_OPP_DEFECTS, min 255 (defections opp)), (op_MY_DEFECTS, min 255 (defections my)),
      (op_ROUND, unat r),
      (op_SCORE_LAST,
        if my = [] then 3
        else unat (fst (payoff (last my) (if defected_ago opp 0 = 1 then Defect else Cooperate))))]"

text \<open>A program whose last three instructions compare the value on top with a byte.\<close>

definition tested :: "u8 list \<Rightarrow> u8 \<Rightarrow> u8 list" where
  "tested code c = code @ [op_PUSH, c, op_EQ, op_RETURN]"

lemma length_tested [simp]: "length (tested code c) = length code + 4"
  by (simp add: tested_def)

lemma unat_u8_from_bool: "unat (u8_from_bool b) = (if b then 1 else 0)"
  by (simp add: u8_from_bool_def)

lemma unat_move_to_u8: "unat (move_to_u8 (last_opt h)) = defected_ago h 0"
  by (cases h rule: rev_cases; cases "last h") (auto simp: last_opt_def defected_ago_def)

lemma unat_history_n_ago: "unat (history_n_ago h n) = defected_ago h n"
  by (simp add: history_n_ago_def defected_ago_def rev_nth split: Move.split)

lemma unat_count_defects: "unat (count_defects h) = min 255 (defections h)"
  by (simp add: count_defects_def defections_def unat_of_nat)

lemma unat_score_last:
  "unat (score_last opp my) =
     (if my = [] then 3 else unat (fst (payoff (last my) (if defected_ago opp 0 = 1 then Defect else Cooperate))))"
  by (cases opp rule: rev_cases; cases "last opp")
    (auto simp: score_last_def last_opt_def defected_ago_def split: prod.split)

lemmas vm_values =
  unat_saturating_add unat_saturating_sub unat_saturating_mul unat_u8_from_bool unat_move_to_u8
  unat_history_n_ago unat_count_defects unat_score_last

section \<open>Running the tested programs\<close>

text \<open>Single instructions of the abstract machine, before a program that stays as it is.\<close>

lemma run_push:
  "length stk < STACK_SIZE \<Longrightarrow>
   run_code opp my r (op_PUSH # v # code) stk rng = run_code opp my r code (v # stk) rng"
  by (subst run_code.simps) (simp add: plain_ops_def imm_ops_def go_push_def)

lemma run_load:
  "map_of plain_ops op = Some (Load s) \<Longrightarrow> length stk < STACK_SIZE \<Longrightarrow>
   run_code opp my r (op # code) stk rng = run_code opp my r code (source_value opp my r s # stk) rng"
  by (subst run_code.simps) (simp add: go_push_def)

lemma run_unary:
  "map_of plain_ops op = Some (Unary f) \<Longrightarrow>
   run_code opp my r (op # code) (a # stk) rng = run_code opp my r code (unop_value opp my f a # stk) rng"
  by (subst run_code.simps) simp

lemma run_binary:
  "map_of plain_ops op = Some (Binary f) \<Longrightarrow>
   run_code opp my r (op # code) (b # a # stk) rng = run_code opp my r code (binop_value f a b # stk) rng"
  by (subst run_code.simps) simp

lemma run_rand:
  "length stk < STACK_SIZE \<Longrightarrow>
   run_code opp my r (op_RAND # code) stk rng =
     run_code opp my r code (fst (next_percent rng) # stk) (snd (next_percent rng))"
  by (subst run_code.simps) (simp add: plain_ops_def go_push_def split_beta)

lemmas run_one = run_push run_load run_unary run_binary run_rand STACK_SIZE_def

text \<open>Whatever a program leaves on the stack is what the test sees.\<close>

lemma tested_value:
  assumes "\<And>rest. run_code opp my r (code @ rest) [] rng = run_code opp my r rest [v] rng'"
    and "length code \<le> 124"
  shows "fst (execute_bytecode (tested code c) opp my r rng) = Defect \<longleftrightarrow> unat c = unat v"
    and "snd (execute_bytecode (tested code c) opp my r rng) = rng'"
proof -
  have "run_code opp my r [op_PUSH, c, op_EQ, op_RETURN] [v] rng' = (Some (if v = c then Defect else Cooperate), rng')"
    by (simp add: vm_run)
  then have "run_code opp my r (tested code c) [] rng = (Some (if v = c then Defect else Cooperate), rng')"
    by (simp add: tested_def assms(1))
  moreover have "length (tested code c) \<le> MAX_FUEL" using assms(2) by (simp add: MAX_FUEL_def)
  ultimately show "fst (execute_bytecode (tested code c) opp my r rng) = Defect \<longleftrightarrow> unat c = unat v"
    "snd (execute_bytecode (tested code c) opp my r rng) = rng'"
    by (auto simp: execute_bytecode_def execute_inner_run_code word_unat_eq_iff)
qed

lemma tested_operator:
  "list_all (\<lambda>(op, f). fst (execute_bytecode (tested [op_PUSH, a, op_PUSH, b, op] c) opp my r rng) = Defect \<longleftrightarrow>
     unat c = f (unat a) (unat b)) operator_spec"
proof -
  have val: "fst (execute_bytecode (tested [op_PUSH, a, op_PUSH, b, op] c) opp my r rng) = Defect \<longleftrightarrow>
      unat c = unat (binop_value f a b)" if "map_of plain_ops op = Some (Binary f)" for op f
    by (rule tested_value(1)) (simp_all add: run_one that)
  have "map_of plain_ops op_ADD = Some (Binary Add)" "map_of plain_ops op_SUB = Some (Binary Sub)"
    "map_of plain_ops op_MUL = Some (Binary Mul)" "map_of plain_ops op_GT = Some (Binary Gt)"
    "map_of plain_ops op_LT = Some (Binary Lt)" "map_of plain_ops op_EQ = Some (Binary Eq)"
    "map_of plain_ops op_AND = Some (Binary And)" "map_of plain_ops op_OR = Some (Binary Or)"
    by (simp_all add: plain_ops_def)
  moreover have "unat x = 0 \<longleftrightarrow> x = 0" "unat x = unat y \<longleftrightarrow> x = y" "0 < unat x \<longleftrightarrow> x \<noteq> 0" for x y :: u8
    by (simp_all add: word_unat_eq_iff)
  ultimately show ?thesis
    by (auto simp: operator_spec_def val vm_values word_less_nat_alt)
qed

lemma tested_input:
  "list_all (\<lambda>(op, v). fst (execute_bytecode (tested [op] c) opp my r rng) = Defect \<longleftrightarrow> unat c = v) (input_spec opp my r)"
proof -
  have val: "fst (execute_bytecode (tested [op] c) opp my r rng) = Defect \<longleftrightarrow> unat c = unat (source_value opp my r s)"
    if "map_of plain_ops op = Some (Load s)" for op s
    by (rule tested_value(1)) (simp_all add: run_one that)
  have "map_of plain_ops op_OPP_LAST = Some (Load Opp_Last)" "map_of plain_ops op_MY_LAST = Some (Load My_Last)"
    "map_of plain_ops op_OPP_DEFECTS = Some (Load Opp_Defects)" "map_of plain_ops op_MY_DEFECTS = Some (Load My_Defects)"
    "map_of plain_ops op_ROUND = Some (Load Round)" "map_of plain_ops op_SCORE_LAST = Some (Load Score_Last)"
    by (simp_all add: plain_ops_def)
  from this [THEN val] show ?thesis by (simp add: input_spec_def vm_values)
qed

lemma tested_unary:
  "fst (execute_bytecode (tested [op_PUSH, a, op_OPP_N] c) opp my r rng) = Defect \<longleftrightarrow> unat c = defected_ago opp (unat a)"
  "fst (execute_bytecode (tested [op_PUSH, a, op_MY_N] c) opp my r rng) = Defect \<longleftrightarrow> unat c = defected_ago my (unat a)"
  "fst (execute_bytecode (tested [op_PUSH, a, op_NOT] c) opp my r rng) = Defect \<longleftrightarrow> unat c = (if a = 0 then 1 else 0)"
proof -
  have val: "fst (execute_bytecode (tested [op_PUSH, a, op] c) opp my r rng) = Defect \<longleftrightarrow>
      unat c = unat (unop_value opp my f a)" if "map_of plain_ops op = Some (Unary f)" for op f
    by (rule tested_value(1)) (simp_all add: run_one that)
  have "map_of plain_ops op_OPP_N = Some (Unary Opp_N)" "map_of plain_ops op_MY_N = Some (Unary My_N)"
    "map_of plain_ops op_NOT = Some (Unary Not)"
    by (simp_all add: plain_ops_def)
  from this [THEN val]
  show "fst (execute_bytecode (tested [op_PUSH, a, op_OPP_N] c) opp my r rng) = Defect \<longleftrightarrow> unat c = defected_ago opp (unat a)"
    "fst (execute_bytecode (tested [op_PUSH, a, op_MY_N] c) opp my r rng) = Defect \<longleftrightarrow> unat c = defected_ago my (unat a)"
    "fst (execute_bytecode (tested [op_PUSH, a, op_NOT] c) opp my r rng) = Defect \<longleftrightarrow> unat c = (if a = 0 then 1 else 0)"
    by (simp_all add: vm_values)
qed

lemma tested_rand:
  "fst (execute_bytecode (tested [op_RAND] c) opp my r rng) = Defect \<longleftrightarrow> c = fst (next_percent rng)"
  "snd (execute_bytecode (tested [op_RAND] c) opp my r rng) = snd (next_percent rng)"
proof -
  have run: "run_code opp my r ([op_RAND] @ rest) [] rng =
      run_code opp my r rest [fst (next_percent rng)] (snd (next_percent rng))" for rest
    by (simp add: run_one)
  show "fst (execute_bytecode (tested [op_RAND] c) opp my r rng) = Defect \<longleftrightarrow> c = fst (next_percent rng)"
    using tested_value(1) [OF run] by (simp add: word_unat_eq_iff)
  show "snd (execute_bytecode (tested [op_RAND] c) opp my r rng) = snd (next_percent rng)"
    using tested_value(2) [OF run] by simp
qed

section \<open>The limit on the instructions\<close>

text \<open>A chain of negations in the interpreter itself: every instruction burns one unit of fuel.\<close>

lemma vm_loop_not:
  assumes "pc < length code" "code ! pc = op_NOT" "fuel < MAX_FUEL"
  shows "vm_loop code opp my round fuel \<lparr>vm_stack = (v # s, 1), vm_pc = pc, vm_rng = rng\<rparr> =
    vm_loop code opp my round (fuel + 1)
      \<lparr>vm_stack = (u8_from_bool (v = 0) # s, 1), vm_pc = pc + 1, vm_rng = rng\<rparr>"
  using assms by (subst vm_loop.simps)
    (simp add: vm_dispatch_def Let_def unary_next_def or_fail_def STACK_SIZE_def)

lemma vm_loop_nots:
  assumes "\<And>i. i < k \<Longrightarrow> code ! (pc + i) = op_NOT" "pc + k \<le> length code" "fuel + k \<le> MAX_FUEL"
  shows "\<exists>v'. (v' = 0 \<longleftrightarrow> (v = 0 \<longleftrightarrow> even k)) \<and>
    vm_loop code opp my round fuel \<lparr>vm_stack = (v # s, 1), vm_pc = pc, vm_rng = rng\<rparr> =
    vm_loop code opp my round (fuel + k) \<lparr>vm_stack = (v' # s, 1), vm_pc = pc + k, vm_rng = rng\<rparr>"
  using assms
proof (induction k)
  case (Suc k)
  then obtain v' where v': "v' = 0 \<longleftrightarrow> (v = 0 \<longleftrightarrow> even k)"
    "vm_loop code opp my round fuel \<lparr>vm_stack = (v # s, 1), vm_pc = pc, vm_rng = rng\<rparr> =
      vm_loop code opp my round (fuel + k) \<lparr>vm_stack = (v' # s, 1), vm_pc = pc + k, vm_rng = rng\<rparr>"
    by force
  with Suc.prems vm_loop_not [of "pc + k" code "fuel + k" opp my round v' s rng] show ?case
    by (intro exI [of _ "u8_from_bool (v' = 0)"]) (auto simp: u8_from_bool_def)
qed auto

lemma vm_loop_stops: "vm_loop code opp my round MAX_FUEL st = (None, vm_rng st)"
  by (simp add: vm_loop.simps)

text \<open>With the push before it, a chain of n negations and the return take n + 2 instructions.\<close>

lemma negations_run:
  "execute_bytecode (op_PUSH # a # replicate n op_NOT @ [op_RETURN]) opp my r rng =
     (if n \<le> 126 \<and> (a = 0 \<longleftrightarrow> odd n) then Defect else Cooperate, rng)"
proof -
  let ?code = "op_PUSH # a # replicate n op_NOT @ [op_RETURN]"
  define k where "k = min n 127"
  have k: "1 + k \<le> MAX_FUEL" "2 + k \<le> length ?code" by (simp_all add: k_def MAX_FUEL_def)
  have stack: "empty_stack = (0 # replicate 7 0, 0)"
    by (simp add: empty_stack_def STACK_SIZE_def eval_nat_numeral)
  have nots: "?code ! (2 + i) = op_NOT" if "i < k" for i
    using that by (simp add: k_def nth_append)
  have "execute_inner ?code opp my r rng =
      vm_loop ?code opp my r 1 \<lparr>vm_stack = (a # replicate 7 0, 1), vm_pc = 2, vm_rng = rng\<rparr>"
    unfolding execute_inner_def
    by (subst vm_loop.simps)
      (simp add: vm_dispatch_def Let_def nth_opt_def push_next_def or_fail_def stack STACK_SIZE_def MAX_FUEL_def,
       simp add: numeral_2_eq_2)
  then obtain v where v: "v = 0 \<longleftrightarrow> (a = 0 \<longleftrightarrow> even k)" and run: "execute_inner ?code opp my r rng =
      vm_loop ?code opp my r (1 + k) \<lparr>vm_stack = (v # replicate 7 0, 1), vm_pc = 2 + k, vm_rng = rng\<rparr>"
    using vm_loop_nots [of k ?code 2 1 a opp my r "replicate 7 0" rng] nots k by metis
  show ?thesis
  proof (cases "n \<le> 126")
    case True
    then have "k = n" "?code ! (2 + n) = op_RETURN" by (simp_all add: k_def nth_append)
    with run True have "execute_inner ?code opp my r rng = (Some (if v = 0 then Cooperate else Defect), rng)"
      by (simp add: vm_loop.simps [of ?code] vm_dispatch_def Let_def MAX_FUEL_def)
    with True v \<open>k = n\<close> show ?thesis by (auto simp: execute_bytecode_def)
  next
    case False
    then have "1 + k = MAX_FUEL" by (simp add: k_def MAX_FUEL_def)
    then have "execute_inner ?code opp my r rng = (None, rng)"
      using run by (simp add: vm_loop_stops)
    with False show ?thesis by (simp add: execute_bytecode_def)
  qed
qed

section \<open>The property\<close>

text \<open>
  C39. What the instructions compute, for all operands, histories, rounds and generators. A program that
  compares the value of an operator with the byte c defects exactly if c is that value: sum and product
  stop at 255, the difference at 0, the comparisons and connectives give 1 or 0. The same holds of the
  inputs: the last moves, the moves n rounds ago (cooperation before the first round), the numbers of
  defections (at most 255), the round number and the last score. The random instruction gives the next
  percentage of the generator, below 100, and leaves the generator behind it. Exactly 128 instructions
  are allowed: a push, n negations and a return decide by the parity of n as long as n is at most 126,
  and make the player cooperate beyond.
\<close>

theorem vm_operators:
  "list_all (\<lambda>(op, f). fst (execute_bytecode (tested [op_PUSH, a, op_PUSH, b, op] c) opp my r rng) = Defect \<longleftrightarrow>
     unat c = f (unat a) (unat b)) operator_spec \<and>
   list_all (\<lambda>(op, v). fst (execute_bytecode (tested [op] c) opp my r rng) = Defect \<longleftrightarrow> unat c = v)
     (input_spec opp my r) \<and>
   (fst (execute_bytecode (tested [op_PUSH, a, op_OPP_N] c) opp my r rng) = Defect \<longleftrightarrow> unat c = defected_ago opp (unat a)) \<and>
   (fst (execute_bytecode (tested [op_PUSH, a, op_MY_N] c) opp my r rng) = Defect \<longleftrightarrow> unat c = defected_ago my (unat a)) \<and>
   (fst (execute_bytecode (tested [op_PUSH, a, op_NOT] c) opp my r rng) = Defect \<longleftrightarrow> unat c = (if a = 0 then 1 else 0)) \<and>
   (fst (execute_bytecode (tested [op_RAND] c) opp my r rng) = Defect \<longleftrightarrow> c = fst (next_percent rng)) \<and>
   snd (execute_bytecode (tested [op_RAND] c) opp my r rng) = snd (next_percent rng) \<and>
   unat (fst (next_percent rng)) < 100 \<and>
   execute_bytecode (op_PUSH # a # replicate n op_NOT @ [op_RETURN]) opp my r rng =
     (if n \<le> 126 \<and> (a = 0 \<longleftrightarrow> odd n) then Defect else Cooperate, rng)"
  by (intro conjI tested_operator tested_input tested_unary tested_rand next_percent_lt_100 negations_run)

end
