(* ===== verification/Vm_Tests.thy ===== *)
theory Vm_Tests
  imports Match_Course Vm_Programs
begin

text \<open>
  The unit tests of \<^verbatim>\<open>vm.rs\<close>, one definition per test function, each a conjunction of the test's
  assertions over the definitions of the model. The fixtures of the tests, the generator \<open>rng()\<close>
  and the seed \<open>[42; 32]\<close>, are arguments here: the lemmas show that every test passes with every
  generator and every seed, so the fixture does not matter. \<open>test_rand_range\<close> asserts nothing and
  is left out.
\<close>

named_theorems vm_tests "definitions of the unit tests of the bytecode machine"

text \<open>The move that \<open>execute_bytecode\<close> returns.\<close>

abbreviation (input) exec :: "u8 list \<Rightarrow> Move list \<Rightarrow> Move list \<Rightarrow> u8 \<Rightarrow> SeededRng \<Rightarrow> Move" where
  "exec code opp my round rng \<equiv> fst (execute_bytecode code opp my round rng)"

section \<open>Execution\<close>

definition test_coop :: "SeededRng \<Rightarrow> bool" where [vm_tests]:
  "test_coop rng \<longleftrightarrow>
     exec [op_COOP] [] [] 0 rng = Cooperate"

definition test_defect :: "SeededRng \<Rightarrow> bool" where [vm_tests]:
  "test_defect rng \<longleftrightarrow>
     exec [op_DEFECT] [] [] 0 rng = Defect"

definition test_return_zero_is_cooperate :: "SeededRng \<Rightarrow> bool" where [vm_tests]:
  "test_return_zero_is_cooperate rng \<longleftrightarrow>
     exec [op_PUSH, 0, op_RETURN] [] [] 0 rng = Cooperate"

definition test_return_nonzero_is_defect :: "SeededRng \<Rightarrow> bool" where [vm_tests]:
  "test_return_nonzero_is_defect rng \<longleftrightarrow>
     exec [op_PUSH, 1, op_RETURN] [] [] 0 rng = Defect"

definition test_bytecode_tit_for_tat :: "SeededRng \<Rightarrow> bool" where [vm_tests]:
  "test_bytecode_tit_for_tat rng \<longleftrightarrow>
     exec [op_OPP_LAST, op_RETURN] [] [] 0 rng = Cooperate \<and>
     exec [op_OPP_LAST, op_RETURN] [Cooperate] [Cooperate] 1 rng = Cooperate \<and>
     exec [op_OPP_LAST, op_RETURN] [Defect] [Cooperate] 1 rng = Defect"

definition test_bytecode_always_defect :: "SeededRng \<Rightarrow> bool" where [vm_tests]:
  "test_bytecode_always_defect rng \<longleftrightarrow>
     list_all (\<lambda>round. exec [op_DEFECT] [] [] round rng = Defect) (map of_nat [0..<10])"

definition test_bytecode_grim_trigger :: "SeededRng \<Rightarrow> bool" where [vm_tests]:
  "test_bytecode_grim_trigger rng \<longleftrightarrow>
     (let code = [op_OPP_DEFECTS, op_PUSH, 0, op_GT, op_JMP_FWD_IF, 1, op_COOP, op_DEFECT] in
      exec code [Cooperate, Cooperate] [] 2 rng = Cooperate \<and>
      exec code [Cooperate, Defect] [] 2 rng = Defect)"

definition test_add_saturating :: "SeededRng \<Rightarrow> bool" where [vm_tests]:
  "test_add_saturating rng \<longleftrightarrow>
     exec [op_PUSH, 200, op_PUSH, 100, op_ADD, op_RETURN] [] [] 0 rng = Defect"

definition test_sub_saturating :: "SeededRng \<Rightarrow> bool" where [vm_tests]:
  "test_sub_saturating rng \<longleftrightarrow>
     exec [op_PUSH, 5, op_PUSH, 10, op_SUB, op_RETURN] [] [] 0 rng = Cooperate"

definition test_mul_saturating :: "SeededRng \<Rightarrow> bool" where [vm_tests]:
  "test_mul_saturating rng \<longleftrightarrow>
     exec [op_PUSH, 20, op_PUSH, 20, op_MUL, op_RETURN] [] [] 0 rng = Defect"

definition test_gt :: "SeededRng \<Rightarrow> bool" where [vm_tests]:
  "test_gt rng \<longleftrightarrow>
     exec [op_PUSH, 5, op_PUSH, 3, op_GT, op_RETURN] [] [] 0 rng = Defect \<and>
     exec [op_PUSH, 3, op_PUSH, 5, op_GT, op_RETURN] [] [] 0 rng = Cooperate"

definition test_lt :: "SeededRng \<Rightarrow> bool" where [vm_tests]:
  "test_lt rng \<longleftrightarrow>
     exec [op_PUSH, 3, op_PUSH, 5, op_LT, op_RETURN] [] [] 0 rng = Defect"

definition test_eq :: "SeededRng \<Rightarrow> bool" where [vm_tests]:
  "test_eq rng \<longleftrightarrow>
     exec [op_PUSH, 5, op_PUSH, 5, op_EQ, op_RETURN] [] [] 0 rng = Defect \<and>
     exec [op_PUSH, 5, op_PUSH, 3, op_EQ, op_RETURN] [] [] 0 rng = Cooperate"

definition test_not :: "SeededRng \<Rightarrow> bool" where [vm_tests]:
  "test_not rng \<longleftrightarrow>
     exec [op_PUSH, 0, op_NOT, op_RETURN] [] [] 0 rng = Defect \<and>
     exec [op_PUSH, 1, op_NOT, op_RETURN] [] [] 0 rng = Cooperate"

definition test_and :: "SeededRng \<Rightarrow> bool" where [vm_tests]:
  "test_and rng \<longleftrightarrow>
     exec [op_PUSH, 1, op_PUSH, 1, op_AND, op_RETURN] [] [] 0 rng = Defect \<and>
     exec [op_PUSH, 1, op_PUSH, 0, op_AND, op_RETURN] [] [] 0 rng = Cooperate"

definition test_or :: "SeededRng \<Rightarrow> bool" where [vm_tests]:
  "test_or rng \<longleftrightarrow>
     exec [op_PUSH, 0, op_PUSH, 0, op_OR, op_RETURN] [] [] 0 rng = Cooperate \<and>
     exec [op_PUSH, 1, op_PUSH, 0, op_OR, op_RETURN] [] [] 0 rng = Defect"

definition test_dup :: "SeededRng \<Rightarrow> bool" where [vm_tests]:
  "test_dup rng \<longleftrightarrow>
     exec [op_PUSH, 5, op_DUP, op_EQ, op_RETURN] [] [] 0 rng = Defect"

definition test_round :: "SeededRng \<Rightarrow> bool" where [vm_tests]:
  "test_round rng \<longleftrightarrow>
     exec [op_ROUND, op_RETURN] [] [] 0 rng = Cooperate \<and>
     exec [op_ROUND, op_RETURN] [] [] 5 rng = Defect"

definition test_opp_n :: "SeededRng \<Rightarrow> bool" where [vm_tests]:
  "test_opp_n rng \<longleftrightarrow>
     (let opp = [Cooperate, Defect, Cooperate] in
      exec [op_PUSH, 0, op_OPP_N, op_RETURN] opp [] 3 rng = Cooperate \<and>
      exec [op_PUSH, 1, op_OPP_N, op_RETURN] opp [] 3 rng = Defect)"

definition test_my_n :: "SeededRng \<Rightarrow> bool" where [vm_tests]:
  "test_my_n rng \<longleftrightarrow>
     (let my = [Defect, Cooperate] in
      exec [op_PUSH, 0, op_MY_N, op_RETURN] [] my 2 rng = Cooperate \<and>
      exec [op_PUSH, 1, op_MY_N, op_RETURN] [] my 2 rng = Defect)"

definition test_opp_defects_count :: "SeededRng \<Rightarrow> bool" where [vm_tests]:
  "test_opp_defects_count rng \<longleftrightarrow>
     exec [op_OPP_DEFECTS, op_RETURN] [Defect, Cooperate, Defect] [] 3 rng = Defect"

definition test_my_defects_count :: "SeededRng \<Rightarrow> bool" where [vm_tests]:
  "test_my_defects_count rng \<longleftrightarrow>
     exec [op_MY_DEFECTS, op_RETURN] [] [Cooperate, Cooperate] 2 rng = Cooperate"

definition test_score_last_round_0 :: "SeededRng \<Rightarrow> bool" where [vm_tests]:
  "test_score_last_round_0 rng \<longleftrightarrow>
     exec [op_SCORE_LAST, op_RETURN] [] [] 0 rng = Defect"

definition test_score_last_after_betrayal :: "SeededRng \<Rightarrow> bool" where [vm_tests]:
  "test_score_last_after_betrayal rng \<longleftrightarrow>
     exec [op_SCORE_LAST, op_RETURN] [Defect] [Cooperate] 1 rng = Cooperate"

definition test_jmp_fwd :: "SeededRng \<Rightarrow> bool" where [vm_tests]:
  "test_jmp_fwd rng \<longleftrightarrow>
     exec [op_JMP_FWD, 1, op_DEFECT, op_COOP] [] [] 0 rng = Cooperate"

definition test_jmp_fwd_if_taken :: "SeededRng \<Rightarrow> bool" where [vm_tests]:
  "test_jmp_fwd_if_taken rng \<longleftrightarrow>
     exec [op_PUSH, 1, op_JMP_FWD_IF, 1, op_COOP, op_DEFECT] [] [] 0 rng = Defect"

definition test_jmp_fwd_if_not_taken :: "SeededRng \<Rightarrow> bool" where [vm_tests]:
  "test_jmp_fwd_if_not_taken rng \<longleftrightarrow>
     exec [op_PUSH, 0, op_JMP_FWD_IF, 1, op_COOP, op_DEFECT] [] [] 0 rng = Cooperate"

definition test_empty_bytecode_cooperates :: "SeededRng \<Rightarrow> bool" where [vm_tests]:
  "test_empty_bytecode_cooperates rng \<longleftrightarrow>
     exec [] [] [] 0 rng = Cooperate"

definition test_stack_underflow_cooperates :: "SeededRng \<Rightarrow> bool" where [vm_tests]:
  "test_stack_underflow_cooperates rng \<longleftrightarrow>
     exec [op_RETURN] [] [] 0 rng = Cooperate"

definition test_stack_overflow_cooperates :: "SeededRng \<Rightarrow> bool" where [vm_tests]:
  "test_stack_overflow_cooperates rng \<longleftrightarrow>
     exec (concat (replicate 9 [op_PUSH, 1]) @ [op_RETURN]) [] [] 0 rng = Cooperate"

definition test_unknown_opcode_cooperates :: "SeededRng \<Rightarrow> bool" where [vm_tests]:
  "test_unknown_opcode_cooperates rng \<longleftrightarrow>
     exec [0xFF] [] [] 0 rng = Cooperate"

definition fuel_test_code :: "u8 list" where
  "fuel_test_code = [op_PUSH, 1] @ replicate 127 op_NOT @ [op_RETURN]"

definition test_fuel_exhaustion_cooperates :: "SeededRng \<Rightarrow> bool" where [vm_tests]:
  "test_fuel_exhaustion_cooperates rng \<longleftrightarrow>
     exec fuel_test_code [] [] 0 rng = Cooperate"

definition test_fall_off_end_cooperates :: "SeededRng \<Rightarrow> bool" where [vm_tests]:
  "test_fall_off_end_cooperates rng \<longleftrightarrow>
     exec [op_PUSH, 5] [] [] 0 rng = Cooperate"

section \<open>Validation\<close>

definition test_validate_empty :: bool where [vm_tests]:
  "test_validate_empty \<longleftrightarrow>
     validate_bytecode [] = Inl Empty"

definition test_validate_too_long :: bool where [vm_tests]:
  "test_validate_too_long \<longleftrightarrow>
     validate_bytecode (replicate (MAX_BYTECODE_LEN + 1) op_PUSH) = Inl TooLong"

definition test_validate_unknown_opcode :: bool where [vm_tests]:
  "test_validate_unknown_opcode \<longleftrightarrow>
     validate_bytecode [0xFF, op_COOP] = Inl (UnknownOpcode 0 0xFF)"

definition test_validate_truncated_push :: bool where [vm_tests]:
  "test_validate_truncated_push \<longleftrightarrow>
     validate_bytecode [op_PUSH] = Inl (TruncatedImmediate 0)"

definition test_validate_jump_out_of_bounds :: bool where [vm_tests]:
  "test_validate_jump_out_of_bounds \<longleftrightarrow>
     validate_bytecode [op_JMP_FWD, 255, op_COOP] = Inl (JumpOutOfBounds 0)"

definition test_validate_no_terminal :: bool where [vm_tests]:
  "test_validate_no_terminal \<longleftrightarrow>
     validate_bytecode [op_PUSH, 5, op_PUSH, 3, op_ADD] = Inl NoTerminal"

definition test_validate_valid_programs :: bool where [vm_tests]:
  "test_validate_valid_programs \<longleftrightarrow>
     validate_bytecode [op_COOP] = Inr () \<and>
     validate_bytecode [op_DEFECT] = Inr () \<and>
     validate_bytecode [op_OPP_LAST, op_RETURN] = Inr () \<and>
     validate_bytecode [op_OPP_DEFECTS, op_PUSH, 0, op_GT, op_JMP_FWD_IF, 1, op_COOP, op_DEFECT] = Inr ()"

definition test_max_length_bytecode :: "SeededRng \<Rightarrow> bool" where [vm_tests]:
  "test_max_length_bytecode rng \<longleftrightarrow>
     (let code = concat (replicate 31 [op_PUSH, 0]) @ [op_COOP, op_DEFECT] in
      length code = MAX_BYTECODE_LEN \<and>
      validate_bytecode code = Inr () \<and>
      exec code [] [] 0 rng = Cooperate)"

section \<open>Parity with the built-in strategies\<close>

definition assert_match_parity :: "u8 list \<Rightarrow> u8 list \<Rightarrow> StrategyBase \<Rightarrow> bool" where
  "assert_match_parity seed bytecode b \<longleftrightarrow>
     (let builtin = Builtin (strategy_new b); custom = Custom bytecode in
      list_all (\<lambda>match_idx.
        let r1 = run_match builtin builtin seed match_idx 100;
            r2 = run_match custom custom seed match_idx 100
        in round_count r1 = round_count r2 \<and>
           total_score_a r1 = total_score_a r2 \<and>
           total_score_b r1 = total_score_b r2 \<and>
           list_all (\<lambda>(r_native, r_custom). move_a r_native = move_a r_custom \<and> move_b r_native = move_b r_custom)
             (zip (rounds r1) (rounds r2)))
        (map of_nat [0..<5]))"

definition test_parity_always_cooperate :: "u8 list \<Rightarrow> bool" where
  "test_parity_always_cooperate seed \<longleftrightarrow> assert_match_parity seed always_cooperate_code AlwaysCooperate"

definition test_parity_always_defect :: "u8 list \<Rightarrow> bool" where
  "test_parity_always_defect seed \<longleftrightarrow> assert_match_parity seed always_defect_code AlwaysDefect"

definition test_parity_tit_for_tat :: "u8 list \<Rightarrow> bool" where
  "test_parity_tit_for_tat seed \<longleftrightarrow> assert_match_parity seed tit_for_tat_code TitForTat"

definition test_parity_grim_trigger :: "u8 list \<Rightarrow> bool" where
  "test_parity_grim_trigger seed \<longleftrightarrow> assert_match_parity seed grim_trigger_code GrimTrigger"

definition test_parity_suspicious_tft :: "u8 list \<Rightarrow> bool" where
  "test_parity_suspicious_tft seed \<longleftrightarrow> assert_match_parity seed suspicious_tft_code SuspiciousTitForTat"

definition test_parity_tit_for_two_tats :: "u8 list \<Rightarrow> bool" where
  "test_parity_tit_for_two_tats seed \<longleftrightarrow> assert_match_parity seed tit_for_two_tats_code TitForTwoTats"

definition test_parity_pavlov :: "u8 list \<Rightarrow> bool" where
  "test_parity_pavlov seed \<longleftrightarrow> assert_match_parity seed pavlov_test_code Pavlov"

definition test_custom_vs_builtin_match :: "u8 list \<Rightarrow> bool" where
  "test_custom_vs_builtin_match seed \<longleftrightarrow>
     (let result = run_match (Custom [op_OPP_LAST, op_RETURN]) (Builtin (strategy_new AlwaysDefect)) seed 0 100 in
      0 < length (rounds result) \<and>
      move_a (rounds result ! 0) = Cooperate \<and>
      move_b (rounds result ! 0) = Defect \<and>
      list_all (\<lambda>r. move_a r = Defect \<and> move_b r = Defect) (drop 1 (rounds result)))"

text \<open>
  The loop of \<open>test_round_by_round_parity_tft\<close> over the rounds of one opponent, with the moves the
  native strategy has made so far.
\<close>

fun parity_rounds :: "u8 list \<Rightarrow> Move list \<Rightarrow> nat list \<Rightarrow> Move list \<Rightarrow> bool" where
  "parity_rounds seed opp_moves [] my_history \<longleftrightarrow> True"
| "parity_rounds seed opp_moves (round # rs) my_history \<longleftrightarrow>
     (let opp_history = take round opp_moves;
          rng = for_round (rng_new seed 0) (of_nat round);
          native_move = fst (execute_strategy (strategy_new TitForTat) opp_history my_history (of_nat round) rng);
          custom_move = exec [op_OPP_LAST, op_RETURN] opp_history my_history (of_nat round) rng
      in native_move = custom_move \<and> parity_rounds seed opp_moves rs (my_history @ [native_move]))"

definition test_round_by_round_parity_tft :: "u8 list \<Rightarrow> bool" where
  "test_round_by_round_parity_tft seed \<longleftrightarrow>
     list_all (\<lambda>opp_moves. parity_rounds seed opp_moves [0..<length opp_moves] [])
       [replicate 10 Cooperate, replicate 10 Defect,
        [Cooperate, Defect, Cooperate, Defect, Cooperate]]"

section \<open>The tests pass\<close>

lemmas test_run = execute_bytecode_run MAX_FUEL_def vm_run Let_def

lemma move_tests:
  "test_coop rng" "test_defect rng" "test_return_zero_is_cooperate rng" "test_return_nonzero_is_defect rng"
  "test_bytecode_tit_for_tat rng" "test_bytecode_always_defect rng" "test_bytecode_grim_trigger rng"
  by (simp_all add: vm_tests test_run last_opt_def count_defects_def list_all_iff)

lemma saturation_nonzero:
  "saturating_add (200 :: u8) 100 \<noteq> 0" "saturating_mul (20 :: u8) 20 \<noteq> 0"
  by (simp_all add: saturating_add_def saturating_mul_def checked_add_def checked_mul_def)

lemma operator_tests:
  "test_add_saturating rng" "test_sub_saturating rng" "test_mul_saturating rng"
  "test_gt rng" "test_lt rng" "test_eq rng" "test_not rng" "test_and rng" "test_or rng"
  "test_dup rng" "test_round rng"
  by (simp_all add: vm_tests test_run saturation_nonzero saturating_sub_def)

lemma history_tests:
  "test_opp_n rng" "test_my_n rng" "test_opp_defects_count rng" "test_my_defects_count rng"
  "test_score_last_round_0 rng" "test_score_last_after_betrayal rng"
  by (simp_all add: vm_tests test_run count_defects_def history_n_ago_def score_last_def last_opt_def)

lemma jump_tests:
  "test_jmp_fwd rng" "test_jmp_fwd_if_taken rng" "test_jmp_fwd_if_not_taken rng"
  by (simp_all add: vm_tests test_run)

text \<open>A ninth value does not fit, whatever follows.\<close>

lemma run_code_pushes:
  "run_code opp my round (concat (replicate k [op_PUSH, v]) @ rest) stk rng =
     (if k = 0 \<or> length stk + k \<le> STACK_SIZE then run_code opp my round rest (replicate k v @ stk) rng else (None, rng))"
proof (induction k arbitrary: stk)
  case (Suc k)
  have "run_code opp my round (op_PUSH # v # code) stk rng =
      (if length stk < STACK_SIZE then run_code opp my round code (v # stk) rng else (None, rng))" for code
    by (simp add: vm_run)
  with Suc show ?case by (auto simp: replicate_app_Cons_same)
qed simp

lemma failure_tests:
  "test_empty_bytecode_cooperates rng" "test_stack_underflow_cooperates rng" "test_stack_overflow_cooperates rng"
  "test_unknown_opcode_cooperates rng" "test_fall_off_end_cooperates rng"
proof -
  show "test_empty_bytecode_cooperates rng" "test_stack_underflow_cooperates rng"
    "test_unknown_opcode_cooperates rng" "test_fall_off_end_cooperates rng"
    by (simp_all add: vm_tests test_run)
  show "test_stack_overflow_cooperates rng"
    by (simp add: vm_tests execute_bytecode_run MAX_FUEL_def length_concat sum_list_replicate run_code_pushes STACK_SIZE_def)
qed

lemma validation_tests:
  "test_validate_empty" "test_validate_too_long" "test_validate_unknown_opcode" "test_validate_truncated_push"
  "test_validate_jump_out_of_bounds" "test_validate_no_terminal" "test_validate_valid_programs"
  by (simp_all add: vm_tests validate_bytecode_def MAX_BYTECODE_LEN_def validate_loop.simps one_byte_ops_def)

text \<open>The validator walks over pushes to what follows them.\<close>

lemma length_pushes [simp]: "length (concat (replicate k [a, b])) = 2 * k"
  by (simp add: length_concat sum_list_replicate)

lemma nth_pushes: "j < k \<Longrightarrow> (concat (replicate k [a, b]) @ rest) ! (2 * j) = a"
proof (induction k arbitrary: j)
  case (Suc k)
  then show ?case by (cases j) simp_all
qed simp

lemma validate_loop_pushes:
  assumes "j \<le> k"
  shows "validate_loop (concat (replicate k [op_PUSH, v]) @ rest) (2 * j) t =
    validate_loop (concat (replicate k [op_PUSH, v]) @ rest) (2 * k) t"
  using assms
proof (induction j rule: inc_induct)
  case (step j)
  then show ?case
    by (subst validate_loop.simps) (simp add: nth_pushes)
qed simp

lemma max_length_test: "test_max_length_bytecode rng"
proof -
  let ?code = "concat (replicate 31 [op_PUSH, 0]) @ [op_COOP, op_DEFECT]"
  have "validate_loop ?code 0 False = validate_loop ?code 62 False"
    using validate_loop_pushes [of 0 31 0 "[op_COOP, op_DEFECT]" False] by simp
  also have "\<dots> = Inr ()" by (simp add: validate_loop.simps nth_append)
  finally show ?thesis
    by (simp add: vm_tests Let_def validate_bytecode_def MAX_BYTECODE_LEN_def execute_bytecode_run MAX_FUEL_def
        run_code_pushes STACK_SIZE_def)
qed

text \<open>The fuel runs out before the last instruction of a chain of negations.\<close>

lemma length_fuel_test_code [simp]: "length fuel_test_code = 130"
  by (simp add: fuel_test_code_def)

lemma fuel_test_runs_out: "execute_inner fuel_test_code opp my round rng = (None, rng)"
proof -
  have first: "fuel_test_code ! 0 = op_PUSH" "fuel_test_code ! Suc 0 = 1" by (simp_all add: fuel_test_code_def)
  have nots: "fuel_test_code ! (2 + i) = op_NOT" if "i < 127" for i
    using that by (simp add: fuel_test_code_def nth_append)
  have stack: "empty_stack = (0 # replicate 7 0, 0)"
    by (simp add: empty_stack_def STACK_SIZE_def eval_nat_numeral)
  have "execute_inner fuel_test_code opp my round rng =
      vm_loop fuel_test_code opp my round 1 \<lparr>vm_stack = (1 # replicate 7 0, 1), vm_pc = 2, vm_rng = rng\<rparr>"
    unfolding execute_inner_def
    by (subst vm_loop.simps)
      (simp add: first vm_dispatch_def Let_def nth_opt_def push_next_def or_fail_def stack STACK_SIZE_def MAX_FUEL_def, simp add: numeral_2_eq_2)
  also have "\<exists>v. (v = 0 \<longleftrightarrow> ((1 :: u8) = 0 \<longleftrightarrow> even (127 :: nat))) \<and> \<dots> = vm_loop fuel_test_code opp my round (1 + 127)
      \<lparr>vm_stack = (v # replicate 7 0, 1), vm_pc = 2 + 127, vm_rng = rng\<rparr>"
    by (rule vm_loop_nots) (use nots in \<open>simp_all add: MAX_FUEL_def\<close>)
  finally obtain v where "execute_inner fuel_test_code opp my round rng =
      vm_loop fuel_test_code opp my round 128 \<lparr>vm_stack = (v # replicate 7 0, 1), vm_pc = 129, vm_rng = rng\<rparr>"
    by auto
  then show ?thesis by (simp add: vm_loop.simps MAX_FUEL_def)
qed

lemma fuel_test: "test_fuel_exhaustion_cooperates rng"
  by (simp add: vm_tests execute_bytecode_def fuel_test_runs_out)

text \<open>
  The test would pass without the limit as well: an odd number of negations of one is zero, so the
  machine without fuel returns \<open>Cooperate\<close> as its regular result.
\<close>

lemma run_code_nots:
  "run_code opp my round (replicate (2 * k) op_NOT @ rest) [u8_from_bool b] rng =
   run_code opp my round rest [u8_from_bool b] rng"
proof (induction k)
  case (Suc k)
  have "run_code opp my round (op_NOT # op_NOT # code) [u8_from_bool b] rng = run_code opp my round code [u8_from_bool b] rng" for code
    by (cases b) (simp_all add: vm_run)
  with Suc show ?case by simp
qed simp

lemma fuel_test_without_fuel: "run_code opp my round fuel_test_code [] rng = (Some Cooperate, rng)"
proof -
  have code: "fuel_test_code = [op_PUSH, 1] @ replicate (2 * 63) op_NOT @ [op_NOT, op_RETURN]"
  proof -
    have "replicate (Suc 126) op_NOT = replicate 126 op_NOT @ [op_NOT]"
      by (simp only: replicate_Suc replicate_append_same)
    then show ?thesis by (simp add: fuel_test_code_def)
  qed
  have push: "run_code opp my round ([op_PUSH, 1] @ code) [] rng = run_code opp my round code [u8_from_bool True] rng" for code
    by (simp add: vm_run)
  show ?thesis unfolding code push run_code_nots by (simp add: vm_run)
qed

section \<open>The parity tests pass\<close>

lemma assert_match_parityI:
  assumes "\<And>i. run_match (Builtin (strategy_new b)) (Builtin (strategy_new b)) seed i 100 =
    run_match (Custom code) (Custom code) seed i 100"
  shows "assert_match_parity seed code b"
  by (auto simp: assert_match_parity_def Let_def assms list_all_iff set_zip)

lemma assert_match_parity_twin:
  assumes "bytecode_twin b = Some code"
  shows "assert_match_parity seed code b"
  using run_match_cong [OF same_moves_twin [OF assms] same_moves_twin [OF assms]]
  by (intro assert_match_parityI) simp

lemma twin_parity_tests:
  "test_parity_always_cooperate seed" "test_parity_always_defect seed" "test_parity_tit_for_tat seed"
  "test_parity_grim_trigger seed" "test_parity_suspicious_tft seed" "test_parity_tit_for_two_tats seed"
  unfolding test_parity_always_cooperate_def test_parity_always_defect_def test_parity_tit_for_tat_def
    test_parity_grim_trigger_def test_parity_suspicious_tft_def test_parity_tit_for_two_tats_def
  by (rule assert_match_parity_twin, simp)+

text \<open>
  The program of the Pavlov test is not Pavlov, but in a match against itself it is never betrayed,
  and then it cooperates as Pavlov does; the test cannot tell the two apart.
\<close>

lemma map_Cooperate_snoc: "map (\<lambda>_. Cooperate) [0..<Suc k] = map (\<lambda>_. Cooperate) [0..<k] @ [Cooperate]"
  by simp

lemma follows_pavlov: "follows (Builtin (strategy_new Pavlov)) (\<lambda>_. Cooperate) (\<lambda>_. Cooperate)"
proof (rule followsI)
  fix k rng
  show "fst (execute_player_strategy (Builtin (strategy_new Pavlov)) (map (\<lambda>_. Cooperate) [0..<k])
      (map (\<lambda>_. Cooperate) [0..<k]) (of_nat k) rng) = Cooperate"
    by (cases k) (simp_all add: execute_player_simps pavlov_snoc, simp add: execute_pavlov_def)
qed

lemma follows_pavlov_test_code: "follows (Custom pavlov_test_code) (\<lambda>_. Cooperate) (\<lambda>_. Cooperate)"
proof (rule followsI)
  fix k :: nat and rng assume k: "k < 256"
  show "fst (execute_player_strategy (Custom pavlov_test_code) (map (\<lambda>_. Cooperate) [0..<k])
      (map (\<lambda>_. Cooperate) [0..<k]) (of_nat k) rng) = Cooperate"
  proof (cases k)
    case 0
    then show ?thesis by (simp add: execute_player_simps pavlov_test_code_def test_run)
  next
    case (Suc j)
    then have r: "(of_nat k :: u8) \<noteq> 0" using of_nat_u8_small(1) [OF k] by simp
    let ?h = "map (\<lambda>_. Cooperate) [0..<j] @ [Cooperate]"
    have "fst (execute_player_strategy (Custom pavlov_test_code) ?h ?h r rng) = Cooperate" if "r \<noteq> 0" for r
      using that score_last_snoc [of "map (\<lambda>_. Cooperate) [0..<j]" Cooperate "map (\<lambda>_. Cooperate) [0..<j]" Cooperate]
      by (simp add: execute_player_simps pavlov_test_code_def test_run)
    then show ?thesis using r Suc by (metis map_Cooperate_snoc)
  qed
qed

lemma pavlov_parity_test: "test_parity_pavlov seed"
  unfolding test_parity_pavlov_def
proof (rule assert_match_parityI)
  fix i
  let ?n = "match_length seed i 100" and ?rng = "match_rng seed i 100"
  let ?p = "Builtin (strategy_new Pavlov)" and ?q = "Custom pavlov_test_code"
  have "play_rounds ?p ?p ?rng m = play_rounds ?q ?q ?rng m" if "m \<le> 256" for m
    using that
  proof (induction m)
    case (Suc m)
    have h: "history_a (play_rounds ?q ?q ?rng m) = map (\<lambda>_. Cooperate) [0..<m]"
      "history_b (play_rounds ?q ?q ?rng m) = map (\<lambda>_. Cooperate) [0..<m]"
      using play_rounds_course [OF follows_pavlov_test_code follows_pavlov_test_code] Suc.prems by simp_all
    note f = followsD [OF follows_pavlov, of m] followsD [OF follows_pavlov_test_code, of m]
    show ?case
      by (rule match_state.equality)
        (use Suc f in \<open>simp_all add: play_rounds_Suc match_round_simps h\<close>)
  qed simp
  from this [of ?n] match_length_le_50 [of seed i 100]
  show "run_match ?p ?p seed i 100 = run_match ?q ?q seed i 100"
    by (intro MatchResult.equality) (simp_all add: run_match_fields)
qed

lemma custom_vs_builtin_test: "test_custom_vs_builtin_match seed"
  using tft_meets_always_defect [OF follows_tit_for_tat(2)]
  by (simp add: test_custom_vs_builtin_match_def Let_def tit_for_tat_code_def)

lemma parity_rounds: "parity_rounds seed opp rs my"
proof (induction rs arbitrary: my)
  case (Cons r rs)
  have "exec [op_OPP_LAST, op_RETURN] h m r rng = execute_tit_for_tat h" for h m r rng
    using tit_for_tat_run by (simp add: tit_for_tat_code_def)
  with Cons show ?case by (simp add: Let_def execute_strategy_def strategy_new_def)
qed simp

lemma round_by_round_test: "test_round_by_round_parity_tft seed"
  by (simp add: test_round_by_round_parity_tft_def parity_rounds)

end
