(* ===== verification/Match_Tests.thy ===== *)
theory Match_Tests
  imports Match_Course Expected_Rounds Rng_Seeds
begin

text \<open>
  The unit tests of \<^verbatim>\<open>lib.rs\<close>, \<^verbatim>\<open>random.rs\<close>, \<^verbatim>\<open>strategy.rs\<close> and \<^verbatim>\<open>game.rs\<close>, one definition per test
  function. As in the tests of the bytecode machine the fixture, the generator or the seed
  \<open>[42; 32]\<close>, is an argument where the assertions hold with every value of it; the two tests that
  compare different seeds or matches keep their constants. Not here: the tests of determinism, which
  a function of the model passes by being one, and the four that average a thousand or more sampled
  lengths of matches.
\<close>

named_theorems match_tests "definitions of the unit tests of the match library"

section \<open>Payoffs\<close>

definition test_payoff_matrix :: bool where [match_tests]:
  "test_payoff_matrix \<longleftrightarrow>
     payoff Cooperate Cooperate = (3, 3) \<and>
     payoff Cooperate Defect = (0, 5) \<and>
     payoff Defect Cooperate = (5, 0) \<and>
     payoff Defect Defect = (1, 1)"

section \<open>Random numbers\<close>

text \<open>A number of draws by one of the methods of the generator, and the generator afterwards.\<close>

fun draws :: "(SeededRng \<Rightarrow> 'a \<times> SeededRng) \<Rightarrow> nat \<Rightarrow> SeededRng \<Rightarrow> 'a list \<times> SeededRng" where
  "draws f 0 rng = ([], rng)"
| "draws f (Suc n) rng = (let (v, rng') = f rng; (vs, rng'') = draws f n rng' in (v # vs, rng''))"

definition test_different_seeds :: bool where
  "test_different_seeds \<longleftrightarrow>
     (let rng1 = rng_new (replicate 32 1) 0;
          rng2 = rng_new (replicate 32 2) 0
      in fst (draws next_u64 10 rng1) \<noteq> fst (draws next_u64 10 rng2))"

definition test_different_match_index :: "u8 list \<Rightarrow> bool" where
  "test_different_match_index seed \<longleftrightarrow>
     fst (next_u64 (rng_new seed 0)) \<noteq> fst (next_u64 (rng_new seed 1))"

definition test_percent_range :: "u8 list \<Rightarrow> bool" where
  "test_percent_range seed \<longleftrightarrow> list_all (\<lambda>p. p < 100) (fst (draws next_percent 1000 (rng_new seed 0)))"

text \<open>The generator goes through all the ranges in turn.\<close>

fun ranges_ok :: "u32 list \<Rightarrow> SeededRng \<Rightarrow> bool" where
  "ranges_ok [] rng \<longleftrightarrow> fst (next_range rng 0) = 0"
| "ranges_ok (mx # mxs) rng \<longleftrightarrow>
     (let (vals, rng') = draws (\<lambda>r. next_range r mx) 100 rng
      in list_all (\<lambda>val. val < mx) vals \<and> ranges_ok mxs rng')"

definition test_next_range :: "u8 list \<Rightarrow> bool" where
  "test_next_range seed \<longleftrightarrow> ranges_ok [1, 10, 100, 1000] (rng_new seed 0)"

lemma draws_all:
  assumes "\<And>rng. P (fst (f rng))"
  shows "list_all P (fst (draws f n rng))"
  using assms by (induction n arbitrary: rng) (auto simp: split_beta)

lemma percent_range_test: "test_percent_range seed"
  unfolding test_percent_range_def
  by (rule draws_all) (simp add: word_less_nat_alt next_percent_lt_100)

lemma ranges_ok: "0 \<notin> set mxs \<Longrightarrow> ranges_ok mxs rng"
proof (induction mxs arbitrary: rng)
  case (Cons mx mxs)
  then show ?case
    using draws_all [of "\<lambda>val. val < mx" "\<lambda>r. next_range r mx" 100] next_range_lt [of mx]
    by (auto simp: split_beta)
qed (simp add: next_range_0)

lemma next_range_test: "test_next_range seed"
  unfolding test_next_range_def by (rule ranges_ok) simp

lemma different_match_index_test: "test_different_match_index seed"
proof -
  let ?c = "0x517cc1b727220a95 :: u64"
  have "seed_mix seed \<noteq> seed_mix seed XOR ?c"
  proof
    assume "seed_mix seed = seed_mix seed XOR ?c"
    then have "seed_mix seed XOR seed_mix seed = seed_mix seed XOR (seed_mix seed XOR ?c)" by (rule arg_cong)
    also have "\<dots> = ?c" by (simp only: xor.assoc [symmetric] xor_self_eq xor.left_neutral)
    finally show False by simp
  qed
  then have "rng_state (rng_new seed 0) \<noteq> rng_state (rng_new seed 1)"
    unfolding rng_state_new xorshift_funpow_inj by simp
  then show ?thesis unfolding test_different_match_index_def using next_u64_inj by blast
qed


lemma different_seeds_test: "test_different_seeds"
proof -
  have "rng_state (rng_new (replicate 32 1) 0) \<noteq> rng_state (rng_new (replicate 32 2) 0)"
    unfolding rng_state_new xorshift_funpow_inj by (simp add: test_seed_mix)
  then have "fst (next_u64 (rng_new (replicate 32 1) 0)) \<noteq> fst (next_u64 (rng_new (replicate 32 2) 0))"
    using next_u64_inj by blast
  moreover have "hd (fst (draws next_u64 10 rng)) = fst (next_u64 rng)" for rng
    using draws.simps(2) [of next_u64 9 rng] by (simp add: split_beta)
  ultimately show ?thesis unfolding test_different_seeds_def Let_def by metis
qed

section \<open>Strategies\<close>

text \<open>The generator goes from call to call, as \<^verbatim>\<open>&mut rng\<close> does in the tests.\<close>

fun moves_from :: "Strategy \<Rightarrow> u8 list \<Rightarrow> SeededRng \<Rightarrow> Move list" where
  "moves_from strategy [] rng = []"
| "moves_from strategy (rd # rds) rng =
     (let (m, rng') = execute_strategy strategy [] [] rd rng in m # moves_from strategy rds rng')"

definition test_tit_for_tat_first_move :: "SeededRng \<Rightarrow> bool" where [match_tests]:
  "test_tit_for_tat_first_move rng \<longleftrightarrow>
     (let strategy = strategy_new TitForTat;
          (m, rng1) = execute_strategy strategy [] [] 0 rng
      in m = Cooperate)"

definition test_tit_for_tat_copies :: "SeededRng \<Rightarrow> bool" where [match_tests]:
  "test_tit_for_tat_copies rng \<longleftrightarrow>
     (let strategy = strategy_new TitForTat;
          (m1, rng1) = execute_strategy strategy [Cooperate] [Cooperate] 1 rng;
          (m2, rng2) = execute_strategy strategy [Defect] [Cooperate] 1 rng1
      in m1 = Cooperate \<and> m2 = Defect)"

definition test_always_defect :: "SeededRng \<Rightarrow> bool" where [match_tests]:
  "test_always_defect rng \<longleftrightarrow>
     list_all (\<lambda>m. m = Defect) (moves_from (strategy_new AlwaysDefect) (map of_nat [0..<10]) rng)"

definition test_always_cooperate :: "SeededRng \<Rightarrow> bool" where [match_tests]:
  "test_always_cooperate rng \<longleftrightarrow>
     list_all (\<lambda>m. m = Cooperate) (moves_from (strategy_new AlwaysCooperate) (map of_nat [0..<10]) rng)"

definition test_grim_trigger :: "SeededRng \<Rightarrow> bool" where [match_tests]:
  "test_grim_trigger rng \<longleftrightarrow>
     (let strategy = strategy_new GrimTrigger;
          (m1, rng1) = execute_strategy strategy [Cooperate, Cooperate] [] 2 rng;
          (m2, rng2) = execute_strategy strategy [Cooperate, Defect] [] 2 rng1
      in m1 = Cooperate \<and> m2 = Defect)"

definition test_pavlov_win_stay :: "SeededRng \<Rightarrow> bool" where [match_tests]:
  "test_pavlov_win_stay rng \<longleftrightarrow>
     (let strategy = strategy_new Pavlov;
          (m1, rng1) = execute_strategy strategy [Cooperate] [Cooperate] 1 rng;
          (m2, rng2) = execute_strategy strategy [Cooperate] [Defect] 1 rng1
      in m1 = Cooperate \<and> m2 = Defect)"

definition test_pavlov_lose_switch :: "SeededRng \<Rightarrow> bool" where [match_tests]:
  "test_pavlov_lose_switch rng \<longleftrightarrow>
     (let strategy = strategy_new Pavlov;
          (m1, rng1) = execute_strategy strategy [Defect] [Cooperate] 1 rng;
          (m2, rng2) = execute_strategy strategy [Defect] [Defect] 1 rng1
      in m1 = Defect \<and> m2 = Cooperate)"

definition test_suspicious_tft_starts_defect :: "SeededRng \<Rightarrow> bool" where [match_tests]:
  "test_suspicious_tft_starts_defect rng \<longleftrightarrow>
     (let strategy = strategy_new SuspiciousTitForTat;
          (m, rng1) = execute_strategy strategy [] [] 0 rng
      in m = Defect)"

definition test_tit_for_two_tats :: "SeededRng \<Rightarrow> bool" where [match_tests]:
  "test_tit_for_two_tats rng \<longleftrightarrow>
     (let strategy = strategy_new TitForTwoTats;
          (m1, rng1) = execute_strategy strategy [Cooperate, Defect] [] 2 rng;
          (m2, rng2) = execute_strategy strategy [Defect, Defect] [] 2 rng1
      in m1 = Cooperate \<and> m2 = Defect)"

lemma moves_from_constant:
  assumes "\<And>rd rng. fst (execute_strategy strategy [] [] rd rng) = m"
  shows "list_all (\<lambda>m'. m' = m) (moves_from strategy rs rng)"
  using assms by (induction rs arbitrary: rng) (simp_all add: split_beta)

lemma payoff_test: "test_payoff_matrix"
  by (simp add: match_tests)

lemma strategy_tests:
  "test_tit_for_tat_first_move rng" "test_tit_for_tat_copies rng" "test_always_defect rng" "test_always_cooperate rng"
  "test_grim_trigger rng" "test_pavlov_win_stay rng" "test_pavlov_lose_switch rng"
  "test_suspicious_tft_starts_defect rng" "test_tit_for_two_tats rng"
  by (simp_all add: match_tests execute_strategy_def strategy_new_def strategy_defs last_opt_def
      moves_from_constant word_le_nat_alt)

section \<open>Matches\<close>

definition test_round_count_in_range :: "u8 list \<Rightarrow> bool" where
  "test_round_count_in_range seed \<longleftrightarrow>
     list_all (\<lambda>i. let count = fst (determine_round_count (rng_new seed i) standard) in 20 \<le> count \<and> count \<le> 50)
       (map of_nat [0..<100])"

definition test_round_count_standard_range :: "u8 list \<Rightarrow> bool" where
  "test_round_count_standard_range seed \<longleftrightarrow>
     list_all (\<lambda>i. let count = fst (determine_round_count (rng_new seed i) standard) in 20 \<le> count \<and> count \<le> 50)
       (map of_nat [0..<200])"

definition test_round_count_compressed_range :: "u8 list \<Rightarrow> bool" where
  "test_round_count_compressed_range seed \<longleftrightarrow>
     list_all (\<lambda>i. let count = fst (determine_round_count (rng_new seed i) compressed) in 10 \<le> count \<and> count \<le> 30)
       (map of_nat [0..<200])"

definition test_run_match_uses_standard_rounds :: "u8 list \<Rightarrow> bool" where
  "test_run_match_uses_standard_rounds seed \<longleftrightarrow>
     (let s = Builtin (strategy_new AlwaysCooperate) in
      list_all (\<lambda>i. let result = run_match s s seed i 100 in 20 \<le> round_count result \<and> round_count result \<le> 50)
        (map of_nat [0..<50]))"

definition test_run_match_uses_compressed_rounds :: "u8 list \<Rightarrow> bool" where
  "test_run_match_uses_compressed_rounds seed \<longleftrightarrow>
     (let s = Builtin (strategy_new AlwaysCooperate) in
      list_all (\<lambda>i. let result = run_match s s seed i 2000 in 10 \<le> round_count result \<and> round_count result \<le> 30)
        (map of_nat [0..<50]))"

definition test_cooperate_vs_cooperate :: "u8 list \<Rightarrow> bool" where
  "test_cooperate_vs_cooperate seed \<longleftrightarrow>
     (let s = Builtin (strategy_new AlwaysCooperate);
          result = run_match s s seed 0 100
      in list_all (\<lambda>r. move_a r = Cooperate \<and> move_b r = Cooperate \<and> score_a r = 3 \<and> score_b r = 3) (rounds result) \<and>
         total_score_a result = ucast (round_count result) * 3 \<and>
         total_score_b result = ucast (round_count result) * 3)"

definition test_defect_vs_cooperate :: "u8 list \<Rightarrow> bool" where
  "test_defect_vs_cooperate seed \<longleftrightarrow>
     (let result = run_match (Builtin (strategy_new AlwaysDefect)) (Builtin (strategy_new AlwaysCooperate)) seed 0 100
      in list_all (\<lambda>r. move_a r = Defect \<and> move_b r = Cooperate \<and> score_a r = 5 \<and> score_b r = 0) (rounds result) \<and>
         total_score_a result = ucast (round_count result) * 5 \<and>
         total_score_b result = 0)"

definition test_tft_vs_tft :: "u8 list \<Rightarrow> bool" where
  "test_tft_vs_tft seed \<longleftrightarrow>
     (let s = Builtin (strategy_new TitForTat)
      in list_all (\<lambda>r. move_a r = Cooperate \<and> move_b r = Cooperate) (rounds (run_match s s seed 0 100)))"

definition test_tft_vs_always_defect :: "u8 list \<Rightarrow> bool" where
  "test_tft_vs_always_defect seed \<longleftrightarrow>
     (let result = run_match (Builtin (strategy_new TitForTat)) (Builtin (strategy_new AlwaysDefect)) seed 0 100
      in 0 < length (rounds result) \<and>
         move_a (rounds result ! 0) = Cooperate \<and>
         move_b (rounds result ! 0) = Defect \<and>
         list_all (\<lambda>r. move_a r = Defect \<and> move_b r = Defect) (drop 1 (rounds result)))"

text \<open>The loop of \<open>test_cumulative_scores\<close> with its two accumulators.\<close>

fun cumulative_ok :: "u32 \<Rightarrow> u32 \<Rightarrow> RoundResult list \<Rightarrow> bool" where
  "cumulative_ok expected_a expected_b [] \<longleftrightarrow> True"
| "cumulative_ok expected_a expected_b (r # rs) \<longleftrightarrow>
     (let expected_a = expected_a + ucast (score_a r);
          expected_b = expected_b + ucast (score_b r)
      in cumulative_a r = expected_a \<and> cumulative_b r = expected_b \<and> cumulative_ok expected_a expected_b rs)"

definition test_cumulative_scores :: "u8 list \<Rightarrow> bool" where
  "test_cumulative_scores seed \<longleftrightarrow>
     (let s = Builtin (strategy_new AlwaysCooperate)
      in cumulative_ok 0 0 (rounds (run_match s s seed 0 100)))"

definition test_different_matches_differ :: bool where
  "test_different_matches_differ \<longleftrightarrow>
     (let seed = replicate 32 42;
          s = Builtin (strategy_new Random);
          moves = (\<lambda>i. map (\<lambda>r. (move_a r, move_b r)) (rounds (run_match s s seed i 100)))
      in moves 0 \<noteq> moves 1)"

text \<open>The expected numbers of rounds, over the real numbers.\<close>

definition test_expected_rounds_standard :: bool where
  "test_expected_rounds_standard \<longleftrightarrow>
     (let analytical = expected_rounds standard; expected = 20 + (1 - 0.95 ^ 30) / 0.05
      in \<bar>analytical - expected\<bar> < 1 / 10 ^ 10 \<and> 35 < analytical \<and> analytical < 36.5)"

definition test_expected_rounds_compressed :: bool where
  "test_expected_rounds_compressed \<longleftrightarrow>
     (let analytical = expected_rounds compressed; expected = 10 + (1 - 0.93 ^ 20) / 0.07
      in \<bar>analytical - expected\<bar> < 1 / 10 ^ 10 \<and> 20 < analytical \<and> analytical < 22)"

definition test_expected_rounds_degenerate :: bool where
  "test_expected_rounds_degenerate \<longleftrightarrow>
     expected_rounds \<lparr>min_rounds = 10, max_rounds = 10, end_probability = 50\<rparr> = 10"

lemma round_count_tests:
  "test_round_count_in_range seed" "test_round_count_standard_range seed" "test_round_count_compressed_range seed"
proof -
  have "20 \<le> fst (determine_round_count rng standard) \<and> fst (determine_round_count rng standard) \<le> 50"
    "10 \<le> fst (determine_round_count rng compressed) \<and> fst (determine_round_count rng compressed) \<le> 30" for rng
    using determine_round_count_bounds [of standard rng] determine_round_count_bounds [of compressed rng]
    by (simp_all add: standard_def compressed_def)
  then show "test_round_count_in_range seed" "test_round_count_standard_range seed" "test_round_count_compressed_range seed"
    by (simp_all add: test_round_count_in_range_def test_round_count_standard_range_def
        test_round_count_compressed_range_def list_all_iff Let_def)
qed

lemma run_match_rounds_tests:
  "test_run_match_uses_standard_rounds seed" "test_run_match_uses_compressed_rounds seed"
  using run_match_round_count [where n = 100] run_match_round_count [where n = 2000]
  by (simp_all add: test_run_match_uses_standard_rounds_def test_run_match_uses_compressed_rounds_def
      list_all_iff Let_def round_config_def standard_def compressed_def)

lemma constant_match_tests:
  "test_cooperate_vs_cooperate seed" "test_defect_vs_cooperate seed" "test_tft_vs_tft seed"
proof -
  note ac = follows_always(1) and ad = follows_always(2)
  have tt: "follows (Builtin (strategy_new TitForTat)) (\<lambda>_. Cooperate) (\<lambda>_. Cooperate)"
    by (rule follows_tit_for_tat) simp
  show "test_cooperate_vs_cooperate seed"
    unfolding test_cooperate_vs_cooperate_def Let_def
    by (intro conjI run_match_rounds_all [OF ac ac]) (simp_all add: run_match_constant_total [OF ac ac])
  show "test_defect_vs_cooperate seed"
    unfolding test_defect_vs_cooperate_def Let_def
    by (intro conjI run_match_rounds_all [OF ad ac]) (simp_all add: run_match_constant_total [OF ad ac])
  show "test_tft_vs_tft seed"
    unfolding test_tft_vs_tft_def Let_def by (rule run_match_rounds_all [OF tt tt]) simp
qed

lemma tft_vs_always_defect_test: "test_tft_vs_always_defect seed"
  using tft_meets_always_defect [OF follows_tit_for_tat(1)]
  by (simp add: test_tft_vs_always_defect_def Let_def)

lemma cumulative_ok_snoc:
  "cumulative_ok a b (rs @ [r]) \<longleftrightarrow> cumulative_ok a b rs \<and>
     cumulative_a r = a + sum_list (map (\<lambda>r. ucast (score_a r)) (rs @ [r])) \<and>
     cumulative_b r = b + sum_list (map (\<lambda>r. ucast (score_b r)) (rs @ [r]))"
  by (induction rs arbitrary: a b) (auto simp: Let_def add.assoc)

lemma cumulative_ok_results:
  "cumulative_ok 0 0 (results (play_rounds sa sb rng n)) \<and>
   total_a (play_rounds sa sb rng n) = sum_list (map (\<lambda>r. ucast (score_a r)) (results (play_rounds sa sb rng n))) \<and>
   total_b (play_rounds sa sb rng n) = sum_list (map (\<lambda>r. ucast (score_b r)) (results (play_rounds sa sb rng n)))"
  by (induction n) (simp_all add: match_init_def play_rounds_Suc match_round_simps cumulative_ok_snoc)

lemma cumulative_scores_test: "test_cumulative_scores seed"
  by (simp add: test_cumulative_scores_def Let_def run_match_fields cumulative_ok_results)

lemma expected_rounds_tests:
  "test_expected_rounds_standard" "test_expected_rounds_compressed" "test_expected_rounds_degenerate"
  by (simp_all add: test_expected_rounds_standard_def test_expected_rounds_compressed_def
      test_expected_rounds_degenerate_def expected_rounds_def standard_def compressed_def Let_def power_divide)

text \<open>Two matches of the random strategy, from the generator up to the first move.\<close>

lemma random_first_move:
  assumes "0 < length (rounds (run_match (Builtin (strategy_new Random)) sb seed i n))"
  shows "move_a (hd (rounds (run_match (Builtin (strategy_new Random)) sb seed i n))) =
    fst (execute_random (snd (next_u64 (match_rng seed i n))))"
proof -
  obtain m where m: "match_length seed i n = Suc m" using assms by (cases "match_length seed i n") (simp_all add: run_match_fields match_init_def)
  have first: "results (play_rounds sa sb rng (Suc m)) ! 0 = results (play_rounds sa sb rng 1) ! 0" for sa sb rng m
    by (induction m) (simp_all add: play_rounds_Suc [of _ _ _ "Suc _"] match_round_simps nth_append)
  have h: "hd (rounds (run_match (Builtin (strategy_new Random)) sb seed i n)) =
      results (play_rounds (Builtin (strategy_new Random)) sb (match_rng seed i n) 1) ! 0"
    using assms first [of "Builtin (strategy_new Random)" sb "match_rng seed i n" m] m
    by (simp only: length_greater_0_conv hd_conv_nth run_match_fields(1) not_False_eq_True)
  have eta: "\<lparr>rng_state = rng_state r\<rparr> = r" for r by (cases r) simp
  show ?thesis
    unfolding h by (simp add: eta play_rounds_Suc match_round_simps match_init_def execute_player_simps for_round_def)
qed

lemma test_match_1_rng: "match_rng (replicate 32 42) 1 100 = \<lparr>rng_state = 0xa81284dced458ab9\<rparr>"
proof -
  have "rng_state (rng_new (replicate 32 42) 1) = 0x75dbf351d2083307"
    by (simp add: rng_state_new test_seed_mix funpow_8 xorshift_def)
  then have "rng_new (replicate 32 42) 1 = \<lparr>rng_state = 0x75dbf351d2083307\<rparr>" by simp
  then show ?thesis
    by (simp add: match_rng_def determine_round_count_def round_config_def standard_def round_count_loop.simps
        next_percent_def next_u32_def next_u64_def xorshift_def)
qed

lemma test_match_0_rng: "match_rng (replicate 32 42) 0 100 = \<lparr>rng_state = 0\<rparr>"
proof -
  have "rng_new (replicate 32 42) 0 = \<lparr>rng_state = 0\<rparr>"
    unfolding replicate_chunks by (rule rng_new_equal_chunks) simp_all
  then show ?thesis by (simp add: match_rng_def zero_round_count round_config_def standard_def)
qed

lemma different_matches_test: "test_different_matches_differ"
proof -
  let ?s = "Builtin (strategy_new Random)"
  let ?rs = "\<lambda>i. rounds (run_match ?s ?s (replicate 32 42) i 100)"
  have ne: "?rs i \<noteq> []" for i
    using run_match_round_count(1) [of 100 ?s ?s "replicate 32 42" i] run_match_fields(5) [of ?s ?s "replicate 32 42" i 100]
    by (simp add: run_match_fields(1) round_config_def standard_def word_le_nat_alt flip: length_greater_0_conv)
  have first: "move_a (hd (?rs i)) = fst (execute_random (snd (next_u64 (match_rng (replicate 32 42) i 100))))" for i
    by (rule random_first_move) (simp add: ne)
  have a: "move_a (hd (?rs 0)) = Cooperate"
    unfolding first test_match_0_rng by (simp add: execute_random_def rng_zero zero_draws)
  have b: "move_a (hd (?rs 1)) = Defect"
    unfolding first test_match_1_rng
    by (simp add: execute_random_def next_percent_def next_u32_def next_u64_def xorshift_def)
  let ?moves = "\<lambda>i. map (\<lambda>r. (move_a r, move_b r)) (?rs i)"
  have hd: "fst (hd (?moves i)) = move_a (hd (?rs i))" for i
    by (simp only: list.map_sel(1) [OF ne] fst_conv)
  have "fst (hd (?moves 0)) \<noteq> fst (hd (?moves 1))" unfolding hd a b by simp
  then have "?moves 0 \<noteq> ?moves 1" by (rule contrapos_nn) (rule arg_cong)
  then show ?thesis unfolding test_different_matches_differ_def Let_def .
qed

end
