(* ===== verification/Pairing_Tests.thy ===== *)
theory Pairing_Tests
  imports Pairing_Correct Rng_Seeds "HOL-Library.Product_Lexorder"
begin

text \<open>
  The unit tests of \<^verbatim>\<open>pairing.rs\<close>, one definition per test function; the seed of the tests is an
  argument wherever the assertions hold with every seed. A call that panics has the value \<open>None\<close> in
  the model, and a test that makes it fails (\<open>returns\<close>). The counts that a test collects in a hash
  map are read off the list. Not here: \<open>test_pairing_determinism\<close>, which every function of the model
  passes.
\<close>

definition returns :: "'a option \<Rightarrow> ('a \<Rightarrow> bool) \<Rightarrow> bool" where
  "returns r P = (case r of None \<Rightarrow> False | Some x \<Rightarrow> P x)"

lemma returns_simps [simp]: "returns (Some x) P = P x" "\<not> returns None P"
  by (simp_all add: returns_def)

section \<open>Lists of pairings\<close>

definition no_adjacent_duplicates :: "(u32 \<times> u32) list \<Rightarrow> bool" where
  "no_adjacent_duplicates pairings \<longleftrightarrow>
     (let sorted = sort pairings in list_all (\<lambda>i. sorted ! i \<noteq> sorted ! (i - 1)) [1..<length sorted])"

text \<open>The vector of counters that several tests fill.\<close>

definition count_step :: "u32 \<times> u32 \<Rightarrow> u32 list \<Rightarrow> u32 list" where
  "count_step = (\<lambda>(a, b) counts.
     let counts = counts[unat a := counts ! unat a + 1] in counts[unat b := counts ! unat b + 1])"

definition matches_per_player :: "u32 \<Rightarrow> (u32 \<times> u32) list \<Rightarrow> u32 list" where
  "matches_per_player n pairings =
     fold count_step pairings (replicate (unat n) 0)"

definition test_empty_tournament :: "u8 list \<Rightarrow> bool" where
  "test_empty_tournament seed \<longleftrightarrow>
     returns (generate_all_pairings 0 5 seed) (\<lambda>pairings. pairings = []) \<and>
     returns (generate_all_pairings 1 5 seed) (\<lambda>pairings. pairings = [])"

definition test_two_players :: "u8 list \<Rightarrow> bool" where
  "test_two_players seed \<longleftrightarrow>
     returns (generate_all_pairings 2 5 seed) (\<lambda>pairings. length pairings = 5 \<and> list_all (\<lambda>p. p = (0, 1)) pairings)"

definition test_small_tournament_round_robin :: "u8 list \<Rightarrow> bool" where
  "test_small_tournament_round_robin seed \<longleftrightarrow>
     returns (generate_all_pairings 4 5 seed) (\<lambda>pairings. length pairings = 12 \<and>
       length (remdups pairings) = 6 \<and> list_all (\<lambda>p. count_list pairings p = 2) (remdups pairings))"

definition test_different_seeds_different_pairings :: bool where
  "test_different_seeds_different_pairings \<longleftrightarrow>
     generate_all_pairings 20 6 (replicate 32 1) \<noteq> generate_all_pairings 20 6 (replicate 32 2)"

definition test_no_self_pairings :: "u8 list \<Rightarrow> bool" where
  "test_no_self_pairings seed \<longleftrightarrow>
     returns (generate_all_pairings 50 10 seed) (\<lambda>pairings. list_all (\<lambda>(a, b). a \<noteq> b) pairings)"

definition test_no_duplicate_pairings :: "u8 list \<Rightarrow> bool" where
  "test_no_duplicate_pairings seed \<longleftrightarrow>
     returns (generate_all_pairings 50 10 seed) (\<lambda>pairings. no_adjacent_duplicates pairings)"

definition test_index_ordering :: "u8 list \<Rightarrow> bool" where
  "test_index_ordering seed \<longleftrightarrow>
     returns (generate_all_pairings 50 10 seed) (\<lambda>pairings. list_all (\<lambda>(a, b). a < b) pairings)"

definition test_get_pairing_for_match :: "u8 list \<Rightarrow> bool" where
  "test_get_pairing_for_match seed \<longleftrightarrow>
     returns (generate_all_pairings 10 4 seed) (\<lambda>pairings. 
       list_all (\<lambda>(i, expected). get_pairing_for_match 10 4 seed (of_nat i) = Some (Some expected)) (enumerate 0 pairings)) \<and>
     get_pairing_for_match 10 4 seed 1000 = Some None"

definition test_match_count_round_robin :: "u8 list \<Rightarrow> bool" where
  "test_match_count_round_robin seed \<longleftrightarrow>
     calculate_match_count 4 10 seed = 24"

definition test_large_tournament_match_count :: "u8 list \<Rightarrow> bool" where
  "test_large_tournament_match_count seed \<longleftrightarrow>
     returns (generate_all_pairings 100 14 seed) (\<lambda>pairings. 
       length pairings = 100 * 14 div 2 \<and> list_all (\<lambda>(a, b). a < 100 \<and> b < 100) pairings)"

definition test_each_player_has_k_matches :: "u8 list \<Rightarrow> bool" where
  "test_each_player_has_k_matches seed \<longleftrightarrow>
     returns (generate_all_pairings 20 8 seed) (\<lambda>pairings. list_all (\<lambda>count. count = 8) (matches_per_player 20 pairings))"

definition test_total_matches_formula :: "u8 list \<Rightarrow> bool" where
  "test_total_matches_formula seed \<longleftrightarrow>
     list_all (\<lambda>(n, k). returns (generate_all_pairings n k seed) (\<lambda>pairings. length pairings = unat n * unat k div 2))
       [(10, 4), (20, 10), (50, 14), (100, 14)]"

definition test_odd_k_handled :: "u8 list \<Rightarrow> bool" where
  "test_odd_k_handled seed \<longleftrightarrow>
     returns (generate_all_pairings 20 15 seed) (\<lambda>pairings. list_all (\<lambda>count. 15 \<le> count) (matches_per_player 20 pairings))"

definition test_two_players_k15 :: "u8 list \<Rightarrow> bool" where
  "test_two_players_k15 seed \<longleftrightarrow>
     returns (generate_all_pairings 2 15 seed) (\<lambda>pairings. length pairings = 15 \<and> list_all (\<lambda>p. p = (0, 1)) pairings)"

definition test_small_n_each_player_has_geq_k_matches :: "u8 list \<Rightarrow> bool" where
  "test_small_n_each_player_has_geq_k_matches seed \<longleftrightarrow>
     list_all (\<lambda>n. returns (generate_all_pairings n 15 seed) (\<lambda>pairings. list_all (\<lambda>count. 15 \<le> count) (matches_per_player n pairings)))
       [2, 3, 4, 5, 6]"

definition test_repeated_pairings_have_distinct_indices :: "u8 list \<Rightarrow> bool" where
  "test_repeated_pairings_have_distinct_indices seed \<longleftrightarrow>
     returns (generate_all_pairings 2 15 seed) (\<lambda>pairings. length pairings = 15) \<and>
     list_all (\<lambda>i. get_pairing_for_match 2 15 seed (of_nat i) = Some (Some (0, 1))) [0..<15] \<and>
     get_pairing_for_match 2 15 seed 15 = Some None"

definition test_effective_k_tier_a :: bool where
  "test_effective_k_tier_a \<longleftrightarrow>
     effective_k 0 99 = 0 \<and>
     effective_k 1 99 = 0 \<and>
     effective_k 2 99 = 1 \<and>
     effective_k 10 99 = 9 \<and>
     effective_k 200 99 = 199"

definition test_effective_k_tier_b_c :: bool where
  "test_effective_k_tier_b_c \<longleftrightarrow>
     effective_k 201 99 = 99 \<and>
     effective_k 500 99 = 99 \<and>
     effective_k 1000 99 = 99 \<and>
     effective_k 5000 99 = 99 \<and>
     effective_k 500 10 = 49 \<and>
     effective_k 500 150 = 99 \<and>
     effective_k 500 50 = 50"

definition test_full_round_robin_all_pairs :: "u8 list \<Rightarrow> bool" where
  "test_full_round_robin_all_pairs seed \<longleftrightarrow>
     returns (generate_all_pairings 50 49 seed) (\<lambda>pairings. length (remdups pairings) = 50 * 49 div 2)"

definition test_calculate_match_count_consistency :: "u8 list \<Rightarrow> bool" where
  "test_calculate_match_count_consistency seed \<longleftrightarrow>
     list_all (\<lambda>(n, k). returns (generate_all_pairings n k seed) (\<lambda>pairings. calculate_match_count n k seed = of_nat (length pairings)))
       [(2, 5), (4, 5), (10, 4), (20, 10), (50, 14), (100, 14)]"

definition test_circular_no_duplicates_large :: "u8 list \<Rightarrow> bool" where
  "test_circular_no_duplicates_large seed \<longleftrightarrow>
     list_all (\<lambda>n. returns (generate_all_pairings n 99 seed) (\<lambda>pairings. no_adjacent_duplicates pairings)) [201, 300, 500]"

definition test_effective_k_integration :: "u8 list \<Rightarrow> bool" where
  "test_effective_k_integration seed \<longleftrightarrow>
     list_all (\<lambda>n. let k = effective_k n 99 in
       returns (generate_all_pairings n k seed) (\<lambda>pairings. 
         of_nat (length pairings) = calculate_match_count n k seed \<and>
         list_all (\<lambda>(i, expected). get_pairing_for_match n k seed (of_nat i) = Some (Some expected)) (enumerate 0 pairings)))
       [201, 300, 500, 1000]"

section \<open>The permutation and the helpers\<close>

text \<open>The inner loop of \<open>test_feistel_is_bijection\<close> with its vector of values seen.\<close>

fun bijection_loop :: "u32 \<Rightarrow> u64 list \<Rightarrow> nat list \<Rightarrow> bool list \<Rightarrow> bool" where
  "bijection_loop domain keys [] seen \<longleftrightarrow> True"
| "bijection_loop domain keys (i # is) seen \<longleftrightarrow>
     (case feistel_permute (of_nat i) domain keys of
        Some (Some out) \<Rightarrow>
          out < domain \<and> \<not> seen ! unat out \<and> bijection_loop domain keys is (seen[unat out := True])
      | _ \<Rightarrow> False)"

definition test_feistel_is_bijection :: "u8 list \<Rightarrow> bool" where
  "test_feistel_is_bijection seed \<longleftrightarrow>
     (let keys = derive_feistel_keys seed in
      list_all (\<lambda>domain. bijection_loop (of_nat domain) keys [0..<domain] (replicate domain False))
        [1, 2, 3, 5, 10, 50, 100, 250, 1000])"

definition test_feistel_different_seeds :: bool where
  "test_feistel_different_seeds \<longleftrightarrow>
     (let keys1 = derive_feistel_keys (replicate 32 1);
          keys2 = derive_feistel_keys (replicate 32 2);
          perm = (\<lambda>keys. map (\<lambda>i. feistel_permute (of_nat i) 100 keys) [0..<100])
      in perm keys1 \<noteq> perm keys2)"

definition test_floyd_sample_properties :: "u8 list \<Rightarrow> bool" where
  "test_floyd_sample_properties seed \<longleftrightarrow>
     list_all (\<lambda>(n, k). returns (select_offsets n k seed) (\<lambda>(offsets, count).
         let available = (if n mod 2 = 0 then n div 2 - 1 else n div 2);
             expected = unat (min (div_ceil k 2) available)
         in count = expected \<and>
            list_all (\<lambda>i. 1 \<le> offsets ! i \<and> offsets ! i \<le> available) [0..<count] \<and>
            list_all (\<lambda>i. offsets ! (i - 1) < offsets ! i) [1..<count]))
       [(20, 8), (100, 50), (201, 99)]"

text \<open>The inner loop of \<open>test_unrank_pair_covers_all\<close> with the pairs seen.\<close>

fun unrank_loop :: "u32 \<Rightarrow> nat list \<Rightarrow> (u32 \<times> u32) list \<Rightarrow> (u32 \<times> u32) list option" where
  "unrank_loop n [] seen = Some seen"
| "unrank_loop n (r # rs) seen =
     (case unrank_pair (of_nat r) of
        Some (a, b) \<Rightarrow> if a < b \<and> b < n \<and> (a, b) \<notin> set seen then unrank_loop n rs ((a, b) # seen) else None
      | None \<Rightarrow> None)"

definition test_unrank_pair_covers_all :: bool where
  "test_unrank_pair_covers_all \<longleftrightarrow>
     list_all (\<lambda>n. let c_n_2 = n * (n - 1) div 2 in
         returns (unrank_loop n [0..<unat c_n_2] []) (\<lambda>seen. length seen = unat c_n_2))
       [2, 5, 10, 20]"

definition test_isqrt_ceil :: bool where
  "test_isqrt_ceil \<longleftrightarrow>
     isqrt_ceil 0 = Some 0 \<and>
     isqrt_ceil 1 = Some 1 \<and>
     isqrt_ceil 2 = Some 2 \<and>
     isqrt_ceil 3 = Some 2 \<and>
     isqrt_ceil 4 = Some 2 \<and>
     isqrt_ceil 5 = Some 3 \<and>
     isqrt_ceil 9 = Some 3 \<and>
     isqrt_ceil 10 = Some 4 \<and>
     isqrt_ceil 100 = Some 10 \<and>
     isqrt_ceil 101 = Some 11 \<and>
     isqrt_ceil 10000 = Some 100 \<and>
     isqrt_ceil 250000 = Some 500"

section \<open>The tests on lists of pairings pass\<close>

lemma calculate_match_count_unat:
  assumes "schedulable n k"
  shows "unat (calculate_match_count n k seed) =
    (if unat n \<le> unat k + 1 then cycles n k * triangle (unat n) else (unat k + 1) div 2 * unat n)"
  using match_count_repeated(1) [OF assms] match_count_cyclic(1) [OF assms] by (simp add: calculate_match_count_def)

text \<open>What the tests need to know of a schedule.\<close>

lemma schedule_returns:
  assumes "schedulable n k"
    and "\<And>ps. generate_all_pairings n k seed = Some ps \<Longrightarrow>
      length ps = (if unat n \<le> unat k + 1 then cycles n k * triangle (unat n) else (unat k + 1) div 2 * unat n) \<Longrightarrow>
      (\<And>a b. (a, b) \<in> set ps \<Longrightarrow> a < b \<and> b < n) \<Longrightarrow> P ps"
  shows "returns (generate_all_pairings n k seed) P"
proof -
  obtain ps where ps: "generate_all_pairings n k seed = Some ps" using generate_all_pairings_total [OF assms(1)] by blast
  have "a < b \<and> b < n" if "(a, b) \<in> set ps" for a b
    using pairing_nth(3) [OF assms(1) ps] that by (metis fst_conv in_set_conv_nth snd_conv)
  then show ?thesis
    using assms(2) [OF ps] pairing_nth(1) [OF assms(1) ps] calculate_match_count_unat [OF assms(1)] ps by simp
qed

lemmas schedulable_simps = schedulable_def cycles_def triangle_def match_degree_def

lemma fold_counts:
  assumes "\<And>a b. (a, b) \<in> set ps \<Longrightarrow> a < b \<and> unat b < length cs"
  shows "length (fold count_step ps cs) = length cs \<and>
    (\<forall>i<length cs. fold count_step ps cs ! i =
      cs ! i + of_nat (length (filter (\<lambda>ab. i = unat (fst ab) \<or> i = unat (snd ab)) ps)))"
  using assms
proof (induction ps arbitrary: cs)
  case (Cons ab ps)
  obtain a b where ab: "ab = (a, b)" by fastforce
  have lt: "a < b" "unat b < length cs" "unat a < length cs" "unat a \<noteq> unat b"
    using Cons.prems [of a b] by (auto simp: ab word_less_nat_alt)
  have len: "length (count_step ab cs) = length cs" by (simp add: count_step_def ab Let_def)
  have nth: "count_step ab cs ! i = cs ! i + (if i = unat a \<or> i = unat b then 1 else 0)" if "i < length cs" for i
    using lt that by (auto simp: count_step_def ab Let_def nth_list_update)
  have "length (fold count_step ps (count_step ab cs)) = length (count_step ab cs) \<and>
    (\<forall>i<length (count_step ab cs). fold count_step ps (count_step ab cs) ! i = count_step ab cs ! i +
       of_nat (length (filter (\<lambda>ab. i = unat (fst ab) \<or> i = unat (snd ab)) ps)))"
    by (rule Cons.IH) (use Cons.prems len in auto)
  then show ?case using len nth by (simp add: ab)
qed simp

lemma matches_per_player_counts:
  assumes "schedulable n k" "generate_all_pairings n k seed = Some ps"
    and "\<And>a b. (a, b) \<in> set ps \<Longrightarrow> a < b \<and> b < n"
  shows "matches_per_player n ps = replicate (unat n) (of_nat (match_degree n k))"
proof (rule nth_equalityI)
  have r: "\<And>a b. (a, b) \<in> set ps \<Longrightarrow> a < b \<and> unat b < length (replicate (unat n) (0 :: u32))"
    using assms(3) by (simp add: word_less_nat_alt)
  note f = fold_counts [OF r]
  show len: "length (matches_per_player n ps) = length (replicate (unat n) (of_nat (match_degree n k) :: u32))"
    using f by (simp add: matches_per_player_def)
  fix i assume "i < length (matches_per_player n ps)"
  then have i: "i < unat n" using len by simp
  define p :: u32 where "p = of_nat i"
  have p: "unat p = i" "p < n" using word_of_unat_lt [OF i] by (simp_all add: p_def)
  have "filter (\<lambda>ab. i = unat (fst ab) \<or> i = unat (snd ab)) ps = filter (\<lambda>ab. p = fst ab \<or> p = snd ab) ps"
    by (simp add: word_unat_eq_iff flip: p(1))
  then show "matches_per_player n ps ! i = replicate (unat n) (of_nat (match_degree n k)) ! i"
    using f i matches_of_player [OF assms(1,2) p(2)] by (simp add: matches_per_player_def)
qed

lemma no_adjacent_duplicates: "distinct ps \<Longrightarrow> no_adjacent_duplicates ps"
  by (auto simp: no_adjacent_duplicates_def list_all_iff Let_def nth_eq_iff_index_eq)

lemma pairing_lookup:
  assumes "schedulable n k" "generate_all_pairings n k seed = Some ps"
  shows "list_all (\<lambda>(i, expected). get_pairing_for_match n k seed (of_nat i) = Some (Some expected)) (enumerate 0 ps)"
  using pairing_nth(2) [OF assms] by (auto simp: list_all_iff in_set_enumerate_eq)

lemma pairing_beyond:
  "calculate_match_count n k seed \<le> i \<Longrightarrow> get_pairing_for_match n k seed i = Some None"
  by (simp add: get_pairing_for_match_def calculate_match_count_def)

lemma two_players_pairs: "(\<And>a b. (a, b) \<in> set ps \<Longrightarrow> a < b \<and> b < (2 :: u32)) \<Longrightarrow> list_all (\<lambda>p. p = (0, 1)) ps"
proof -
  have "a = 0 \<and> b = 1" if "a < b" "b < 2" for a b :: u32
    using that by (simp add: word_less_nat_alt word_unat_eq_iff)
  then show "(\<And>a b. (a, b) \<in> set ps \<Longrightarrow> a < b \<and> b < (2 :: u32)) \<Longrightarrow> ?thesis" by (auto simp: list_all_iff)
qed

lemma distinct_small_lists: "unat n \<le> unat k + 1 \<Longrightarrow> schedulable n k \<Longrightarrow> generate_all_pairings n k seed = Some ps \<Longrightarrow>
    (\<And>a b. (a, b) \<in> set ps \<Longrightarrow> a < b \<and> b < n) \<Longrightarrow> p \<in> set ps \<Longrightarrow> count_list ps p = cycles n k"
  by (cases p) (use matches_of_pair in blast)

lemma small_schedule_tests:
  "test_empty_tournament seed" "test_two_players seed" "test_two_players_k15 seed"
proof -
  show "test_empty_tournament seed"
    by (simp add: test_empty_tournament_def generate_all_pairings_def Let_def)
  show "test_two_players seed" unfolding test_two_players_def
    by (rule schedule_returns) (simp_all add: schedulable_simps two_players_pairs)
  show "test_two_players_k15 seed" unfolding test_two_players_k15_def
    by (rule schedule_returns) (simp_all add: schedulable_simps two_players_pairs)
qed

lemma range_tests: "test_no_self_pairings seed" "test_index_ordering seed"
  unfolding test_no_self_pairings_def test_index_ordering_def
  by (rule schedule_returns; fastforce simp: schedulable_simps list_all_iff)+

lemma no_duplicate_test: "test_no_duplicate_pairings seed"
  unfolding test_no_duplicate_pairings_def
proof (rule schedule_returns)
  show s: "schedulable 50 10" by (simp add: schedulable_simps)
  fix ps assume "generate_all_pairings 50 10 seed = Some ps"
  then show "no_adjacent_duplicates ps" using distinct_circular [OF s] by (simp add: no_adjacent_duplicates)
qed

lemma circular_no_duplicates_test: "test_circular_no_duplicates_large seed"
proof -
  have "returns (generate_all_pairings n 99 seed) no_adjacent_duplicates"
    if s: "schedulable n 99" "\<not> unat n \<le> unat (99 :: u16) + 1" for n
  proof (rule schedule_returns [OF s(1)])
    fix ps assume "generate_all_pairings n 99 seed = Some ps"
    from distinct_circular [OF s this] show "no_adjacent_duplicates ps" by (rule no_adjacent_duplicates)
  qed
  then show ?thesis by (simp add: test_circular_no_duplicates_large_def schedulable_simps)
qed

lemma lookup_test: "test_get_pairing_for_match seed"
proof -
  have s: "schedulable 10 4" by (simp add: schedulable_simps)
  have "unat (calculate_match_count 10 4 seed) = 20" by (simp add: calculate_match_count_unat [OF s])
  then have "calculate_match_count 10 4 seed \<le> 1000" by (simp add: word_le_nat_alt)
  then show ?thesis
    unfolding test_get_pairing_for_match_def
    by (intro conjI schedule_returns [OF s] pairing_lookup [OF s] pairing_beyond)
qed

lemma repeated_indices_test: "test_repeated_pairings_have_distinct_indices seed"
proof -
  have s: "schedulable 2 15" by (simp add: schedulable_simps)
  have T: "unat (calculate_match_count 2 15 seed) = 15"
    by (simp add: calculate_match_count_unat [OF s]) (simp add: schedulable_simps)
  obtain ps where ps: "generate_all_pairings 2 15 seed = Some ps" using generate_all_pairings_total [OF s] by blast
  have r: "a < b \<and> b < 2" if "(a, b) \<in> set ps" for a b
    using pairing_nth(3) [OF s ps] that by (metis fst_conv in_set_conv_nth snd_conv)
  have "get_pairing_for_match 2 15 seed (of_nat i) = Some (Some (0, 1))" if "i < 15" for i
    using pairing_nth(1,2) [OF s ps] two_players_pairs [of ps] r that T by (simp add: list_all_length)
  moreover have "get_pairing_for_match 2 15 seed 15 = Some None"
    using T by (intro pairing_beyond) (simp add: word_le_nat_alt)
  ultimately show ?thesis
    using pairing_nth(1) [OF s ps] T ps by (simp add: test_repeated_pairings_have_distinct_indices_def list_all_iff)
qed

lemma degree_returns:
  assumes "schedulable n k" "P (of_nat (match_degree n k))"
  shows "returns (generate_all_pairings n k seed) (\<lambda>ps. list_all P (matches_per_player n ps))"
proof (rule schedule_returns [OF assms(1)])
  fix ps assume "generate_all_pairings n k seed = Some ps" "\<And>a b. (a, b) \<in> set ps \<Longrightarrow> a < b \<and> b < n"
  then show "list_all P (matches_per_player n ps)"
    using matches_per_player_counts [OF assms(1)] assms(2) by (simp add: list_all_iff)
qed

lemma degree_tests:
  "test_each_player_has_k_matches seed" "test_odd_k_handled seed" "test_small_n_each_player_has_geq_k_matches seed"
proof -
  show "test_each_player_has_k_matches seed" "test_odd_k_handled seed"
    unfolding test_each_player_has_k_matches_def test_odd_k_handled_def
    by (rule degree_returns; simp add: schedulable_simps word_le_nat_alt)+
  have "returns (generate_all_pairings n 15 seed) (\<lambda>ps. list_all (\<lambda>count. 15 \<le> count) (matches_per_player n ps))"
    if "n \<in> {2, 3, 4, 5, 6}" for n
    by (rule degree_returns) (use that in \<open>auto simp: schedulable_simps word_le_nat_alt\<close>)
  then show "test_small_n_each_player_has_geq_k_matches seed"
    by (simp add: test_small_n_each_player_has_geq_k_matches_def)
qed

text \<open>The numbers of matches.\<close>

lemma length_returns:
  assumes "schedulable n k"
    and "P (if unat n \<le> unat k + 1 then cycles n k * triangle (unat n) else (unat k + 1) div 2 * unat n)"
  shows "returns (generate_all_pairings n k seed) (\<lambda>ps. P (length ps))"
  by (rule schedule_returns [OF assms(1)]) (use assms(2) in simp)

lemma count_tests:
  "test_match_count_round_robin seed" "test_total_matches_formula seed" "test_large_tournament_match_count seed"
proof -
  have s: "schedulable 4 10" by (simp add: schedulable_simps)
  show "test_match_count_round_robin seed"
    unfolding test_match_count_round_robin_def
    by (simp add: word_unat_eq_iff calculate_match_count_unat [OF s]) (simp add: schedulable_simps)
  have l: "returns (generate_all_pairings n k seed) (\<lambda>ps. length ps = unat n * unat k div 2)"
    if "(n, k) \<in> {(10, 4), (20, 10), (50, 14), (100, 14)}" for n k
    by (rule length_returns) (use that in \<open>auto simp: schedulable_simps\<close>)
  show "test_total_matches_formula seed"
    unfolding test_total_matches_formula_def list_all_iff by (clarify, rule l) auto
  show "test_large_tournament_match_count seed" unfolding test_large_tournament_match_count_def
    by (rule schedule_returns) (force simp: schedulable_simps list_all_iff intro: order.strict_trans)+
qed

lemma count_consistency_test: "test_calculate_match_count_consistency seed"
proof -
  have l: "returns (generate_all_pairings n k seed) (\<lambda>ps. calculate_match_count n k seed = of_nat (length ps))"
    if "schedulable n k" for n k
  proof (rule schedule_returns [OF that])
    fix ps assume "generate_all_pairings n k seed = Some ps"
    from pairing_nth(1) [OF that this] show "calculate_match_count n k seed = of_nat (length ps)" by simp
  qed
  then show ?thesis by (simp add: test_calculate_match_count_consistency_def schedulable_simps)
qed

lemma effective_k_tests: "test_effective_k_tier_a" "test_effective_k_tier_b_c"
  by (simp_all add: test_effective_k_tier_a_def test_effective_k_tier_b_c_def effective_k_def clamp_def
      word_le_nat_alt word_less_nat_alt)

lemma effective_k_integration_test: "test_effective_k_integration seed"
proof -
  have "returns (generate_all_pairings n k seed) (\<lambda>ps. of_nat (length ps) = calculate_match_count n k seed \<and>
      list_all (\<lambda>(i, expected). get_pairing_for_match n k seed (of_nat i) = Some (Some expected)) (enumerate 0 ps))"
    if "schedulable n k" for n k
  proof (rule schedule_returns [OF that])
    fix ps assume ps: "generate_all_pairings n k seed = Some ps"
    show "of_nat (length ps) = calculate_match_count n k seed \<and>
      list_all (\<lambda>(i, expected). get_pairing_for_match n k seed (of_nat i) = Some (Some expected)) (enumerate 0 ps)"
      using pairing_nth(1) [OF that ps] pairing_lookup [OF that ps] by simp
  qed
  note l = this [OF schedulable_effective]
  show ?thesis
    unfolding test_effective_k_integration_def list_all_iff Let_def
    by (intro ballI l [unfolded list_all_iff]) auto
qed

lemma distinct_count_list: "(\<And>x. x \<in> set xs \<Longrightarrow> count_list xs x = 1) \<Longrightarrow> distinct xs"
proof (induction xs)
  case (Cons x xs)
  have x: "x \<notin> set xs" using Cons.prems [of x] by (simp add: count_list_0_iff)
  have "count_list xs y = 1" if "y \<in> set xs" for y
    using Cons.prems [of y] that x by (auto split: if_splits)
  with Cons.IH x show ?case by simp
qed simp

text \<open>With 50 players and 49 matches each, the list has every pair once.\<close>

lemma full_round_robin_test: "test_full_round_robin_all_pairs seed"
  unfolding test_full_round_robin_all_pairs_def
proof (rule schedule_returns)
  show s: "schedulable 50 49" by (simp add: schedulable_simps)
  fix ps assume ps: "generate_all_pairings 50 49 seed = Some ps" and
    len: "length ps = (if unat (50 :: u32) \<le> unat (49 :: u16) + 1 then cycles 50 49 * triangle (unat (50 :: u32))
      else (unat (49 :: u16) + 1) div 2 * unat (50 :: u32))"
    and range: "\<And>a b. (a, b) \<in> set ps \<Longrightarrow> a < b \<and> b < 50"
  have "count_list ps ab = 1" if "ab \<in> set ps" for ab
    using matches_of_pair [OF s _ ps, of "fst ab" "snd ab"] range [of "fst ab" "snd ab"] that
    by (simp add: schedulable_simps)
  then have "distinct ps" by (rule distinct_count_list)
  then show "length (remdups ps) = 50 * 49 div 2" using len by (simp add: distinct_remdups_id schedulable_simps)
qed

lemma word_less_4: "b < 4 \<Longrightarrow> b \<in> {0, 1, 2, 3}" for b :: u32
proof -
  assume "b < 4"
  then have "unat b < 4" by (simp add: word_less_nat_alt)
  then have "unat b = 0 \<or> unat b = 1 \<or> unat b = 2 \<or> unat b = 3" by linarith
  then show ?thesis by (auto simp: word_unat_eq_iff)
qed

lemma round_robin_cycles_test: "test_small_tournament_round_robin seed"
  unfolding test_small_tournament_round_robin_def
proof (rule schedule_returns)
  show s: "schedulable 4 5" by (simp add: schedulable_simps)
  fix ps assume ps: "generate_all_pairings 4 5 seed = Some ps" and
    len: "length ps = (if unat (4 :: u32) \<le> unat (5 :: u16) + 1 then cycles 4 5 * triangle (unat (4 :: u32))
      else (unat (5 :: u16) + 1) div 2 * unat (4 :: u32))"
    and range: "\<And>a b. (a, b) \<in> set ps \<Longrightarrow> a < b \<and> b < 4"
  have two: "count_list ps (a, b) = 2" if "a < b" "b < 4" for a b
    using matches_of_pair [OF s _ ps that] by (simp add: schedulable_simps)
  let ?pairs = "{(0, 1), (0, 2), (0, 3), (1, 2), (1, 3), (2, 3)} :: (u32 \<times> u32) set"
  have "ab \<in> set ps" if "ab \<in> ?pairs" for ab
  proof -
    have "fst ab < snd ab" "snd ab < 4" using that by auto
    then have "count_list ps ab = 2" using two [of "fst ab" "snd ab"] by simp
    then show ?thesis by (metis count_notin zero_neq_numeral)
  qed
  moreover have "ab \<in> ?pairs" if "ab \<in> set ps" for ab
  proof -
    obtain a b where ab: "ab = (a, b)" by fastforce
    then have "a < b" "b < 4" using range [of a b] that by simp_all
    then have "a \<in> {0, 1, 2, 3}" "b \<in> {0, 1, 2, 3}" "a < b" using word_less_4 [of a] word_less_4 [of b] by simp_all
    then show ?thesis by (auto simp: ab)
  qed
  ultimately have set: "set ps = ?pairs" by blast
  have "length (remdups ps) = card ?pairs" by (simp only: length_remdups_card_conv set)
  moreover have "list_all (\<lambda>p. count_list ps p = 2) (remdups ps)"
    using two range by (auto simp: list_all_iff)
  ultimately show "length ps = 12 \<and> length (remdups ps) = 6 \<and> list_all (\<lambda>p. count_list ps p = 2) (remdups ps)"
    using len by (simp add: schedulable_simps)
qed

section \<open>The tests of the permutation and the helpers pass\<close>

lemma bijection_loop:
  assumes \<pi>: "inj_on \<pi> {..<n}" "\<And>i. i < n \<Longrightarrow> \<pi> i < n"
    "\<And>i. i < n \<Longrightarrow> feistel_permute (of_nat i) domain keys = Some (Some (of_nat (\<pi> i)))"
    and n: "unat domain = n" and len: "length seen = n"
    and seen: "\<And>j. j < n \<Longrightarrow> seen ! j \<longleftrightarrow> j \<in> \<pi> ` {..<m}" and m: "m \<le> n"
  shows "bijection_loop domain keys [m..<n] seen"
  using len seen m
proof (induction "n - m" arbitrary: m seen)
  case (Suc d)
  then have m: "m < n" by simp
  have u: "unat (of_nat (\<pi> m) :: u32) = \<pi> m" "(of_nat (\<pi> m) :: u32) < domain"
    using word_of_unat_lt [of "\<pi> m" domain] \<pi>(2) [OF m] n by simp_all
  have fresh: "\<not> seen ! \<pi> m"
  proof
    assume "seen ! \<pi> m"
    then obtain j where "j < m" "\<pi> m = \<pi> j" using Suc.prems(2) [OF \<pi>(2) [OF m]] by auto
    then show False using inj_onD [OF \<pi>(1), of m j] m by simp
  qed
  have next': "bijection_loop domain keys [Suc m..<n] (seen[\<pi> m := True])"
  proof (rule Suc.hyps(1))
    show "(seen[\<pi> m := True]) ! j \<longleftrightarrow> j \<in> \<pi> ` {..<Suc m}" if "j < n" for j
      using Suc.prems(1,2) that \<pi>(2) [OF m] by (auto simp: nth_list_update lessThan_Suc)
  qed (use Suc m in simp_all)
  show ?case using \<pi>(3) [OF m] u fresh next' m by (simp add: upt_conv_Cons)
qed simp

lemma feistel_bijection_test: "test_feistel_is_bijection seed"
proof -
  have "bijection_loop (of_nat n) keys [0..<n] (replicate n False)" if "0 < n" "n \<le> 1000" for n keys
  proof -
    have u: "unat (of_nat n :: u32) = n" using that by (intro unat_of_nat_u32) simp
    then have "0 < unat (of_nat n :: u32)" "unat (of_nat n :: u32) \<le> 250000" using that by simp_all
    then obtain \<pi> where "bij_betw \<pi> {..<unat (of_nat n :: u32)} {..<unat (of_nat n :: u32)}"
      "\<And>i. i < unat (of_nat n :: u32) \<Longrightarrow> feistel_permute (of_nat i) (of_nat n) keys = Some (Some (of_nat (\<pi> i)))"
      by (rule feistel_permute_nat [where keys = keys]) blast
    then show ?thesis
      unfolding u by (intro bijection_loop [of \<pi>]) (use u bij_betwE in \<open>auto simp: bij_betw_def\<close>)
  qed
  note l = this
  show ?thesis unfolding test_feistel_is_bijection_def Let_def list_all_iff by (intro ballI l) auto
qed

lemma floyd_returns:
  assumes "0 < unat n" "offset_count n k \<le> 50"
  shows "returns (select_offsets n k seed) (\<lambda>(offsets, count).
      count = unat (min (div_ceil k 2) (available_offsets n)) \<and>
      list_all (\<lambda>i. 1 \<le> offsets ! i \<and> offsets ! i \<le> available_offsets n) [0..<count] \<and>
      list_all (\<lambda>i. offsets ! (i - 1) < offsets ! i) [1..<count])"
proof -
  obtain ds rest where ds: "select_offsets n k seed = Some (ds @ rest, offset_count n k)"
    "length ds = offset_count n k" "sorted ds" "distinct ds" "\<forall>d\<in>set ds. 0 < unat d \<and> 2 * unat d < unat n"
    by (rule select_offsets_sample [OF assms, of seed])
  have "1 \<le> ds ! i \<and> ds ! i \<le> available_offsets n" if "i < length ds" for i
    using ds(5) nth_mem [OF that] by (force simp: word_le_nat_alt unat_available [OF assms(1)])
  moreover have "ds ! (i - 1) < ds ! i" if "0 < i" "i < length ds" for i
  proof -
    have "ds ! (i - 1) \<le> ds ! i" using ds(3) that by (intro sorted_nth_mono) simp_all
    moreover have "ds ! (i - 1) \<noteq> ds ! i" using ds(4) that by (simp add: nth_eq_iff_index_eq)
    ultimately show ?thesis by simp
  qed
  ultimately show ?thesis
    using ds(1,2) by (auto simp: unat_offsets_to_use [OF assms(1)] list_all_iff nth_append)
qed

lemma floyd_test: "test_floyd_sample_properties seed"
  using floyd_returns [of 20 8 seed] floyd_returns [of 100 50 seed] floyd_returns [of 201 99 seed]
  by (simp add: test_floyd_sample_properties_def available_offsets_def offset_count_def Let_def)

lemma unrank_loop:
  assumes "m \<le> triangle (unat n)" "unat n \<le> 65536" "map (map_prod unat unat) seen = rev (map unrank_table [0..<m])"
  shows "\<exists>seen'. unrank_loop n [m..<triangle (unat n)] seen = Some seen' \<and> length seen' = triangle (unat n)"
  using assms(1,3)
proof (induction "triangle (unat n) - m" arbitrary: m seen)
  case 0
  then have "length seen = m" by (metis length_map length_rev diff_zero length_upt)
  with 0 show ?case by simp
next
  case (Suc d)
  then have m: "m < triangle (unat n)" by simp
  note t = unrank_table_rank [OF m assms(2)]
  have m': "m < triangle 65536" using m triangle_mono [OF assms(2)] by simp
  then have um: "unat (of_nat m :: u32) = m" by (intro unat_of_nat_u32) (simp add: triangle_def)
  obtain a b where ab: "unrank_pair (of_nat m) = Some (a, b)"
    using unrank_pair_correct [of "of_nat m"] um m' by metis
  then have tab: "unrank_table m = (unat a, unat b)" by (simp add: unrank_table_def)
  have "(a, b) \<notin> set seen"
  proof
    assume "(a, b) \<in> set seen"
    then have "(unat a, unat b) \<in> set (map (map_prod unat unat) seen)" by force
    then obtain j where j: "j < m" "unrank_table j = unrank_table m" unfolding Suc.prems(2) by (auto simp: tab)
    then show False using unrank_table_rank(2) [of j "unat n"] t(2) m assms(2) by simp
  qed
  moreover have "a < b" "b < n" using t(1) by (simp_all add: tab pairs_below_def word_less_nat_alt)
  moreover have "\<exists>seen'. unrank_loop n [Suc m..<triangle (unat n)] ((a, b) # seen) = Some seen' \<and>
      length seen' = triangle (unat n)"
    using Suc.hyps Suc.prems m by (intro Suc.hyps(1)) (simp_all add: tab)
  ultimately show ?case using m ab by (simp add: upt_conv_Cons)
qed

lemma unrank_test: "test_unrank_pair_covers_all"
proof -
  have "returns (unrank_loop n [0..<unat (n * (n - 1) div 2)] []) (\<lambda>seen. length seen = unat (n * (n - 1) div 2))"
    if "unat n \<le> 65536" for n
    using unrank_loop [of 0 n "[]"] that by (auto simp: unat_triangle_word)
  note l = this
  show ?thesis unfolding test_unrank_pair_covers_all_def Let_def list_all_iff by (intro ballI l) auto
qed

lemma isqrt_test: "test_isqrt_ceil"
  by (simp add: test_isqrt_ceil_def isqrt_ceil_def newton_loop.simps word_le_nat_alt)

text \<open>The tests that compare the seeds \<open>[1; 32]\<close> and \<open>[2; 32]\<close>: the values at index 0 differ.\<close>

lemma draw_keys_6:
  "draw_keys 6 rng =
    (let (k1, r1) = next_u64 rng; (k2, r2) = next_u64 r1; (k3, r3) = next_u64 r2;
         (k4, r4) = next_u64 r3; (k5, r5) = next_u64 r4; (k6, r6) = next_u64 r5
     in [k1, k2, k3, k4, k5, k6])"
  by (simp add: eval_nat_numeral split_beta)

lemma test_keys:
  "derive_feistel_keys (replicate 32 1) =
    [0xe33be8b919f1ba6b, 0x7d8d230c5671aa13, 0xa5f9d2c32e2d2980, 0x79c8476f95774690, 0x88de1f7dfdbfe393, 0xb558bcc35cc5aae3]"
  "derive_feistel_keys (replicate 32 2) =
    [0xad75fc7f91b9e0fc, 0xdf64d2a97b0cfc2, 0x274257fbd9c2f9bd, 0xe53691875f5a7ab4, 0x8e40a89e2eb74886, 0xcb05974e78f70383]"
proof -
  have "rng_state (rng_new (replicate 32 1) (- 1)) = 0x3313fa8b23b75018"
    "rng_state (rng_new (replicate 32 2) (- 1)) = 0x1bfc3fa76c6d49b3"
    by (simp_all add: rng_state_new ucast_max_u32 test_seed_mix funpow_8 xorshift_def)
  then have "rng_new (replicate 32 1) (- 1) = \<lparr>rng_state = 0x3313fa8b23b75018\<rparr>"
    "rng_new (replicate 32 2) (- 1) = \<lparr>rng_state = 0x1bfc3fa76c6d49b3\<rparr>" by simp_all
  then show "derive_feistel_keys (replicate 32 1) =
    [0xe33be8b919f1ba6b, 0x7d8d230c5671aa13, 0xa5f9d2c32e2d2980, 0x79c8476f95774690, 0x88de1f7dfdbfe393, 0xb558bcc35cc5aae3]"
    "derive_feistel_keys (replicate 32 2) =
    [0xad75fc7f91b9e0fc, 0xdf64d2a97b0cfc2, 0x274257fbd9c2f9bd, 0xe53691875f5a7ab4, 0x8e40a89e2eb74886, 0xcb05974e78f70383]"
    by (simp_all add: derive_feistel_keys_def draw_keys_6 next_u64_def xorshift_def)
qed

lemma feistel_first:
  assumes "isqrt_ceil n = Some half" "1 < n" "feistel_step keys half i = v" "v < n"
  shows "feistel_permute i n keys = Some (Some v)"
proof -
  have "feistel_walk 1000 keys half n i = Some v"
    using feistel_walk.simps(2) [of 999 keys half n i] assms(3,4) by (simp add: Let_def)
  moreover have "\<not> n \<le> 1" using assms(2) by simp
  ultimately show ?thesis using assms(1) by (simp add: feistel_permute_def)
qed

lemma test_permuted:
  "feistel_permute 0 100 (derive_feistel_keys (replicate 32 1)) = Some (Some 32)"
  "feistel_permute 0 100 (derive_feistel_keys (replicate 32 2)) = Some (Some 41)"
  "feistel_permute 0 60 (derive_feistel_keys (replicate 32 1)) = Some (Some 36)"
  "feistel_permute 0 60 (derive_feistel_keys (replicate 32 2)) = Some (Some 58)"
proof -
  have h: "isqrt_ceil 100 = Some 10" "isqrt_ceil 60 = Some 8"
    by (simp_all add: isqrt_ceil_def newton_loop.simps word_le_nat_alt)
  show "feistel_permute 0 100 (derive_feistel_keys (replicate 32 1)) = Some (Some 32)"
    "feistel_permute 0 100 (derive_feistel_keys (replicate 32 2)) = Some (Some 41)"
    "feistel_permute 0 60 (derive_feistel_keys (replicate 32 1)) = Some (Some 36)"
    "feistel_permute 0 60 (derive_feistel_keys (replicate 32 2)) = Some (Some 58)"
    unfolding test_keys
    by (rule feistel_first [OF h(1)] feistel_first [OF h(2)];
        simp add: feistel_step_def feistel_half_round_def feistel_round_fn_def)+
qed

lemma feistel_different_seeds_test: "test_feistel_different_seeds"
proof -
  have "map (\<lambda>i. feistel_permute (of_nat i) 100 keys) [0..<100] ! 0 = feistel_permute 0 100 keys" for keys
    by (subst nth_map) simp_all
  then have "map (\<lambda>i. feistel_permute (of_nat i) 100 (derive_feistel_keys (replicate 32 1))) [0..<100] ! 0 \<noteq>
      map (\<lambda>i. feistel_permute (of_nat i) 100 (derive_feistel_keys (replicate 32 2))) [0..<100] ! 0"
    by (simp only: test_permuted) simp
  then show ?thesis unfolding test_feistel_different_seeds_def Let_def by (rule contrapos_nn) (rule arg_cong)
qed

text \<open>The first pair of the second seed does not contain the player at which the first seed starts.\<close>

lemma circular_pair_fields:
  "n \<noteq> 0 \<Longrightarrow> canonical_to_pair_circular c n ds = Some (a, b) \<Longrightarrow> c mod n = a \<or> c mod n = b"
  by (auto simp: canonical_to_pair_circular_def Let_def split: if_splits)

lemma test_offsets: "select_offsets 20 6 (replicate 32 2) = Some ([1, 8, 9] @ replicate 47 0, 3)"
proof -
  have rng: "rng_new (replicate 32 2) 0 = \<lparr>rng_state = 0\<rparr>"
    unfolding replicate_chunks by (rule rng_new_equal_chunks) simp_all
  have m: "unat (min (min (div_ceil (6 :: u32) 2) (available_offsets 20)) 50) = 3" "unat (available_offsets 20) = 9"
    by (simp_all add: available_offsets_def div_ceil_def word_le_nat_alt min_def)
  have r: "replicate 50 (0 :: u32) = 0 # 0 # 0 # replicate 47 0" by (simp add: eval_nat_numeral)
  have "[9 - 3 + 1..<9 + 1] = [7, 8, 9 :: nat]" by (simp add: upt_rec)
  then have "floyd_loop [9 - 3 + 1..<9 + 1] \<lparr>rng_state = 0\<rparr> (replicate 50 0) 0 = Some (1 # 8 # 9 # replicate 47 0, 3)"
    by (simp add: r zero_draws Let_def)
  then show ?thesis by (simp add: select_offsets_def Let_def m rng)
qed

lemma different_pairings_test: "test_different_seeds_different_pairings"
proof -
  have s: "schedulable 20 6" by (simp add: schedulable_simps)
  have T: "calculate_match_count_inner 20 6 = 60"
    by (simp add: calculate_match_count_inner_def available_offsets_def div_ceil_def word_le_nat_alt word_less_nat_alt Let_def min_def)
  obtain ps qs where ps: "generate_all_pairings 20 6 (replicate 32 1) = Some ps"
    and qs: "generate_all_pairings 20 6 (replicate 32 2) = Some qs"
    using generate_all_pairings_total [OF s] by blast
  have len: "0 < length ps" "0 < length qs"
    using pairing_nth(1) [OF s ps] pairing_nth(1) [OF s qs] by (simp_all add: calculate_match_count_unat [OF s])
  have get: "get_pairing_for_match 20 6 seed 0 = do {
      c \<leftarrow> feistel_permute 0 60 (derive_feistel_keys seed);
      case c of None \<Rightarrow> Some None
      | Some canonical \<Rightarrow> do {
          (offsets, count) \<leftarrow> select_offsets 20 6 seed;
          map_option Some (canonical_to_pair_circular canonical 20 (take count offsets)) } }" for seed
    by (simp add: get_pairing_for_match_def T Let_def word_le_nat_alt)
  have "qs ! 0 = (7, 18)"
    using pairing_nth(2) [OF s qs len(2)]
    by (simp add: get test_permuted test_offsets canonical_to_pair_circular_def Let_def)
  moreover have "16 = fst (ps ! 0) \<or> 16 = snd (ps ! 0)"
    using pairing_nth(2) [OF s ps len(1)] circular_pair_fields [of 20 36 _ "fst (ps ! 0)" "snd (ps ! 0)"]
    by (auto simp: get test_permuted split: Option.bind_splits)
  ultimately have "ps \<noteq> qs" by auto
  then show ?thesis by (simp add: test_different_seeds_different_pairings_def ps qs)
qed

end
