(* ===== verification/Test_Properties.thy ===== *)
theory Test_Properties
  imports Vm_Tests Match_Tests Pairing_Tests
begin









end
