(* ===== verification/Spec2Isabelle.thy ===== *)
theory Spec2Isabelle
  imports Match_Properties Completion Wasm Test_Properties
begin

text \<open>
  \<^bold>\<open>Prisoner's Arena: a verification of the program and of its match logic.\<close>

  The repository holds a Solana program that runs tournaments of the iterated prisoner's dilemma
  (\<^verbatim>\<open>src/programs/prisoners-arena\<close>) and the crate with the game itself (\<^verbatim>\<open>src/crates/match-logic\<close>),
  which the program, the operator's tools and, through WebAssembly, the frontend share. Players pay a
  stake and commit to a strategy, reveal it, the operator has the matches played in batches,
  finalizes, and the best quarter shares the pool. The theories follow this layout.

  \<^bold>\<open>The match logic.\<close>
  \<^item> \<open>Arena_Prelude\<close>, \<open>Match_Types\<close>: words, checked and saturating arithmetic, results as sums, moves.
  \<^item> \<open>Seeded_Rng\<close>, \<open>Rng_Seeds\<close> (\<^verbatim>\<open>random.rs\<close>): the xorshift generator on 64-bit words; its state map is
    a bijection; the seeds that leave a new generator stuck at zero.
  \<^item> \<open>Vm\<close> (\<^verbatim>\<open>vm.rs\<close>): validator and interpreter of custom strategies with the array stack, the fuel
    and all failures. \<open>Vm_Machine\<close> states the stack as the locale \<open>bounded_stack\<close>, interpreted on the
    array, and defines an abstract machine without fuel; \<open>Vm_Refine\<close> proves that the interpreter
    refines it (fuel 128 suffices because every jump goes forward and a program has at most 64
    bytes); \<open>Vm_Validate\<close> characterizes the accepted programs by disassembly.
  \<^item> \<open>Strategies\<close>, \<open>Strategy_Parity\<close> (\<^verbatim>\<open>strategy.rs\<close> and the parity tests of \<^verbatim>\<open>vm.rs\<close>): the nine
    built-in strategies and their bytecode twins.
  \<^item> \<open>Game\<close>, \<open>Match_Course\<close>, \<open>Expected_Rounds\<close> (\<^verbatim>\<open>game.rs\<close>, \<^verbatim>\<open>lib.rs\<close>): matches, scores, matches between
    strategies that follow a script, the number of rounds and its average; double-precision numbers
    are read as real numbers in the last one and in its tests, and nowhere else.
  \<^item> \<open>Pairing\<close>, \<open>Isqrt\<close>, \<open>Feistel\<close>, \<open>Offsets\<close>, \<open>Pairing_Correct\<close> (\<^verbatim>\<open>pairing.rs\<close>): the schedule. The
    cycle-walking permutation is verified in the locale \<open>cycle_walk\<close>. A table of pairs in which all
    players have equally many matches is the locale \<open>regular_table\<close>, extended to \<open>fair_table\<close> where
    no pair meets twice; the repeated round robin, the single one and the circular table are their
    interpretations. The limit of 1000 walks is proved to be enough for 250000 indices, that is 5000
    players with the program's own numbers of matches; \<open>schedulable\<close> is the condition for any
    numbers of players and matches per player.
  \<^item> \<open>Wasm\<close> (\<^verbatim>\<open>wasm.rs\<close>): the interface for the frontend; the JSON and JavaScript conversions of other
    crates are the record \<open>Codec\<close>, a parameter.
  \<^item> \<open>Match_Properties\<close>: the properties of the match logic.
  \<^item> \<open>Vm_Tests\<close>, \<open>Match_Tests\<close>, \<open>Pairing_Tests\<close>, \<open>Test_Properties\<close>: the unit tests of the crate as
    definitions over the model, and the theorems that the model passes them, with every seed and
    generator where a test does not compare particular ones.

  \<^bold>\<open>The on-chain program.\<close>
  \<^item> \<open>Arena_State\<close> (\<^verbatim>\<open>state.rs\<close>, \<^verbatim>\<open>error.rs\<close>): accounts as records, errors, and the ledger: a balance for
    every address and typed data for the addresses the program owns. What the runtime provides (clock,
    rent, address derivation, signatures, SHA-256, recent slot hashes) is the record \<open>Env\<close>.
  \<^item> \<open>Admin_Ix\<close>, \<open>Player_Ix\<close>, \<open>Tournament_Ix\<close> (\<^verbatim>\<open>instructions/\<close>): one definition per instruction, from
    the account constraints to the last write, every \<^verbatim>\<open>require!\<close>, checked operation and panic a branch.
    Plain \<open>+=\<close> and \<open>-=\<close> on balances wrap, as in a release build.
  \<^item> \<open>Handler_Effects\<close>, \<open>Ledger_Laws\<close>: what a successful instruction did, as elimination rules.
  \<^item> \<open>Tournament_Inv\<close>, \<open>Finalize_Correct\<close>: the invariant of one tournament with its entries and its
    balance, and the accounting of the finalization.
  \<^item> \<open>Arena_Machine\<close> (\<^verbatim>\<open>lib.rs\<close>): the fourteen instructions, their dispatch, the step relation and
    the reachable ledgers, the invariant of a ledger. \<open>Ledger_Inv\<close>, \<open>Ledger_Inv_Player\<close>,
    \<open>Ledger_Inv_Operator\<close>, \<open>Ledger_Inv_Payout\<close>: every instruction keeps it.
  \<^item> \<open>Phases\<close>: what an instruction may change in a tournament. \<open>Supply\<close>: balances sum up.
    \<open>Play_Inv\<close>: the locale \<open>account_law\<close>, a property of account contents that every update keeps,
    interpreted on what the matches rely on. \<open>Match_Liveness\<close>: an iteration of a batch cannot fail.
  \<^item> \<open>Scenario\<close>, \<open>Gap_Scenario\<close>: concrete runs, evaluated by rewriting, that instantiate the hypotheses
    of the properties. \<open>Arena_Properties\<close>, \<open>Tournament_Properties\<close>, \<open>Completion\<close>: the properties of the
    program, from solvency to the end of the matches and the finalization.

  \<^bold>\<open>Assumptions.\<close> A reachable ledger starts without program accounts and with less than 2 to the 64
  lamports in all. \<open>env_ok\<close> and \<open>network_ok\<close> state what the runtime guarantees: derived addresses have
  no signature, rent grows with the size, a created or resized account is made rent exempt; \<open>pda_ok\<close>
  that the bump found for an address recreates it. \<open>honest\<close> restricts the operator in one place: the
  entry named for the refund of an odd player belongs to the tournament, which the program does not
  check (see \<open>refund_entry_unchecked\<close>).

  \<^bold>\<open>Not modelled.\<close> Log messages and the texts of the program's error codes; the byte layout of the
  accounts, which the Anchor framework generates; security.txt and the program id. Of the unit tests:
  the three of determinism, which hold of every function; \<open>test_rand_range\<close>, which asserts nothing;
  and the four that average the lengths of a thousand or more sampled matches, where the theorem on
  \<open>expected_rounds\<close> has the exact average instead.
\<close>

section \<open>The frontend and the chain\<close>





end
